(* ===== verification/Prelude.thy ===== *)
theory Prelude
  imports Main
    "HOL-Library.Char_ord"
    "HOL-Library.List_Lexorder"
    "HOL-Library.Option_ord"
    "HOL-Library.Product_Lexorder"
    "HOL-Library.Multiset"
begin

text \<open>
  Shared vocabulary of the development.

  \<^item> Rust's \<open>Result\<close> with the possibility of a panic: \<open>('e, 'a) res\<close>; the \<open>?\<close> operator is
    \<open>bindR\<close>, a \<open>for\<close> loop whose body uses \<open>?\<close> and pushes a value is \<open>mapR\<close>.
  \<^item> The string operations of the Rust standard library that the sources use
    (\<open>split\<close>, \<open>split_once\<close>, \<open>strip_prefix\<close>, \<open>join\<close>, \<open>replace\<close>, \<open>trim_start_matches\<close>),
    over \<open>string\<close>, a list of bytes.
  \<^item> Two interfaces used by several components: \<open>codec\<close> (a printer and a parser that
    invert each other on well-formed values) and \<open>transition_system\<close> (initial states,
    steps and an inductive invariant).
\<close>

named_theorems res_simps \<open>equations that drive fallible computations\<close>
named_theorems str_simps \<open>equations on the Rust string operations\<close>

section \<open>Results\<close>

text \<open>A call either fails with an error value of the source, or panics.\<close>

datatype 'e fault = Err 'e | Panic

type_synonym ('e, 'a) res = "'e fault + 'a"

abbreviation Ok :: "'a \<Rightarrow> ('e, 'a) res" where
  "Ok \<equiv> Inr"

abbreviation Fail :: "'e \<Rightarrow> ('e, 'a) res" where
  "Fail e \<equiv> Inl (Err e)"

definition bindR :: "('e, 'a) res \<Rightarrow> ('a \<Rightarrow> ('e, 'b) res) \<Rightarrow> ('e, 'b) res" where
  "bindR m f = (case m of Inl e \<Rightarrow> Inl e | Inr x \<Rightarrow> f x)"

lemma res_cases [case_names Fail Panic Ok]:
  obtains e where "(m :: ('e, 'a) res) = Fail e" | "m = Inl Panic" | x where "m = Ok x"
  by (metis fault.exhaust sum.exhaust)

lemma bindR_simps [simp, res_simps]:
  "bindR (Inl e) f = Inl e"
  "bindR (Inr x) f = f x"
  by (simp_all add: bindR_def)

lemma bindR_cong [fundef_cong]:
  assumes "m = m'" and "\<And>x. m' = Inr x \<Longrightarrow> f x = g x"
  shows "bindR m f = bindR m' g"
  using assms by (cases m') auto

lemma bindR_eq_Ok: "bindR m f = Inr y \<longleftrightarrow> (\<exists>x. m = Inr x \<and> f x = Inr y)"
  by (cases m) auto

lemma bindR_assoc: "bindR (bindR m f) g = bindR m (\<lambda>x. bindR (f x) g)"
  by (cases m) auto

text \<open>\<open>Option::context(..)?\<close> and \<open>Result::ok()\<close>.\<close>

definition ok_or :: "'e \<Rightarrow> 'a option \<Rightarrow> ('e, 'a) res" where
  "ok_or e x = (case x of None \<Rightarrow> Fail e | Some y \<Rightarrow> Ok y)"

lemma ok_or_simps [simp, res_simps]:
  "ok_or e None = Fail e"
  "ok_or e (Some y) = Ok y"
  by (simp_all add: ok_or_def)

lemma ok_or_eq_Ok: "ok_or e x = Inr y \<longleftrightarrow> x = Some y"
  by (cases x) auto

text \<open>\<open>map_err(..)\<close> and \<open>.context(..)\<close> on a result: only error values are wrapped.\<close>

definition map_err :: "('e \<Rightarrow> 'f) \<Rightarrow> ('e, 'a) res \<Rightarrow> ('f, 'a) res" where
  "map_err g m = (case m of Inl (Err e) \<Rightarrow> Inl (Err (g e)) | Inl Panic \<Rightarrow> Inl Panic | Inr x \<Rightarrow> Inr x)"

lemma map_err_simps [simp, res_simps]:
  "map_err g (Inl (Err e)) = Inl (Err (g e))"
  "map_err g (Inl Panic) = Inl Panic"
  "map_err g (Inr x) = Inr x"
  by (simp_all add: map_err_def)

lemma map_err_eq_Ok: "map_err g m = Inr x \<longleftrightarrow> m = Inr x"
  by (auto simp: map_err_def split: sum.splits fault.splits)

text \<open>A loop that pushes \<open>f(x)?\<close> for each element.\<close>

fun mapR :: "('a \<Rightarrow> ('e, 'b) res) \<Rightarrow> 'a list \<Rightarrow> ('e, 'b list) res" where
  "mapR f [] = Ok []"
| "mapR f (x # xs) = bindR (f x) (\<lambda>y. bindR (mapR f xs) (\<lambda>ys. Ok (y # ys)))"

lemma mapR_Ok: "(\<And>x. x \<in> set xs \<Longrightarrow> f x = Inr (g x)) \<Longrightarrow> mapR f xs = Inr (map g xs)"
  by (induction xs) auto

lemma mapR_id: "(\<And>x. x \<in> set xs \<Longrightarrow> f x = Inr x) \<Longrightarrow> mapR f xs = Inr xs"
  by (induction xs) auto

lemma mapR_map: "mapR f (map g xs) = mapR (\<lambda>x. f (g x)) xs"
  by (induction xs) auto

lemma mapR_length: "mapR f xs = Inr ys \<Longrightarrow> length ys = length xs"
  by (induction xs arbitrary: ys) (auto simp: bindR_eq_Ok)

text \<open>A loop over a mutable state whose body uses \<open>?\<close>: it stops at the first failure, and
  what the earlier iterations did to the state stays done.\<close>

fun foreachS :: "('x \<Rightarrow> 's \<Rightarrow> ('e, unit) res \<times> 's) \<Rightarrow> 'x list \<Rightarrow> 's \<Rightarrow> ('e, unit) res \<times> 's" where
  "foreachS body [] s = (Ok (), s)"
| "foreachS body (x # xs) s =
     (case body x s of (Inl e, s') \<Rightarrow> (Inl e, s') | (Inr _, s') \<Rightarrow> foreachS body xs s')"

text \<open>The errors and the values among the results of joined tasks, in order.\<close>

definition task_errors :: "('e, 'r) res list \<Rightarrow> 'e list" where
  "task_errors rs = concat (map (\<lambda>r. case r of Inl (Err e) \<Rightarrow> [e] | _ \<Rightarrow> []) rs)"

definition task_values :: "('e, 'r) res list \<Rightarrow> 'r list" where
  "task_values rs = concat (map (\<lambda>r. case r of Inr x \<Rightarrow> [x] | _ \<Rightarrow> []) rs)"

lemma task_errors_Nil: "task_errors rs = [] \<longleftrightarrow> (\<forall>e. Inl (Err e) \<notin> set rs)"
  by (induction rs) (auto simp: task_errors_def split: sum.splits fault.splits)

lemma tasks_all_Ok:
  "Inl Panic \<notin> set rs \<and> (\<forall>e. Inl (Err e) \<notin> set rs) \<longleftrightarrow> (\<forall>r \<in> set rs. \<exists>x. r = Inr x)"
  by (metis fault.exhaust sum.exhaust sum.distinct(1))

section \<open>Strings\<close>

fun strip_prefix :: "string \<Rightarrow> string \<Rightarrow> string option" where
  "strip_prefix [] s = Some s"
| "strip_prefix (p # ps) [] = None"
| "strip_prefix (p # ps) (c # s) = (if p = c then strip_prefix ps s else None)"

lemma strip_prefix_Some: "strip_prefix p s = Some t \<longleftrightarrow> s = p @ t"
  by (induction p s rule: strip_prefix.induct) auto

lemma strip_prefix_append [simp, str_simps]: "strip_prefix p (p @ t) = Some t"
  by (simp add: strip_prefix_Some)

lemma strip_prefix_absent:
  assumes "c \<in> set p" and "c \<notin> set s"
  shows "strip_prefix p s = None"
proof (cases "strip_prefix p s")
  case (Some t)
  then have "s = p @ t" by (simp add: strip_prefix_Some)
  with assms show ?thesis by simp
qed simp

definition starts_with :: "string \<Rightarrow> string \<Rightarrow> bool" where
  "starts_with p s \<longleftrightarrow> strip_prefix p s \<noteq> None"

lemma starts_with_iff: "starts_with p s \<longleftrightarrow> (\<exists>t. s = p @ t)"
  unfolding starts_with_def by (auto simp: strip_prefix_Some)

definition strip_suffix :: "string \<Rightarrow> string \<Rightarrow> string option" where
  "strip_suffix p s = map_option rev (strip_prefix (rev p) (rev s))"

lemma strip_suffix_Some: "strip_suffix p s = Some t \<longleftrightarrow> s = t @ p"
proof -
  have "strip_suffix p s = Some t \<longleftrightarrow> (\<exists>u. rev s = rev p @ u \<and> rev u = t)"
    by (auto simp: strip_suffix_def strip_prefix_Some)
  also have "\<dots> \<longleftrightarrow> rev s = rev (t @ p)" by auto
  also have "\<dots> \<longleftrightarrow> s = t @ p" by (rule rev_is_rev_conv)
  finally show ?thesis .
qed

lemma strip_suffix_append [simp, str_simps]: "strip_suffix p (t @ p) = Some t"
  by (simp add: strip_suffix_Some)

text \<open>\<open>str::split\<close> on one character: never empty, the separators removed.\<close>

fun split_on :: "char \<Rightarrow> string \<Rightarrow> string list" where
  "split_on c [] = [[]]"
| "split_on c (x # xs) =
     (if x = c then [] # split_on c xs
      else (x # hd (split_on c xs)) # tl (split_on c xs))"

text \<open>\<open>[String]::join\<close>.\<close>

fun join_with :: "string \<Rightarrow> string list \<Rightarrow> string" where
  "join_with sep [] = []"
| "join_with sep [w] = w"
| "join_with sep (w # v # ws) = w @ sep @ join_with sep (v # ws)"

lemma join_with_Cons: "ws \<noteq> [] \<Longrightarrow> join_with sep (w # ws) = w @ sep @ join_with sep ws"
  by (cases ws) auto

lemma split_on_ne [simp]: "split_on c s \<noteq> []"
  by (cases s) auto

lemma split_on_no_sep: "w \<in> set (split_on c s) \<Longrightarrow> c \<notin> set w"
proof (induction s arbitrary: w)
  case (Cons x xs)
  have "hd (split_on c xs) \<in> set (split_on c xs)" by simp
  moreover have "set (tl (split_on c xs)) \<subseteq> set (split_on c xs)"
    by (cases "split_on c xs") auto
  ultimately show ?case using Cons by (auto split: if_splits)
qed simp

lemma split_on_word: "c \<notin> set w \<Longrightarrow> split_on c w = [w]"
  by (induction w) auto

lemma split_on_word_sep: "c \<notin> set w \<Longrightarrow> split_on c (w @ c # s) = w # split_on c s"
  by (induction w) auto

lemma split_on_join:
  assumes "ws \<noteq> []" and "\<And>w. w \<in> set ws \<Longrightarrow> c \<notin> set w"
  shows "split_on c (join_with [c] ws) = ws"
  using assms by (induction "[c]" ws rule: join_with.induct)
    (auto simp: split_on_word split_on_word_sep)

lemma join_with_hd: "ws \<noteq> [] \<Longrightarrow> join_with sep ((x # hd ws) # tl ws) = x # join_with sep ws"
  by (cases ws; cases "tl ws") auto

lemma join_split_on [simp, str_simps]: "join_with [c] (split_on c s) = s"
  by (induction s) (auto simp: join_with_Cons join_with_hd)

text \<open>\<open>str::split_once\<close> on one character.\<close>

fun split_once :: "char \<Rightarrow> string \<Rightarrow> (string \<times> string) option" where
  "split_once c [] = None"
| "split_once c (x # xs) =
     (if x = c then Some ([], xs)
      else map_option (\<lambda>(l, r). (x # l, r)) (split_once c xs))"

lemma split_once_hit: "c \<notin> set l \<Longrightarrow> split_once c (l @ c # r) = Some (l, r)"
  by (induction l) auto

lemma split_once_None: "split_once c s = None \<longleftrightarrow> c \<notin> set s"
  by (induction s) auto

text \<open>\<open>str::replace(char, "_")\<close> and \<open>str::trim_start_matches(char)\<close>.\<close>

definition replace_char :: "char \<Rightarrow> char \<Rightarrow> string \<Rightarrow> string" where
  "replace_char c d s = map (\<lambda>x. if x = c then d else x) s"

definition trim_start :: "char \<Rightarrow> string \<Rightarrow> string" where
  "trim_start c s = dropWhile (\<lambda>x. x = c) s"

lemma replace_char_set: "set (replace_char c d s) = (if c \<in> set s then insert d (set s - {c}) else set s)"
  unfolding replace_char_def by auto

lemma replace_char_id: "c \<notin> set s \<Longrightarrow> replace_char c d s = s"
  unfolding replace_char_def by (induction s) auto

lemma trim_start_subset: "set (trim_start c s) \<subseteq> set s"
  unfolding trim_start_def by (auto dest: set_dropWhileD)

lemma trim_start_hd: "trim_start c s = [] \<or> hd (trim_start c s) \<noteq> c"
  unfolding trim_start_def by (induction s) auto

lemma trim_start_id: "s = [] \<or> hd s \<noteq> c \<Longrightarrow> trim_start c s = s"
  unfolding trim_start_def by (cases s) auto

section \<open>Ordered maps\<close>

text \<open>
  A \<open>BTreeMap\<close> is a finite partial function; iterating over it visits the keys in
  ascending order. \<open>from_entries\<close> is \<open>FromIterator\<close>: later entries overwrite earlier ones.
\<close>

definition map_entries :: "('k::linorder \<rightharpoonup> 'v) \<Rightarrow> ('k \<times> 'v) list" where
  "map_entries m = map (\<lambda>k. (k, the (m k))) (sorted_list_of_set (dom m))"

definition from_entries :: "('k \<times> 'v) list \<Rightarrow> ('k \<rightharpoonup> 'v)" where
  "from_entries es = fold (\<lambda>(k, v) m. m(k \<mapsto> v)) es Map.empty"

lemma fold_upd_other:
  "k \<notin> fst ` set es \<Longrightarrow> fold (\<lambda>(k, v) m. m(k \<mapsto> v)) es m k = m k"
  by (induction es arbitrary: m) auto

lemma fold_upd_distinct:
  assumes "distinct (map fst es)"
  shows "fold (\<lambda>(k, v) m. m(k \<mapsto> v)) es m = m ++ map_of es"
  using assms
proof (induction es arbitrary: m)
  case (Cons e es)
  obtain k v where e: "e = (k, v)" by (cases e)
  from Cons.prems e have "k \<notin> fst ` set es" by simp
  then have "map_of es k = None" by (simp add: map_of_eq_None_iff)
  with Cons e show ?case by (auto simp: fun_eq_iff map_add_def split: option.splits)
qed simp

lemma from_entries_map_entries:
  assumes "finite (dom m)"
  shows "from_entries (map_entries m) = m"
proof -
  let ?es = "map_entries m"
  have "distinct (map fst ?es)"
    by (simp add: map_entries_def comp_def)
  then have "from_entries ?es = map_of ?es"
    by (simp add: from_entries_def fold_upd_distinct)
  also have "\<dots> = m"
  proof
    fix k
    show "map_of ?es k = m k"
    proof (cases "k \<in> dom m")
      case True
      then show ?thesis using assms
        by (auto simp: map_entries_def map_of_map_restrict domIff)
    next
      case False
      then have "k \<notin> fst ` set ?es" using assms by (auto simp: map_entries_def)
      then show ?thesis using False by (auto simp: map_of_eq_None_iff domIff)
    qed
  qed
  finally show ?thesis .
qed

lemma map_entries_values: "finite (dom m) \<Longrightarrow> (k, v) \<in> set (map_entries m) \<longleftrightarrow> m k = Some v"
  by (force simp: map_entries_def)

section \<open>Interfaces\<close>

text \<open>
  A printer and a parser. The parser recovers every well-formed value from its printed
  form; hence the printed form identifies the value.
\<close>

locale codec =
  fixes enc :: "'a \<Rightarrow> 's"
    and dec :: "'s \<Rightarrow> ('e, 'a) res"
    and valid :: "'a \<Rightarrow> bool"
  assumes dec_enc: "valid x \<Longrightarrow> dec (enc x) = Inr x"
begin

lemma enc_inj: "valid x \<Longrightarrow> valid y \<Longrightarrow> enc x = enc y \<Longrightarrow> x = y"
  by (metis dec_enc sum.inject(2))

lemma dec_enc_list: "\<forall>x \<in> set xs. valid x \<Longrightarrow> mapR dec (map enc xs) = Inr xs"
  by (induction xs) (auto simp: dec_enc)

end

text \<open>
  A store of keyed values: what a lookup returns after a save and after a deletion, and
  that both keep the store's invariant. \<open>valid\<close> says which values the store accepts in a
  given state. The catalog and every backend built on it offer this interface; pruning
  loops rely on it.
\<close>

locale keyed_store =
  fixes inv :: "'s \<Rightarrow> bool"
    and valid :: "'s \<Rightarrow> 'a \<Rightarrow> bool"
    and key :: "'a \<Rightarrow> 'k"
    and lookup :: "'s \<Rightarrow> 'k \<Rightarrow> 'a option"
    and save :: "'a \<Rightarrow> 's \<Rightarrow> ('e, unit) res \<times> 's"
    and del :: "'k \<Rightarrow> 's \<Rightarrow> ('e, unit) res \<times> 's"
  assumes save_ok: "inv s \<Longrightarrow> valid s a \<Longrightarrow>
      \<exists>s'. save a s = (Ok (), s') \<and> inv s' \<and> lookup s' = (lookup s)(key a \<mapsto> a)"
    and del_ok: "inv s \<Longrightarrow> \<exists>s'. del k s = (Ok (), s') \<and> inv s' \<and> lookup s' = (lookup s)(k := None)"
begin

lemma del_all:
  "inv s \<Longrightarrow> \<exists>s'. foreachS del ks s = (Ok (), s') \<and> inv s' \<and> lookup s' = (lookup s) |` (- set ks)"
proof (induction ks arbitrary: s)
  case (Cons k ks)
  then obtain s1 where 1: "del k s = (Ok (), s1)" "inv s1" "lookup s1 = (lookup s)(k := None)"
    using del_ok by blast
  from Cons.IH [OF 1(2)] obtain s2 where
    2: "foreachS del ks s1 = (Ok (), s2)" "inv s2" "lookup s2 = (lookup s1) |` (- set ks)"
    by blast
  have "(lookup s1) |` (- set ks) = (lookup s) |` (- set (k # ks))"
    using 1(3) by (auto simp: restrict_map_def fun_eq_iff)
  with 1(1) 2 show ?case by simp
qed auto

lemma save_then_del:
  assumes "inv s" and "valid s a" and "save a s = (Ok (), s1)"
  shows "\<exists>s2. del (key a) s1 = (Ok (), s2) \<and> lookup s2 = (lookup s)(key a := None)"
proof -
  from save_ok [OF assms(1,2)] assms(3) have "inv s1" "lookup s1 = (lookup s)(key a \<mapsto> a)" by auto
  with del_ok [of s1 "key a"] show ?thesis by auto
qed

end

text \<open>A step relation with an invariant that every initial state has and every step keeps.\<close>

inductive reachable_from :: "('s \<Rightarrow> bool) \<Rightarrow> ('s \<Rightarrow> 's \<Rightarrow> bool) \<Rightarrow> 's \<Rightarrow> bool"
  for init :: "'s \<Rightarrow> bool" and step :: "'s \<Rightarrow> 's \<Rightarrow> bool" where
  reach_init: "init s \<Longrightarrow> reachable_from init step s"
| reach_step: "reachable_from init step s \<Longrightarrow> step s t \<Longrightarrow> reachable_from init step t"

locale transition_system =
  fixes init :: "'p \<Rightarrow> 's \<Rightarrow> bool"
    and step :: "'p \<Rightarrow> 's \<Rightarrow> 's \<Rightarrow> bool"
    and pre :: "'p \<Rightarrow> bool"
    and inv :: "'p \<Rightarrow> 's \<Rightarrow> bool"
  assumes inv_init: "pre p \<Longrightarrow> init p s \<Longrightarrow> inv p s"
    and inv_step: "pre p \<Longrightarrow> inv p s \<Longrightarrow> step p s t \<Longrightarrow> inv p t"
begin

lemma reachable_inv:
  assumes "pre p" and "reachable_from (init p) (step p) s"
  shows "inv p s"
  using assms(2) by induction (auto intro: inv_init inv_step assms(1))

end

end
