(* ===== verification/Address.thy ===== *)
theory Address
  imports Prelude
begin

text \<open>
  Hierarchical addresses (\<open>crates/edo/src/context/address.rs\<close>): the type \<open>Addr\<close>, its
  parser and printers, \<open>join\<close>, \<open>parent\<close> and the derived total order on segments.
\<close>

section \<open>The type and its order\<close>

datatype addr = Addr (segments: "string list")

instantiation addr :: linorder
begin

definition less_eq_addr :: "addr \<Rightarrow> addr \<Rightarrow> bool" where
  "a \<le> b \<longleftrightarrow> segments a \<le> segments b"

definition less_addr :: "addr \<Rightarrow> addr \<Rightarrow> bool" where
  "a < b \<longleftrightarrow> segments a < segments b"

instance
  by standard (auto simp: less_eq_addr_def less_addr_def intro: addr.expand)

end

section \<open>Operations\<close>

text \<open>\<open>Addr::default()\<close>: the empty segment vector.\<close>

definition addr_default :: addr where
  "addr_default = Addr []"

text \<open>\<open>Addr::parse\<close>: an optional leading \<open>//\<close> is dropped, then the text is split at \<open>/\<close>.\<close>

definition addr_parse :: "string \<Rightarrow> ('e, addr) res" where
  "addr_parse input =
     (let segment = (case strip_prefix ''//'' input of Some t \<Rightarrow> t | None \<Rightarrow> input)
      in Ok (Addr (split_on (CHR ''/'') segment)))"

definition addr_join :: "addr \<Rightarrow> string \<Rightarrow> addr" where
  "addr_join a name = Addr (segments a @ [name])"

definition addr_parent :: "addr \<Rightarrow> addr option" where
  "addr_parent a = (if length (segments a) = 1 then None else Some (Addr (butlast (segments a))))"

definition addr_to_id :: "addr \<Rightarrow> string" where
  "addr_to_id a = join_with ''/'' (segments a)"

definition addr_to_string :: "addr \<Rightarrow> string" where
  "addr_to_string a = ''//'' @ join_with ''/'' (segments a)"

section \<open>Laws\<close>

text \<open>An address that can be printed and read back: at least one segment, none with a slash.\<close>

definition addr_plain :: "addr \<Rightarrow> bool" where
  "addr_plain a \<longleftrightarrow> segments a \<noteq> [] \<and> (\<forall>w \<in> set (segments a). CHR ''/'' \<notin> set w)"

lemma addr_parse_to_string: "addr_plain a \<Longrightarrow> addr_parse (addr_to_string a) = Ok a"
  unfolding addr_plain_def addr_parse_def addr_to_string_def
  by (cases a) (simp add: split_on_join Let_def)

interpretation addr_codec: codec addr_to_string addr_parse addr_plain
  by unfold_locales (rule addr_parse_to_string)

lemma addr_parse_plain: "addr_parse s = Ok a \<Longrightarrow> addr_plain a"
  unfolding addr_parse_def addr_plain_def Let_def by (auto dest: split_on_no_sep)

lemma addr_to_string_parse:
  "addr_parse s = Ok a \<Longrightarrow> addr_to_string a = (if starts_with ''//'' s then s else ''//'' @ s)"
  unfolding addr_parse_def addr_to_string_def starts_with_def Let_def
  by (auto simp: strip_prefix_Some split: option.splits)

lemma addr_parse_total: "\<exists>a. addr_parse s = Ok a"
  by (simp add: addr_parse_def Let_def)

lemma addr_plain_join: "addr_plain a \<Longrightarrow> CHR ''/'' \<notin> set n \<Longrightarrow> addr_plain (addr_join a n)"
  unfolding addr_plain_def addr_join_def by auto

lemma addr_parent_join: "segments a \<noteq> [] \<Longrightarrow> addr_parent (addr_join a n) = Some a"
  unfolding addr_parent_def addr_join_def by (cases a) auto

lemma addr_join_inj: "addr_join a m = addr_join b n \<longleftrightarrow> a = b \<and> m = n"
  unfolding addr_join_def by (cases a; cases b) auto

lemma addr_to_string_join:
  "segments a \<noteq> [] \<Longrightarrow> addr_to_string (addr_join a n) = addr_to_string a @ ''/'' @ n"
proof -
  have "ws \<noteq> [] \<Longrightarrow> join_with ''/'' (ws @ [n]) = join_with ''/'' ws @ ''/'' @ n" for ws
    by (induction ws rule: induct_list012) auto
  then show "segments a \<noteq> [] \<Longrightarrow> ?thesis"
    by (simp add: addr_to_string_def addr_join_def)
qed

section \<open>Properties\<close>

text \<open>printing an address that has at least one segment and no slash inside a segment,
  and parsing the text, gives the address back; every address the parser returns is of this
  form, whatever the text, and its printed form is the text with the leading \<open>//\<close> added if
  it was missing.\<close>

lemma addr_round_trip:
  "(addr_plain a \<longrightarrow> addr_parse (addr_to_string a) = Ok a)
   \<and> (\<exists>b. addr_parse s = Ok b \<and> addr_plain b
          \<and> addr_to_string b = (if starts_with ''//'' s then s else ''//'' @ s))"
  using addr_codec.dec_enc addr_parse_total addr_parse_plain addr_to_string_parse by metis

lemma addr_round_trip_witness:
  "addr_plain (Addr [''proj'', ''build''])
   \<and> addr_parse (addr_to_string (Addr [''proj'', ''build''])) = Ok (Addr [''proj'', ''build''])"
proof -
  have h: "addr_plain (Addr [''proj'', ''build''])" by (simp add: addr_plain_def)
  with addr_round_trip [of "Addr [''proj'', ''build'']" "[]"] show ?thesis by blast
qed

text \<open>joining is injective in the parent and in the name, \<open>parent\<close> undoes it on every
  address with a segment, and the printed form of a child extends the parent's by \<open>/name\<close>.\<close>

lemma addr_join_parent:
  assumes "segments a \<noteq> []"
  shows "addr_parent (addr_join a n) = Some a
    \<and> (addr_join a n = addr_join b m \<longleftrightarrow> a = b \<and> n = m)
    \<and> addr_to_string (addr_join a n) = addr_to_string a @ ''/'' @ n"
  using assms by (auto simp: addr_parent_join addr_join_inj addr_to_string_join)

lemma addr_join_parent_witness:
  "addr_parent (addr_join (Addr [''proj'']) ''build'') = Some (Addr [''proj''])
   \<and> addr_to_string (addr_join (Addr [''proj'']) ''build'') = ''//proj/build''"
  using addr_join_parent [of "Addr [''proj'']" "''build''"]
  by (simp add: addr_to_string_def)

end
