(* ===== verification/Artifact_Id.thy ===== *)
theory Artifact_Id
  imports Prelude
begin

text \<open>
  Artifact names and identifiers (\<open>crates/edo/src/storage/id.rs\<close>): \<open>Name::parse\<close>, the
  structure \<open>Id\<close> with its derived order, \<open>prefix\<close>, \<open>Display\<close> and \<open>FromStr\<close>. The \<open>semver\<close>
  crate is a parameter: \<open>vshow\<close> is \<open>Version::to_string\<close>, \<open>vparse\<close> is \<open>Version::parse\<close>; the
  version type is any linearly ordered type.
\<close>

section \<open>Names\<close>

datatype artifact_name = Name (name_text: string)

definition UNSUPPORTED_CHARS :: "char list" where
  "UNSUPPORTED_CHARS = [CHR ''@'', CHR '':'', CHR ''.'', CHR ''-'', CHR ''/'']"

definition UNSUPPORTED_PREFIX :: "string list" where
  "UNSUPPORTED_PREFIX = [''http://'', ''https://'']"

definition strip_unsupported :: "string \<Rightarrow> string" where
  "strip_unsupported s =
     fold (\<lambda>p v. case strip_prefix p v of Some t \<Rightarrow> t | None \<Rightarrow> v) UNSUPPORTED_PREFIX s"

definition name_parse :: "string \<Rightarrow> artifact_name" where
  "name_parse value =
     (let v1 = strip_unsupported value;
          v2 = fold (\<lambda>c v. replace_char c (CHR ''_'') v) UNSUPPORTED_CHARS v1
      in Name (trim_start (CHR ''_'') v2))"

text \<open>The form that \<open>Name::parse\<close> establishes.\<close>

definition name_ok :: "artifact_name \<Rightarrow> bool" where
  "name_ok n \<longleftrightarrow> set (name_text n) \<inter> set UNSUPPORTED_CHARS = {}
     \<and> (name_text n = [] \<or> hd (name_text n) \<noteq> CHR ''_'')"

lemma replace_all_chars:
  "set (fold (\<lambda>c v. replace_char c (CHR ''_'') v) cs v) \<subseteq> (set v - set cs) \<union> {CHR ''_''}"
proof (induction cs arbitrary: v)
  case (Cons c cs)
  have "set (replace_char c (CHR ''_'') v) \<subseteq> (set v - {c}) \<union> {CHR ''_''}"
    by (auto simp: replace_char_set)
  with Cons.IH [of "replace_char c (CHR ''_'') v"] show ?case by auto
qed auto

lemma replace_all_id:
  "set v \<inter> set cs = {} \<Longrightarrow> fold (\<lambda>c v. replace_char c (CHR ''_'') v) cs v = v"
  by (induction cs) (auto simp: replace_char_id)

lemma name_parse_ok: "name_ok (name_parse s)"
proof -
  let ?v = "fold (\<lambda>c v. replace_char c (CHR ''_'') v) UNSUPPORTED_CHARS (strip_unsupported s)"
  have "set ?v \<inter> set UNSUPPORTED_CHARS = {}"
    using replace_all_chars [of UNSUPPORTED_CHARS "strip_unsupported s"]
    by (auto simp: UNSUPPORTED_CHARS_def)
  then have "set (trim_start (CHR ''_'') ?v) \<inter> set UNSUPPORTED_CHARS = {}"
    using trim_start_subset [of "CHR ''_''" ?v] by blast
  then show ?thesis
    unfolding name_ok_def name_parse_def Let_def using trim_start_hd [of "CHR ''_''" ?v] by simp
qed

lemma name_parse_text: "name_ok n \<Longrightarrow> name_parse (name_text n) = n"
proof -
  assume ok: "name_ok n"
  then have "CHR ''/'' \<notin> set (name_text n)" by (auto simp: name_ok_def UNSUPPORTED_CHARS_def)
  then have "strip_unsupported (name_text n) = name_text n"
    by (simp add: strip_unsupported_def UNSUPPORTED_PREFIX_def
        strip_prefix_absent [of "CHR ''/''"])
  then show ?thesis using ok
    by (cases n) (auto simp: name_parse_def name_ok_def Let_def replace_all_id intro!: trim_start_id)
qed

section \<open>Identifiers\<close>

datatype 'v artifact_id = Id
  (id_name: artifact_name)
  (id_package: "artifact_name option")
  (id_version: "'v option")
  (id_arch: "string option")
  (id_digest: string)

text \<open>The derived \<open>Ord\<close>: field by field, in the order of declaration.\<close>

definition id_key :: "'v artifact_id \<Rightarrow> string \<times> string option \<times> 'v option \<times> string option \<times> string" where
  "id_key i = (name_text (id_name i), map_option name_text (id_package i), id_version i,
     id_arch i, id_digest i)"

lemma id_key_inj: "id_key i = id_key j \<longleftrightarrow> i = j"
proof
  assume "id_key i = id_key j"
  then show "i = j"
    by (cases i; cases j) (auto simp: id_key_def map_option_case intro: artifact_name.expand
        split: option.splits)
qed simp

instantiation artifact_id :: (linorder) linorder
begin

definition less_eq_artifact_id :: "'a artifact_id \<Rightarrow> 'a artifact_id \<Rightarrow> bool" where
  "i \<le> j \<longleftrightarrow> id_key i \<le> id_key j"

definition less_artifact_id :: "'a artifact_id \<Rightarrow> 'a artifact_id \<Rightarrow> bool" where
  "i < j \<longleftrightarrow> id_key i < id_key j"

instance
  by standard
    (auto simp: less_eq_artifact_id_def less_artifact_id_def less_le_not_le simp flip: id_key_inj)

end

text \<open>\<open>set_digest\<close>, \<open>set_version\<close>, \<open>clear_version\<close>.\<close>

definition id_set_digest :: "'v artifact_id \<Rightarrow> string \<Rightarrow> 'v artifact_id" where
  "id_set_digest i d = Id (id_name i) (id_package i) (id_version i) (id_arch i) d"

definition id_set_version :: "'v artifact_id \<Rightarrow> 'v \<Rightarrow> 'v artifact_id" where
  "id_set_version i v = Id (id_name i) (id_package i) (Some v) (id_arch i) (id_digest i)"

definition id_clear_version :: "'v artifact_id \<Rightarrow> 'v artifact_id" where
  "id_clear_version i = Id (id_name i) (id_package i) None (id_arch i) (id_digest i)"

text \<open>\<open>Id::prefix\<close>: \<open>[package+]name[-version][.arch]\<close>.\<close>

definition id_prefix :: "('v \<Rightarrow> string) \<Rightarrow> 'v artifact_id \<Rightarrow> string" where
  "id_prefix vshow i =
     (case id_package i of Some p \<Rightarrow> name_text p @ ''+'' | None \<Rightarrow> [])
     @ name_text (id_name i)
     @ (case id_version i of Some v \<Rightarrow> ''-'' @ vshow v | None \<Rightarrow> [])
     @ (case id_arch i of Some a \<Rightarrow> ''.'' @ a | None \<Rightarrow> [])"

text \<open>\<open>Display for Id\<close>: the same pieces, then \<open>-digest\<close>.\<close>

definition id_to_string :: "('v \<Rightarrow> string) \<Rightarrow> 'v artifact_id \<Rightarrow> string" where
  "id_to_string vshow i =
     (case id_package i of Some p \<Rightarrow> name_text p @ ''+'' | None \<Rightarrow> [])
     @ name_text (id_name i)
     @ (case id_version i of Some v \<Rightarrow> ''-'' @ vshow v | None \<Rightarrow> [])
     @ (case id_arch i of Some a \<Rightarrow> ''.'' @ a | None \<Rightarrow> [])
     @ ''-'' @ id_digest i"

datatype id_error = IdError string | SemverError

text \<open>
  \<open>FromStr for Id\<close>, branch by branch. With three segments the code takes the version and
  the architecture from the first segment, unwrapping \<open>split_once\<close> (a panic when it has no
  dot), and the digest from the second one.
\<close>

definition id_from_str :: "(string \<Rightarrow> 'v option) \<Rightarrow> string \<Rightarrow> (id_error, 'v artifact_id) res" where
  "id_from_str vparse s0 =
     (let (package, s) =
            (case split_once (CHR ''+'') s0 of
               Some (left, right) \<Rightarrow> (Some (name_parse left), right)
             | None \<Rightarrow> (None, s0));
          segs = split_on (CHR ''-'') s
      in if length segs = 2 then
           (let (name, arch) =
                  (case split_once (CHR ''.'') (segs ! 0) of
                     Some (x, y) \<Rightarrow> (x, Some y)
                   | None \<Rightarrow> (segs ! 0, None))
            in Ok (Id (name_parse name) package None arch (segs ! 1)))
         else if length segs = 3 then
           (case (if CHR ''.'' \<in> set (segs ! 1)
                  then (case split_once (CHR ''.'') (segs ! 0) of
                          Some (x, y) \<Rightarrow> Some (x, Some y)
                        | None \<Rightarrow> None)
                  else Some (segs ! 0, None)) of
              None \<Rightarrow> Inl Panic
            | Some (version, arch) \<Rightarrow>
                bindR (ok_or SemverError (vparse version)) (\<lambda>v.
                  Ok (Id (name_parse (segs ! 0)) package (Some v) arch (segs ! 1))))
         else Fail (IdError ([CHR 0x27] @ s @ [CHR 0x27] @ '' is not a valid artifact id'')))"

section \<open>Laws\<close>

lemma id_to_string_prefix: "id_to_string vshow i = id_prefix vshow i @ ''-'' @ id_digest i"
  by (simp add: id_to_string_def id_prefix_def)

text \<open>
  The identifiers that survive a print and a parse: normalised names, no version, no dash
  in architecture or digest, and a plus sign only after the one that ends the package.
\<close>

definition id_plain :: "'v artifact_id \<Rightarrow> bool" where
  "id_plain i \<longleftrightarrow> name_ok (id_name i) \<and> id_version i = None
     \<and> (case id_package i of
          Some p \<Rightarrow> name_ok p \<and> CHR ''+'' \<notin> set (name_text p)
        | None \<Rightarrow> CHR ''+'' \<notin> set (name_text (id_name i)) \<union> set (id_digest i)
                     \<union> (case id_arch i of Some a \<Rightarrow> set a | None \<Rightarrow> {}))
     \<and> CHR ''-'' \<notin> set (id_digest i)
     \<and> (case id_arch i of Some a \<Rightarrow> CHR ''-'' \<notin> set a | None \<Rightarrow> True)"

lemma name_ok_chars:
  "name_ok n \<Longrightarrow> CHR ''-'' \<notin> set (name_text n)"
  "name_ok n \<Longrightarrow> CHR ''.'' \<notin> set (name_text n)"
  by (auto simp: name_ok_def UNSUPPORTED_CHARS_def)

text \<open>Splitting off the package, with the printed form cut at the first plus sign.\<close>

lemma split_package:
  assumes "case pk of Some p \<Rightarrow> name_ok p \<and> CHR ''+'' \<notin> set (name_text p)
           | None \<Rightarrow> CHR ''+'' \<notin> set r"
  shows "(case split_once (CHR ''+'') ((case pk of Some p \<Rightarrow> name_text p @ ''+'' | None \<Rightarrow> []) @ r) of
            Some (left, right) \<Rightarrow> (Some (name_parse left), right)
          | None \<Rightarrow> (None, (case pk of Some p \<Rightarrow> name_text p @ ''+'' | None \<Rightarrow> []) @ r))
         = (pk, r)"
proof (cases pk)
  case None
  with assms have "split_once (CHR ''+'') r = None" by (simp add: split_once_None)
  with None show ?thesis by simp
next
  case (Some p)
  with assms show ?thesis by (simp add: split_once_hit name_parse_text)
qed

lemma split_arch:
  assumes "CHR ''.'' \<notin> set n"
  shows "(case split_once (CHR ''.'') (n @ (case ar of Some a \<Rightarrow> ''.'' @ a | None \<Rightarrow> [])) of
            Some (x, y) \<Rightarrow> (x, Some y)
          | None \<Rightarrow> (n @ (case ar of Some a \<Rightarrow> ''.'' @ a | None \<Rightarrow> []), None)) = (n, ar)"
  using assms by (cases ar) (auto simp: split_once_hit split_once_None[THEN iffD2])

lemma id_from_str_to_string:
  assumes "id_plain i"
  shows "id_from_str vparse (id_to_string vshow i) = Ok i"
proof -
  let ?n = "name_text (id_name i)"
  let ?ar = "case id_arch i of Some a \<Rightarrow> ''.'' @ a | None \<Rightarrow> []"
  let ?r = "(?n @ ?ar) @ CHR ''-'' # id_digest i"
  from assms have ok: "name_ok (id_name i)" and ver: "id_version i = None"
    by (auto simp: id_plain_def)
  have str: "id_to_string vshow i
      = (case id_package i of Some p \<Rightarrow> name_text p @ ''+'' | None \<Rightarrow> []) @ ?r"
    by (simp add: id_to_string_def ver)
  have pkg: "case id_package i of Some p \<Rightarrow> name_ok p \<and> CHR ''+'' \<notin> set (name_text p)
           | None \<Rightarrow> CHR ''+'' \<notin> set ?r"
    using assms by (auto simp: id_plain_def split: option.splits)
  have "CHR ''-'' \<notin> set (?n @ ?ar)" and "CHR ''-'' \<notin> set (id_digest i)"
    using assms name_ok_chars(1) [OF ok] by (auto simp: id_plain_def split: option.splits)
  then have segs: "split_on (CHR ''-'') ?r = [?n @ ?ar, id_digest i]"
    by (simp only: split_on_word_sep split_on_word not_False_eq_True)
  have i: "Id (id_name i) (id_package i) None (id_arch i) (id_digest i) = i"
    using ver by (cases i) simp
  show ?thesis
    unfolding id_from_str_def str split_package [OF pkg] Let_def prod.case segs nth_Cons_0
      split_arch [OF name_ok_chars(2) [OF ok]]
    by (simp add: name_parse_text [OF ok] i)
qed

interpretation id_codec: codec "id_to_string vshow" "id_from_str vparse" id_plain
  by unfold_locales (rule id_from_str_to_string)

text \<open>A released version \<open>major.minor.patch\<close>, as \<open>semver\<close> prints it: a dot, no dash, no plus.\<close>

definition release_text :: "string \<Rightarrow> bool" where
  "release_text t \<longleftrightarrow> CHR ''.'' \<in> set t \<and> CHR ''-'' \<notin> set t \<and> CHR ''+'' \<notin> set t"

lemma id_from_str_versioned:
  assumes "id_plain (id_clear_version i)" and "id_version i = Some v" and "release_text (vshow v)"
  shows "id_from_str vparse (id_to_string vshow i) = Inl Panic"
proof -
  let ?n = "name_text (id_name i)"
  let ?ar = "case id_arch i of Some a \<Rightarrow> ''.'' @ a | None \<Rightarrow> []"
  let ?r = "?n @ CHR ''-'' # (vshow v @ ?ar) @ CHR ''-'' # id_digest i"
  from assms(1) have ok: "name_ok (id_name i)" by (simp add: id_plain_def id_clear_version_def)
  have str: "id_to_string vshow i
      = (case id_package i of Some p \<Rightarrow> name_text p @ ''+'' | None \<Rightarrow> []) @ ?r"
    by (simp add: id_to_string_def assms(2))
  have pkg: "case id_package i of Some p \<Rightarrow> name_ok p \<and> CHR ''+'' \<notin> set (name_text p)
           | None \<Rightarrow> CHR ''+'' \<notin> set ?r"
    using assms by (auto simp: id_plain_def id_clear_version_def release_text_def split: option.splits)
  have "CHR ''-'' \<notin> set ?n" "CHR ''-'' \<notin> set (vshow v @ ?ar)" "CHR ''-'' \<notin> set (id_digest i)"
    using assms name_ok_chars(1) [OF ok]
    by (auto simp: id_plain_def id_clear_version_def release_text_def split: option.splits)
  then have segs: "split_on (CHR ''-'') ?r = [?n, vshow v @ ?ar, id_digest i]"
    by (simp only: split_on_word_sep split_on_word not_False_eq_True)
  have "split_once (CHR ''.'') ?n = None" by (simp add: split_once_None name_ok_chars(2) [OF ok])
  then show ?thesis
    unfolding id_from_str_def str split_package [OF pkg] Let_def prod.case segs
    using assms(3) by (simp add: release_text_def)
qed

section \<open>Properties\<close>

text \<open>\<open>Name::parse\<close> yields text without the unsupported characters and without a
  leading underscore, and parsing such a text changes nothing; so it is idempotent.\<close>

lemma name_parse_normal_form:
  "name_ok (name_parse s) \<and> name_parse (name_text (name_parse s)) = name_parse s"
  by (simp add: name_parse_ok name_parse_text)

text \<open>an identifier without a version, with normalised names and no stray separator,
  is recovered from its printed form; so two such identifiers with the same text are equal.\<close>

lemma id_round_trip:
  assumes "id_plain i" and "id_plain j"
  shows "id_from_str vparse (id_to_string vshow i) = Ok i
    \<and> (id_to_string vshow i = id_to_string vshow j \<longrightarrow> i = j)"
  using assms by (blast intro: id_codec.dec_enc id_codec.enc_inj)

lemma id_round_trip_witness:
  "id_from_str (\<lambda>_. None :: nat option)
     (id_to_string (\<lambda>_ :: nat. ''1.0.0'') (Id (Name ''proj_build'') (Some (Name ''kit'')) None (Some ''x86_64'') ''ab12''))
   = Ok (Id (Name ''proj_build'') (Some (Name ''kit'')) None (Some ''x86_64'') ''ab12'')"
proof -
  let ?i = "Id (Name ''proj_build'') (Some (Name ''kit'')) (None :: nat option) (Some ''x86_64'') ''ab12''"
  have "id_plain ?i" by (simp add: id_plain_def name_ok_def UNSUPPORTED_CHARS_def)
  from id_round_trip [OF this this] show ?thesis by (rule conjunct1)
qed

text \<open>an identifier that carries a released version never survives a print and a parse:
  the parser looks for the architecture in the name segment and panics. A catalog that
  holds such an identifier cannot be loaded again.\<close>

lemma id_versioned_panics:
  assumes "id_plain (id_clear_version i)" and "id_version i = Some v" and "release_text (vshow v)"
  shows "id_from_str vparse (id_to_string vshow i) = Inl Panic"
  using assms by (rule id_from_str_versioned)

lemma id_versioned_panics_witness:
  "id_from_str (\<lambda>_. Some (1::nat))
     (id_to_string (\<lambda>_ :: nat. ''1.2.3'') (Id (Name ''gcc'') None (Some 1) None ''ab12'')) = Inl Panic"
  by (rule id_versioned_panics)
    (simp_all add: id_plain_def id_clear_version_def name_ok_def UNSUPPORTED_CHARS_def release_text_def)

end
