(* ===== verification/Artifact.thy ===== *)
theory Artifact
  imports Artifact_Id
begin

text \<open>
  The artifact data model (\<open>crates/edo/src/storage/artifact.rs\<close>): compression suffixes,
  media types with their textual form, layer digests, and the manifest structures
  \<open>Config\<close>, \<open>Layer\<close> and \<open>Artifact\<close>. The regular expressions of \<open>Compression::detect\<close> are
  literals of the form \<open>[.+](a|b|..)$\<close>: the text ends in one of the alternatives preceded
  by a dot or a plus sign. Values of foreign crates that storage only carries (platforms,
  version requirements, metadata) are kept in serialised form, as text.
\<close>

section \<open>Compression\<close>

datatype compression = Zstd | Gzip | Bzip2 | Lz | Xz | NoCompression

text \<open>One regular expression: the text in front of the match, if it matches.\<close>

fun match_suffix :: "string list \<Rightarrow> string \<Rightarrow> string option" where
  "match_suffix [] s = None"
| "match_suffix (alt # alts) s =
     (case strip_suffix (''.'' @ alt) s of Some b \<Rightarrow> Some b
      | None \<Rightarrow> (case strip_suffix (''+'' @ alt) s of Some b \<Rightarrow> Some b
                | None \<Rightarrow> match_suffix alts s))"

definition comp_detect :: "string \<Rightarrow> string \<times> compression" where
  "comp_detect s =
     (case match_suffix [''zst''] s of Some b \<Rightarrow> (b, Zstd) | None \<Rightarrow>
     (case match_suffix [''gz'', ''gzip2'', ''gzip''] s of Some b \<Rightarrow> (b, Gzip) | None \<Rightarrow>
     (case match_suffix [''bz2'', ''bzip2'', ''bzip''] s of Some b \<Rightarrow> (b, Bzip2) | None \<Rightarrow>
     (case match_suffix [''lz4'', ''lzma''] s of Some b \<Rightarrow> (b, Lz) | None \<Rightarrow>
     (case match_suffix [''xz''] s of Some b \<Rightarrow> (b, Xz) | None \<Rightarrow> (s, NoCompression))))))"

fun comp_to_string :: "compression \<Rightarrow> string" where
  "comp_to_string Zstd = ''.zst''"
| "comp_to_string Gzip = ''.gz''"
| "comp_to_string Bzip2 = ''.bz2''"
| "comp_to_string Lz = ''.lz4''"
| "comp_to_string Xz = ''.xz''"
| "comp_to_string NoCompression = []"

section \<open>Media types\<close>

datatype media_type = Manifest | File compression | Tar compression | Oci compression
  | Image compression | Zip compression | Custom string compression

definition ARTIFACT_SCHEMA_VERSION :: string where
  "ARTIFACT_SCHEMA_VERSION = ''v1''"

fun media_compression :: "media_type \<Rightarrow> compression option" where
  "media_compression Manifest = None"
| "media_compression (File c) = Some c"
| "media_compression (Tar c) = Some c"
| "media_compression (Oci c) = Some c"
| "media_compression (Image c) = Some c"
| "media_compression (Zip c) = Some c"
| "media_compression (Custom _ c) = Some c"

definition is_compressed :: "media_type \<Rightarrow> bool" where
  "is_compressed m = (case media_compression m of None \<Rightarrow> False | Some c \<Rightarrow> c \<noteq> NoCompression)"

fun set_compression :: "media_type \<Rightarrow> compression \<Rightarrow> media_type" where
  "set_compression (File _) c = File c"
| "set_compression (Tar _) c = Tar c"
| "set_compression (Oci _) c = Oci c"
| "set_compression (Image _) c = Image c"
| "set_compression (Zip _) c = Zip c"
| "set_compression (Custom n _) c = Custom n c"
| "set_compression Manifest c = Manifest"

definition media_head :: string where
  "media_head = ''vnd.edo.artifact.'' @ ARTIFACT_SCHEMA_VERSION @ ''.''"

fun media_to_string :: "media_type \<Rightarrow> string" where
  "media_to_string Manifest = media_head @ ''manifest''"
| "media_to_string (File c) = media_head @ ''file'' @ comp_to_string c"
| "media_to_string (Tar c) = media_head @ ''tar'' @ comp_to_string c"
| "media_to_string (Zip c) = media_head @ ''zip'' @ comp_to_string c"
| "media_to_string (Oci c) = media_head @ ''oci'' @ comp_to_string c"
| "media_to_string (Image c) = media_head @ ''image'' @ comp_to_string c"
| "media_to_string (Custom n c) = media_head @ n @ comp_to_string c"

datatype media_error = InvalidMediaType string | SchemaError string

definition media_of_word :: "string \<Rightarrow> compression \<Rightarrow> media_type" where
  "media_of_word w c =
     (if w = ''manifest'' then Manifest
      else if w = ''file'' then File c
      else if w = ''tar'' then Tar c
      else if w = ''zip'' then Zip c
      else if w = ''oci'' then Oci c
      else if w = ''image'' then Image c
      else Custom w c)"

definition media_from_str :: "string \<Rightarrow> (media_error, media_type) res" where
  "media_from_str s =
     (let (str, c) = comp_detect s
      in case strip_prefix ''vnd.edo.artifact'' str of
           None \<Rightarrow> Fail (InvalidMediaType s)
         | Some str1 \<Rightarrow>
             (case strip_prefix (''.'' @ ARTIFACT_SCHEMA_VERSION @ ''.'') str1 of
                None \<Rightarrow> Fail (SchemaError s)
              | Some w \<Rightarrow> Ok (media_of_word w c)))"

section \<open>Layer digests and manifests\<close>

datatype layer_digest = LayerDigest (digest_text: string)

text \<open>\<open>From<&str>\<close>: an optional \<open>blake3:\<close> prefix is dropped.\<close>

definition digest_from :: "string \<Rightarrow> layer_digest" where
  "digest_from s = LayerDigest (case strip_prefix ''blake3:'' s of Some t \<Rightarrow> t | None \<Rightarrow> s)"

definition digest_serialize :: "layer_digest \<Rightarrow> string" where
  "digest_serialize d = ''blake3:'' @ digest_text d"

datatype digest_error = NotALayerDigest

definition digest_deserialize :: "string \<Rightarrow> (digest_error, layer_digest) res" where
  "digest_deserialize s =
     (case strip_prefix ''blake3:'' s of Some t \<Rightarrow> Ok (LayerDigest t) | None \<Rightarrow> Fail NotALayerDigest)"

record 'v config =
  cfg_id :: "'v artifact_id"
  provides :: "string set"
  requires :: "(string \<times> (string \<times> string) list) list"
  metadata :: string

record layer =
  layer_media :: media_type
  layer_dig :: layer_digest
  layer_size :: nat
  layer_platform :: "string option"

record 'v artifact =
  art_media :: media_type
  art_config :: "'v config"
  art_layers :: "layer list"

abbreviation art_id :: "'v artifact \<Rightarrow> 'v artifact_id" where
  "art_id a \<equiv> cfg_id (art_config a)"

abbreviation layer_digest_text :: "layer \<Rightarrow> string" where
  "layer_digest_text l \<equiv> digest_text (layer_dig l)"

text \<open>\<open>*artifact.config_mut().id_mut() = to\<close>.\<close>

definition art_set_id :: "'v artifact \<Rightarrow> 'v artifact_id \<Rightarrow> 'v artifact" where
  "art_set_id a i = a\<lparr>art_config := (art_config a)\<lparr>cfg_id := i\<rparr>\<rparr>"

definition art_digests :: "'v artifact \<Rightarrow> string list" where
  "art_digests a = map layer_digest_text (art_layers a)"

lemma art_set_id_simps [simp]:
  "art_id (art_set_id a i) = i"
  "art_layers (art_set_id a i) = art_layers a"
  "art_digests (art_set_id a i) = art_digests a"
  by (simp_all add: art_set_id_def art_digests_def)

text \<open>Small artifacts for examples: a name, an identifying digest, and one plain layer per blob.\<close>

definition example_layer :: "string \<Rightarrow> layer" where
  "example_layer d = \<lparr>layer_media = Tar NoCompression, layer_dig = LayerDigest d, layer_size = 0,
     layer_platform = None\<rparr>"

definition example_artifact :: "string \<Rightarrow> string \<Rightarrow> string list \<Rightarrow> nat artifact" where
  "example_artifact n h ds = \<lparr>art_media = Manifest,
     art_config = \<lparr>cfg_id = Id (Name n) None None None h, provides = {}, requires = [], metadata = []\<rparr>,
     art_layers = map example_layer ds\<rparr>"

lemma example_artifact_simps [simp]:
  "art_id (example_artifact n h ds) = Id (Name n) None None None h"
  "art_digests (example_artifact n h ds) = ds"
  by (simp_all add: example_artifact_def art_digests_def example_layer_def comp_def)

section \<open>Laws\<close>

lemma comp_detect_suffix: "c \<noteq> NoCompression \<Longrightarrow> comp_detect (b @ comp_to_string c) = (b, c)"
  by (cases c) (simp_all add: comp_detect_def strip_suffix_def)

lemma comp_detect_none_word:
  "w \<in> {''file'', ''tar'', ''zip'', ''oci'', ''image'', ''manifest''} \<Longrightarrow> comp_detect (media_head @ w) = (media_head @ w, NoCompression)"
  by (auto simp: comp_detect_def strip_suffix_def media_head_def ARTIFACT_SCHEMA_VERSION_def)

text \<open>Media types whose text reads back: a custom type is not a reserved word, and without
  compression its name carries no compression suffix.\<close>

fun media_plain :: "media_type \<Rightarrow> bool" where
  "media_plain (Custom n c) \<longleftrightarrow>
     n \<notin> {''manifest'', ''file'', ''tar'', ''zip'', ''oci'', ''image''}
     \<and> (c = NoCompression \<longrightarrow> snd (comp_detect (media_head @ n)) = NoCompression)"
| "media_plain _ \<longleftrightarrow> True"

lemma comp_detect_plain: "snd (comp_detect s) = NoCompression \<Longrightarrow> comp_detect s = (s, NoCompression)"
  unfolding comp_detect_def by (simp split: option.splits del: match_suffix.simps)

lemma media_from_head:
  "comp_detect s = (media_head @ w, c) \<Longrightarrow> media_from_str s = Ok (media_of_word w c)"
  by (simp add: media_from_str_def media_head_def ARTIFACT_SCHEMA_VERSION_def)

lemma comp_detect_media:
  assumes "w \<in> {''file'', ''tar'', ''zip'', ''oci'', ''image''}"
  shows "comp_detect (media_head @ w @ comp_to_string c) = (media_head @ w, c)"
  using comp_detect_suffix [of c "media_head @ w"] comp_detect_none_word [of w] assms
  by (cases "c = NoCompression") auto

lemma media_from_to_string: "media_plain m \<Longrightarrow> media_from_str (media_to_string m) = Ok m"
proof (cases m)
  case Manifest
  then show ?thesis using comp_detect_none_word [of "''manifest''"]
    by (simp add: media_from_head media_of_word_def)
next
  case (Custom n c)
  assume "media_plain m"
  with Custom have "comp_detect (media_head @ n @ comp_to_string c) = (media_head @ n, c)"
    using comp_detect_suffix [of c "media_head @ n"] comp_detect_plain [of "media_head @ n"]
    by (cases "c = NoCompression") auto
  with \<open>media_plain m\<close> Custom show ?thesis by (simp add: media_from_head media_of_word_def)
qed (simp_all only: media_to_string.simps media_from_head [OF comp_detect_media] media_of_word_def
      insert_iff simp_thms list.inject char.inject if_False if_True list.distinct)

interpretation media_codec: codec media_to_string media_from_str media_plain
  by unfold_locales (rule media_from_to_string)

interpretation digest_codec: codec digest_serialize digest_deserialize "\<lambda>_. True"
  by unfold_locales (simp add: digest_serialize_def digest_deserialize_def)

section \<open>Properties\<close>

text \<open>the textual form of a media type (a known kind with any compression, or a custom
  name that is neither reserved nor ends in a compression suffix) reads back as itself.\<close>

lemma media_round_trip:
  assumes "media_plain m"
  shows "media_from_str (media_to_string m) = Ok m"
  using assms by (rule media_codec.dec_enc)

lemma media_round_trip_witness:
  "media_plain (Custom ''rpm'' Zstd)
   \<and> media_from_str (media_to_string (Custom ''rpm'' Zstd)) = Ok (Custom ''rpm'' Zstd)"
proof -
  have h: "media_plain (Custom ''rpm'' Zstd)" by simp
  with media_round_trip [OF h] show ?thesis by blast
qed

end
