(* ===== verification/Catalog.thy ===== *)
theory Catalog
  imports Artifact
begin

text \<open>
  The artifact catalog (\<open>crates/edo/src/storage/catalog.rs\<close>): manifests by identifier, an
  index from prefixes (and \<open>*\<close>) to identifiers, and reference counts per blob digest. The
  counts are \<open>i64\<close> in the source and never exceed the number of layers in memory, so they
  are integers here.
\<close>

section \<open>State and operations\<close>

record 'v catalog =
  index :: "string \<rightharpoonup> 'v artifact_id set"
  manifests :: "'v artifact_id \<rightharpoonup> 'v artifact"
  blob_counts :: "string \<rightharpoonup> int"

definition catalog_default :: "'v catalog" where
  "catalog_default = \<lparr>index = Map.empty, manifests = Map.empty, blob_counts = Map.empty\<rparr>"

text \<open>\<open>map.get(k).cloned().unwrap_or_default()\<close> on sets and on counts.\<close>

definition ids_at :: "(string \<rightharpoonup> 'a set) \<Rightarrow> string \<Rightarrow> 'a set" where
  "ids_at m k = (case m k of None \<Rightarrow> {} | Some s \<Rightarrow> s)"

definition count_at :: "(string \<rightharpoonup> int) \<Rightarrow> string \<Rightarrow> int" where
  "count_at m d = (case m d of None \<Rightarrow> 0 | Some n \<Rightarrow> n)"

definition list_all :: "'v catalog \<Rightarrow> 'v artifact_id set" where
  "list_all c = ids_at (index c) ''*''"

definition catalog_has :: "'v catalog \<Rightarrow> 'v artifact_id \<Rightarrow> bool" where
  "catalog_has c i \<longleftrightarrow> manifests c i \<noteq> None"

definition catalog_get :: "'v catalog \<Rightarrow> 'v artifact_id \<Rightarrow> 'v artifact option" where
  "catalog_get c i = manifests c i"

definition catalog_matching :: "('v \<Rightarrow> string) \<Rightarrow> 'v catalog \<Rightarrow> 'v artifact_id \<Rightarrow> 'v artifact_id set" where
  "catalog_matching vshow c i = ids_at (index c) (id_prefix vshow i)"

text \<open>\<open>entry(k).or_default().insert(i)\<close>, and one turn of the counting loops.\<close>

definition entry_insert :: "string \<Rightarrow> 'a \<Rightarrow> (string \<rightharpoonup> 'a set) \<Rightarrow> (string \<rightharpoonup> 'a set)" where
  "entry_insert k x m = m(k \<mapsto> insert x (ids_at m k))"

definition inc_blob :: "string \<Rightarrow> (string \<rightharpoonup> int) \<Rightarrow> (string \<rightharpoonup> int)" where
  "inc_blob d m = m(d \<mapsto> count_at m d + 1)"

definition dec_blob :: "string \<Rightarrow> (string \<rightharpoonup> int) \<Rightarrow> (string \<rightharpoonup> int)" where
  "dec_blob d m =
     (case m d of
        None \<Rightarrow> m
      | Some n \<Rightarrow> if n - 1 \<le> 0 then m(d := None) else m(d \<mapsto> n - 1))"

definition catalog_add :: "('v \<Rightarrow> string) \<Rightarrow> 'v artifact \<Rightarrow> 'v catalog \<Rightarrow> 'v catalog" where
  "catalog_add vshow a c =
     (let i = art_id a
      in \<lparr>index = entry_insert (id_prefix vshow i) i (entry_insert ''*'' i (index c)),
          manifests = (manifests c)(i \<mapsto> a),
          blob_counts = fold inc_blob (art_digests a) (blob_counts c)\<rparr>)"

definition catalog_count :: "'v catalog \<Rightarrow> layer \<Rightarrow> int" where
  "catalog_count c l = count_at (blob_counts c) (layer_digest_text l)"

definition catalog_del :: "('v \<Rightarrow> string) \<Rightarrow> 'v artifact_id \<Rightarrow> 'v catalog \<Rightarrow> 'v catalog" where
  "catalog_del vshow i c =
     (let m1 = (index c)(''*'' \<mapsto> ids_at (index c) ''*'' - {i});
          p = id_prefix vshow i;
          m2 = (case m1 p of
                  None \<Rightarrow> m1
                | Some s \<Rightarrow> if s - {i} = {} then m1(p := None) else m1(p \<mapsto> s - {i}))
      in \<lparr>index = m2,
          manifests = (manifests c)(i := None),
          blob_counts = (case manifests c i of
                           None \<Rightarrow> blob_counts c
                         | Some a \<Rightarrow> fold dec_blob (art_digests a) (blob_counts c))\<rparr>)"

section \<open>Invariant\<close>

text \<open>How many layers of the stored manifests refer to a blob.\<close>

definition refs :: "('v artifact_id \<rightharpoonup> 'v artifact) \<Rightarrow> string \<Rightarrow> int" where
  "refs m d = (\<Sum>i \<in> dom m. int (count_list (art_digests (the (m i))) d))"

definition index_wf :: "('v \<Rightarrow> string) \<Rightarrow> 'v catalog \<Rightarrow> bool" where
  "index_wf vshow c \<longleftrightarrow>
     (\<forall>i a. manifests c i = Some a \<longrightarrow> art_id a = i \<and> id_prefix vshow i \<noteq> ''*'')
     \<and> list_all c = dom (manifests c)
     \<and> (\<forall>p. p \<noteq> ''*'' \<longrightarrow> ids_at (index c) p = {i \<in> dom (manifests c). id_prefix vshow i = p})
     \<and> (\<forall>k. index c k = Some {} \<longrightarrow> k = ''*'')"

definition pos_counts :: "(string \<rightharpoonup> int) \<Rightarrow> bool" where
  "pos_counts m \<longleftrightarrow> (\<forall>n \<in> ran m. 0 < n)"

definition counts_wf :: "'v catalog \<Rightarrow> bool" where
  "counts_wf c \<longleftrightarrow> finite (dom (manifests c)) \<and> finite (dom (blob_counts c))
     \<and> pos_counts (blob_counts c)
     \<and> (\<forall>d. refs (manifests c) d \<le> count_at (blob_counts c) d)"

definition catalog_wf :: "('v \<Rightarrow> string) \<Rightarrow> 'v catalog \<Rightarrow> bool" where
  "catalog_wf vshow c \<longleftrightarrow> index_wf vshow c \<and> counts_wf c"

text \<open>No reference is lost: the counts are exactly the references.\<close>

definition counts_exact :: "'v catalog \<Rightarrow> bool" where
  "counts_exact c \<longleftrightarrow> (\<forall>d. count_at (blob_counts c) d = refs (manifests c) d)"

section \<open>Lemmas on counts\<close>

lemma count_at_inc: "count_at (inc_blob d m) e = count_at m e + (if e = d then 1 else 0)"
  by (simp add: inc_blob_def count_at_def)

lemma count_at_fold_inc: "count_at (fold inc_blob ds m) d = count_at m d + int (count_list ds d)"
  by (induction ds arbitrary: m) (auto simp: count_at_inc)

lemma pos_countsD: "pos_counts m \<Longrightarrow> m d = Some n \<Longrightarrow> 0 < n"
  by (auto simp: pos_counts_def ran_def)

lemma pos_countsI: "(\<And>d n. m d = Some n \<Longrightarrow> 0 < n) \<Longrightarrow> pos_counts m"
  by (auto simp: pos_counts_def ran_def)

lemma count_at_nonneg: "pos_counts m \<Longrightarrow> 0 \<le> count_at m d"
  by (auto simp: count_at_def dest: pos_countsD split: option.splits)

lemma count_at_dec:
  "pos_counts m \<Longrightarrow>
   count_at (dec_blob d m) e = (if e = d then max 0 (count_at m e - 1) else count_at m e)"
  by (auto simp: dec_blob_def count_at_def split: option.splits)

lemma dec_pos: "pos_counts m \<Longrightarrow> pos_counts (dec_blob d m)"
  by (auto simp: dec_blob_def split: option.splits if_splits intro!: pos_countsI dest: pos_countsD)

lemma inc_pos: "pos_counts m \<Longrightarrow> pos_counts (inc_blob d m)"
  using count_at_nonneg [of m d]
  by (auto simp: inc_blob_def split: if_splits intro!: pos_countsI dest: pos_countsD)

lemma fold_dec_pos: "pos_counts m \<Longrightarrow> pos_counts (fold dec_blob ds m)"
  by (induction ds arbitrary: m) (simp_all add: dec_pos)

lemma fold_inc_pos: "pos_counts m \<Longrightarrow> pos_counts (fold inc_blob ds m)"
  by (induction ds arbitrary: m) (simp_all add: inc_pos)

lemma count_at_fold_dec:
  "pos_counts m \<Longrightarrow>
   count_at (fold dec_blob ds m) d = max 0 (count_at m d - int (count_list ds d))"
proof (induction ds arbitrary: m)
  case Nil
  then show ?case using count_at_nonneg [of m d] by simp
next
  case (Cons e ds)
  have "count_at (fold dec_blob ds (dec_blob e m)) d
      = max 0 (count_at (dec_blob e m) d - int (count_list ds d))"
    using Cons.IH [OF dec_pos [OF Cons.prems]] .
  then show ?case using count_at_dec [OF Cons.prems, of e d] by auto
qed

lemma dom_fold_inc: "dom (fold inc_blob ds m) = set ds \<union> dom m"
  by (induction ds arbitrary: m) (auto simp: inc_blob_def)

lemma dom_fold_dec: "dom (fold dec_blob ds m) \<subseteq> dom m"
proof (induction ds arbitrary: m)
  case (Cons d ds)
  have "dom (dec_blob d m) \<subseteq> dom m" by (auto simp: dec_blob_def split: option.splits if_splits)
  with Cons.IH [of "dec_blob d m"] show ?case by auto
qed simp

text \<open>References of one manifest, added to or removed from a finite set of manifests.\<close>

lemma refs_upd:
  assumes "finite (dom m)"
  shows "refs (m(i \<mapsto> a)) d = refs (m(i := None)) d + int (count_list (art_digests a) d)"
proof -
  have "refs (m(i \<mapsto> a)) d = (\<Sum>j \<in> insert i (dom m - {i}). int (count_list (art_digests (the ((m(i \<mapsto> a)) j))) d))"
    by (simp add: refs_def)
  also have "\<dots> = int (count_list (art_digests a) d)
      + (\<Sum>j \<in> dom m - {i}. int (count_list (art_digests (the ((m(i \<mapsto> a)) j))) d))"
    using assms by (subst sum.insert) auto
  also have "(\<Sum>j \<in> dom m - {i}. int (count_list (art_digests (the ((m(i \<mapsto> a)) j))) d)) = refs (m(i := None)) d"
    unfolding refs_def by (rule sum.cong) auto
  finally show ?thesis by (simp only: add.commute)
qed

lemma refs_remove:
  assumes "finite (dom m)"
  shows "refs m d = refs (m(i := None)) d
    + (case m i of None \<Rightarrow> 0 | Some a \<Rightarrow> int (count_list (art_digests a) d))"
proof (cases "m i")
  case None
  then have "m(i := None) = m" by auto
  with None show ?thesis by simp
next
  case (Some a)
  then have "m = m(i \<mapsto> a)" by auto
  with refs_upd [OF assms, of i a d] Some show ?thesis by simp
qed

lemma refs_nonneg: "0 \<le> refs m d"
  unfolding refs_def by (rule sum_nonneg) simp

section \<open>The operations keep the invariant\<close>

lemma ids_at_entry_insert:
  "ids_at (entry_insert k x m) q = (if q = k then insert x (ids_at m q) else ids_at m q)"
  by (simp add: entry_insert_def ids_at_def)

lemma add_manifests [simp]:
  "manifests (catalog_add vshow a c) = (manifests c)(art_id a \<mapsto> a)"
  by (simp add: catalog_add_def Let_def)

lemma del_manifests [simp]:
  "manifests (catalog_del vshow i c) = (manifests c)(i := None)"
  by (simp add: catalog_del_def Let_def)

lemma index_wfD:
  assumes "index_wf vshow c"
  shows "manifests c i = Some a \<Longrightarrow> art_id a = i"
    and "manifests c i = Some a \<Longrightarrow> id_prefix vshow i \<noteq> ''*''"
    and "list_all c = dom (manifests c)"
    and "p \<noteq> ''*'' \<Longrightarrow> ids_at (index c) p = {i \<in> dom (manifests c). id_prefix vshow i = p}"
  using assms unfolding index_wf_def by simp_all

lemma add_index_wf:
  assumes wf: "index_wf vshow c" and p: "id_prefix vshow (art_id a) \<noteq> ''*''"
  shows "index_wf vshow (catalog_add vshow a c)"
proof -
  let ?c = "catalog_add vshow a c"
  have 1: "list_all ?c = dom (manifests ?c)"
    using index_wfD(3) [OF wf] p by (simp add: list_all_def catalog_add_def Let_def ids_at_entry_insert)
  have 2: "ids_at (index ?c) q = {i \<in> dom (manifests ?c). id_prefix vshow i = q}"
    if "q \<noteq> ''*''" for q
    using index_wfD(4) [OF wf that] that by (auto simp: catalog_add_def Let_def ids_at_entry_insert)
  have 3: "k = ''*''" if "index ?c k = Some {}" for k
    using that wf by (auto simp: catalog_add_def Let_def entry_insert_def index_wf_def split: if_splits)
  have 4: "art_id b = i \<and> id_prefix vshow i \<noteq> ''*''" if "manifests ?c i = Some b" for i b
    using that p index_wfD(1,2) [OF wf, of i b] by (simp split: if_splits)
  show ?thesis unfolding index_wf_def by (intro conjI allI impI 1 2 3 4)
qed

lemma ids_at_del:
  assumes "id_prefix vshow i \<noteq> ''*''"
  shows "ids_at (index (catalog_del vshow i c)) q =
    (if q = ''*'' \<or> q = id_prefix vshow i then ids_at (index c) q - {i} else ids_at (index c) q)"
  using assms by (auto simp: catalog_del_def Let_def ids_at_def split: option.splits)

lemma del_star:
  assumes "id_prefix vshow i = ''*''"
  shows "ids_at (index (catalog_del vshow i c)) q =
    (if q = ''*'' then ids_at (index c) q - {i} else ids_at (index c) q)"
  using assms by (auto simp: catalog_del_def Let_def ids_at_def split: option.splits)

lemma del_index_ids:
  assumes wf: "index_wf vshow c" and "q \<noteq> ''*''"
  shows "ids_at (index (catalog_del vshow i c)) q
    = {j \<in> dom (manifests c). id_prefix vshow j = q} - {i}"
  using index_wfD(4) [OF assms] assms(2) ids_at_del [of vshow i c q] del_star [of vshow i c q]
  by (cases "id_prefix vshow i = ''*''") auto

lemma del_index_wf:
  assumes wf: "index_wf vshow c"
  shows "index_wf vshow (catalog_del vshow i c)"
proof -
  let ?c = "catalog_del vshow i c"
  have 1: "list_all ?c = dom (manifests ?c)"
    using index_wfD(3) [OF wf] ids_at_del [of vshow i c "''*''"] del_star [of vshow i c "''*''"]
    by (cases "id_prefix vshow i = ''*''") (auto simp: list_all_def)
  have 2: "ids_at (index ?c) q = {j \<in> dom (manifests ?c). id_prefix vshow j = q}"
    if "q \<noteq> ''*''" for q
    using del_index_ids [OF wf that] by auto
  have 3: "k = ''*''" if "index ?c k = Some {}" for k
    using that wf by (auto simp: catalog_del_def Let_def index_wf_def split: if_splits option.splits)
  have 4: "art_id b = j \<and> id_prefix vshow j \<noteq> ''*''" if "manifests ?c j = Some b" for j b
    using that index_wfD(1,2) [OF wf, of j b] by (simp split: if_splits)
  show ?thesis unfolding index_wf_def by (intro conjI allI impI 1 2 3 4)
qed

lemma refs_upd_le:
  assumes "finite (dom m)"
  shows "refs (m(i \<mapsto> a)) d \<le> refs m d + int (count_list (art_digests a) d)"
  using refs_upd [OF assms, of i a d] refs_remove [OF assms, of d i]
  by (simp split: option.splits)

lemma count_at_add:
  "count_at (blob_counts (catalog_add vshow a c)) d
   = count_at (blob_counts c) d + int (count_list (art_digests a) d)"
  by (simp add: catalog_add_def Let_def count_at_fold_inc)

lemma count_at_del:
  "pos_counts (blob_counts c) \<Longrightarrow>
   count_at (blob_counts (catalog_del vshow i c)) d =
     (case manifests c i of
        None \<Rightarrow> count_at (blob_counts c) d
      | Some a \<Rightarrow> max 0 (count_at (blob_counts c) d - int (count_list (art_digests a) d)))"
  by (simp add: catalog_del_def Let_def count_at_fold_dec split: option.split)

lemma add_counts_wf:
  assumes "counts_wf c"
  shows "counts_wf (catalog_add vshow a c)"
proof -
  have fin: "finite (dom (manifests c))" using assms by (simp add: counts_wf_def)
  have "refs ((manifests c)(art_id a \<mapsto> a)) d
      \<le> count_at (blob_counts c) d + int (count_list (art_digests a) d)" for d
    by (rule order_trans [OF refs_upd_le [OF fin]]) (use assms in \<open>simp add: counts_wf_def\<close>)
  moreover have "finite (dom (blob_counts (catalog_add vshow a c)))"
    using assms by (simp add: catalog_add_def Let_def dom_fold_inc counts_wf_def)
  moreover have "pos_counts (blob_counts (catalog_add vshow a c))"
    using assms by (simp add: catalog_add_def Let_def fold_inc_pos counts_wf_def)
  ultimately show ?thesis
    using fin by (simp only: counts_wf_def count_at_add add_manifests) simp
qed

lemma refs_del_le:
  assumes "counts_wf c"
  shows "refs ((manifests c)(i := None)) d \<le> count_at (blob_counts (catalog_del vshow i c)) d"
proof -
  have "finite (dom (manifests c))" and "pos_counts (blob_counts c)"
    and "refs (manifests c) d \<le> count_at (blob_counts c) d"
    using assms by (simp_all add: counts_wf_def)
  then show ?thesis
    using refs_remove [of "manifests c" d i] refs_nonneg [of "(manifests c)(i := None)" d]
    by (auto simp: count_at_del split: option.splits)
qed

lemma del_counts_wf:
  assumes "counts_wf c"
  shows "counts_wf (catalog_del vshow i c)"
proof -
  have "dom (blob_counts (catalog_del vshow i c)) \<subseteq> dom (blob_counts c)"
    using dom_fold_dec by (fastforce simp: catalog_del_def Let_def split: option.splits)
  then have "finite (dom (blob_counts (catalog_del vshow i c)))"
    using assms finite_subset by (auto simp: counts_wf_def)
  moreover have "pos_counts (blob_counts (catalog_del vshow i c))"
    using assms by (auto simp: catalog_del_def Let_def counts_wf_def fold_dec_pos split: option.splits)
  ultimately show ?thesis
    using assms refs_del_le [OF assms, of i _ vshow]
    by (simp only: counts_wf_def del_manifests) simp
qed

lemma default_wf: "catalog_wf vshow catalog_default"
  by (simp add: catalog_wf_def index_wf_def counts_wf_def catalog_default_def
      list_all_def ids_at_def count_at_def refs_def pos_counts_def)

lemma default_exact: "counts_exact catalog_default"
  by (simp add: counts_exact_def catalog_default_def count_at_def refs_def)

lemma add_wf:
  "catalog_wf vshow c \<Longrightarrow> id_prefix vshow (art_id a) \<noteq> ''*'' \<Longrightarrow> catalog_wf vshow (catalog_add vshow a c)"
  by (simp only: catalog_wf_def add_index_wf add_counts_wf simp_thms)

lemma del_wf: "catalog_wf vshow c \<Longrightarrow> catalog_wf vshow (catalog_del vshow i c)"
  by (simp only: catalog_wf_def del_index_wf del_counts_wf simp_thms)

text \<open>The catalog offers the keyed store interface: manifests by identifier.\<close>

interpretation cat_store: keyed_store "catalog_wf vshow"
    "\<lambda>_ a. id_prefix vshow (art_id a) \<noteq> ''*''" art_id catalog_get
    "\<lambda>a c. (Ok (), catalog_add vshow a c)" "\<lambda>i c. (Ok (), catalog_del vshow i c)"
proof
  fix c :: "'a catalog" and a :: "'a artifact"
  assume "catalog_wf vshow c" and "id_prefix vshow (art_id a) \<noteq> ''*''"
  then show "\<exists>s'. (Ok (), catalog_add vshow a c) = (Ok (), s') \<and> catalog_wf vshow s'
      \<and> catalog_get s' = (catalog_get c)(art_id a \<mapsto> a)"
    by (auto simp: add_wf catalog_get_def fun_eq_iff)
next
  fix c :: "'a catalog" and i :: "'a artifact_id"
  assume "catalog_wf vshow c"
  then show "\<exists>s'. (Ok (), catalog_del vshow i c) = (Ok (), s') \<and> catalog_wf vshow s'
      \<and> catalog_get s' = (catalog_get c)(i := None)"
    by (auto simp: del_wf catalog_get_def fun_eq_iff)
qed

section \<open>Properties\<close>

text \<open>C15: a catalog that is well formed (every manifest under its own identifier, the \<open>*\<close>
  index and the prefix indexes listing exactly the manifests, positive counts that cover
  every reference) stays so under \<open>add\<close> and \<open>del\<close>; the default catalog is well formed.\<close>

theorem catalog_ops_wf:
  assumes "catalog_wf vshow c" and "id_prefix vshow (art_id a) \<noteq> ''*''"
  shows "catalog_wf vshow catalog_default
    \<and> catalog_wf vshow (catalog_add vshow a c)
    \<and> catalog_wf vshow (catalog_del vshow i c)"
  using assms default_wf add_wf del_wf by blast

theorem catalog_ops_wf_witness:
  "catalog_wf (\<lambda>_. []) (catalog_add (\<lambda>_. []) (example_artifact ''gcc'' ''h1'' [''d'', ''e'']) catalog_default)"
proof -
  have "id_prefix (\<lambda>_. []) (art_id (example_artifact ''gcc'' ''h1'' [''d'', ''e''])) \<noteq> ''*''"
    by (simp add: id_prefix_def)
  from catalog_ops_wf [OF default_wf this] show ?thesis by blast
qed

text \<open>what queries return in a well-formed catalog: \<open>list_all\<close> lists exactly the
  identifiers \<open>has\<close> accepts, \<open>matching\<close> those of them with the same prefix; an addition and
  a deletion change \<open>get\<close> at their identifier only.\<close>

lemma catalog_queries:
  assumes "catalog_wf vshow c" and "id_prefix vshow j \<noteq> ''*''"
  shows "list_all c = {i. catalog_has c i}
    \<and> catalog_matching vshow c j = {i. catalog_has c i \<and> id_prefix vshow i = id_prefix vshow j}
    \<and> catalog_get (catalog_add vshow a c) = (catalog_get c)(art_id a \<mapsto> a)
    \<and> catalog_get (catalog_del vshow j c) = (catalog_get c)(j := None)"
  using assms index_wfD(3,4) [of vshow c]
  by (auto simp: catalog_wf_def catalog_matching_def catalog_has_def catalog_get_def)

lemma catalog_queries_witness:
  "catalog_matching (\<lambda>_. []) (catalog_add (\<lambda>_. []) (example_artifact ''gcc'' ''h1'' [''d'']) catalog_default)
     (Id (Name ''gcc'') None None None ''h2'')
   = {Id (Name ''gcc'') None None None ''h1''}"
proof -
  let ?a = "example_artifact ''gcc'' ''h1'' [''d'']"
  let ?c = "catalog_add (\<lambda>_. []) ?a catalog_default"
  have "catalog_wf (\<lambda>_. []) ?c"
    by (rule add_wf) (simp_all add: default_wf id_prefix_def)
  from catalog_queries [OF this, of "Id (Name ''gcc'') None None None ''h2''" ?a]
  show ?thesis by (auto simp: id_prefix_def catalog_has_def catalog_default_def)
qed

text \<open>reference counts are exact as long as no identifier is added twice: adding an
  artifact under a new identifier, and deleting any identifier, keep the count of every
  blob equal to the number of layers of stored manifests that refer to it.\<close>

lemma catalog_counts_exact:
  assumes "catalog_wf vshow c" and "counts_exact c" and "\<not> catalog_has c (art_id a)"
  shows "counts_exact (catalog_add vshow a c) \<and> counts_exact (catalog_del vshow i c)"
proof -
  have fin: "finite (dom (manifests c))" and pos: "pos_counts (blob_counts c)"
    using assms(1) by (auto simp: catalog_wf_def counts_wf_def)
  have "(manifests c)(art_id a := None) = manifests c" using assms(3) by (auto simp: catalog_has_def)
  then have "counts_exact (catalog_add vshow a c)"
    using refs_upd [OF fin, of "art_id a" a] assms(2)
    by (simp only: counts_exact_def count_at_add add_manifests) simp
  moreover have "counts_exact (catalog_del vshow i c)"
    using assms(2) refs_remove [OF fin, of _ i] refs_nonneg [of "(manifests c)(i := None)"]
    by (simp add: counts_exact_def count_at_del [OF pos] split: option.splits)
  ultimately show ?thesis ..
qed

lemma catalog_counts_exact_witness:
  "counts_exact (catalog_add (\<lambda>_. []) (example_artifact ''gcc'' ''h1'' [''d'', ''d'']) catalog_default)"
proof -
  have "\<not> catalog_has catalog_default (art_id (example_artifact ''gcc'' ''h1'' [''d'', ''d'']))"
    by (simp add: catalog_has_def catalog_default_def)
  from catalog_counts_exact [OF default_wf default_exact this]
  show ?thesis by blast
qed

text \<open>adding an artifact under an identifier that is already present leaks references:
  the counts of the replaced manifest's blobs are never taken back, so even after the
  identifier is deleted each blob keeps that many references nobody holds.\<close>

lemma catalog_readd_leaks:
  assumes "catalog_wf vshow c" and "counts_exact c" and "catalog_get c (art_id a) = Some b"
  shows "count_at (blob_counts (catalog_del vshow (art_id a) (catalog_add vshow a c))) d
    = refs (manifests (catalog_del vshow (art_id a) (catalog_add vshow a c))) d
      + int (count_list (art_digests b) d)"
proof -
  have fin: "finite (dom (manifests c))" and pos: "pos_counts (blob_counts (catalog_add vshow a c))"
    using assms(1) add_counts_wf by (auto simp: catalog_wf_def counts_wf_def)
  have "refs (manifests c) d = refs ((manifests c)(art_id a := None)) d + int (count_list (art_digests b) d)"
    using refs_remove [OF fin, of d "art_id a"] assms(3) by (simp add: catalog_get_def)
  then show ?thesis
    using assms(2) refs_nonneg [of "(manifests c)(art_id a := None)" d]
    by (simp add: count_at_del [OF pos] count_at_add counts_exact_def)
qed

lemma catalog_readd_leaks_witness:
  "count_at (blob_counts (catalog_del (\<lambda>_. []) (Id (Name ''gcc'') None None None ''h1'')
     (catalog_add (\<lambda>_. []) (example_artifact ''gcc'' ''h1'' [''d''])
       (catalog_add (\<lambda>_. []) (example_artifact ''gcc'' ''h1'' [''d'']) catalog_default)))) ''d'' = 1"
proof -
  let ?a = "example_artifact ''gcc'' ''h1'' [''d'']"
  let ?c = "catalog_add (\<lambda>_. []) ?a catalog_default"
  have wf: "catalog_wf (\<lambda>_. []) ?c"
    by (rule add_wf) (simp_all add: default_wf id_prefix_def)
  have ex: "counts_exact ?c"
    by (simp add: counts_exact_def count_at_add refs_def)
      (simp add: catalog_default_def count_at_def)
  have "catalog_get ?c (art_id ?a) = Some ?a" by (simp add: catalog_get_def)
  from catalog_readd_leaks [OF wf ex this, of "''d''"]
  show ?thesis by (simp add: refs_def catalog_default_def)
qed

end
