(* ===== verification/Local_Backend.thy ===== *)
theory Local_Backend
  imports Catalog
begin

text \<open>
  The local filesystem backend (\<open>crates/edo/src/storage/local.rs\<close>) and the hashing writer
  (\<open>crates/edo/src/util/writer.rs\<close>).

  The state is what is on disk: the catalog file, if it exists, in its serialised form (a
  JSON document whose identifiers, media types and digests are text), and the blob
  directory, if it exists. \<open>serde_json\<close> only moves the document between its structure and
  bytes, so the document structure is the file's content. BLAKE3 is a parameter: \<open>hash\<close>
  gives the hex digest of the bytes fed to the hasher. Blob names are plain file names.
\<close>

section \<open>The catalog file\<close>

record layer_doc =
  ld_media :: string
  ld_digest :: string
  ld_size :: nat
  ld_platform :: "string option"

record artifact_doc =
  ad_media :: string
  ad_id :: string
  ad_provides :: "string set"
  ad_requires :: "(string \<times> (string \<times> string) list) list"
  ad_metadata :: string
  ad_layers :: "layer_doc list"

record catalog_doc =
  cd_index :: "(string \<times> string list) list"
  cd_manifests :: "(string \<times> artifact_doc) list"
  cd_counts :: "(string \<times> int) list"

datatype 'v local_error = Deserialize | CopyError | CreateError | LayerMissing string | NewError
  | NotFound "'v artifact_id" | PathNotSpecified | ReadError | ReadCatalog | RemoveError
  | Serialize | WriteCatalog

definition layer_ser :: "layer \<Rightarrow> layer_doc" where
  "layer_ser l = \<lparr>ld_media = media_to_string (layer_media l), ld_digest = digest_serialize (layer_dig l),
     ld_size = layer_size l, ld_platform = layer_platform l\<rparr>"

definition layer_de :: "layer_doc \<Rightarrow> ('v local_error, layer) res" where
  "layer_de d =
     bindR (map_err (\<lambda>_. Deserialize) (media_from_str (ld_media d))) (\<lambda>m.
     bindR (map_err (\<lambda>_. Deserialize) (digest_deserialize (ld_digest d))) (\<lambda>g.
     Ok \<lparr>layer_media = m, layer_dig = g, layer_size = ld_size d, layer_platform = ld_platform d\<rparr>))"

definition art_ser :: "('v \<Rightarrow> string) \<Rightarrow> 'v artifact \<Rightarrow> artifact_doc" where
  "art_ser vshow a = \<lparr>ad_media = media_to_string (art_media a), ad_id = id_to_string vshow (art_id a),
     ad_provides = provides (art_config a), ad_requires = requires (art_config a),
     ad_metadata = metadata (art_config a), ad_layers = map layer_ser (art_layers a)\<rparr>"

definition id_de :: "(string \<Rightarrow> 'v option) \<Rightarrow> string \<Rightarrow> ('v local_error, 'v artifact_id) res" where
  "id_de vparse s = map_err (\<lambda>_. Deserialize) (id_from_str vparse s)"

definition art_de :: "(string \<Rightarrow> 'v option) \<Rightarrow> artifact_doc \<Rightarrow> ('v local_error, 'v artifact) res" where
  "art_de vparse d =
     bindR (map_err (\<lambda>_. Deserialize) (media_from_str (ad_media d))) (\<lambda>m.
     bindR (id_de vparse (ad_id d)) (\<lambda>i.
     bindR (mapR layer_de (ad_layers d)) (\<lambda>ls.
     Ok \<lparr>art_media = m,
         art_config = \<lparr>cfg_id = i, provides = ad_provides d, requires = ad_requires d, metadata = ad_metadata d\<rparr>,
         art_layers = ls\<rparr>)))"

definition catalog_ser :: "('v::linorder \<Rightarrow> string) \<Rightarrow> 'v catalog \<Rightarrow> catalog_doc" where
  "catalog_ser vshow c = \<lparr>
     cd_index = map (\<lambda>(k, s). (k, map (id_to_string vshow) (sorted_list_of_set s))) (map_entries (index c)),
     cd_manifests = map (\<lambda>(i, a). (id_to_string vshow i, art_ser vshow a)) (map_entries (manifests c)),
     cd_counts = map_entries (blob_counts c)\<rparr>"

definition catalog_de :: "(string \<Rightarrow> 'v option) \<Rightarrow> catalog_doc \<Rightarrow> ('v local_error, 'v catalog) res" where
  "catalog_de vparse d =
     bindR (mapR (\<lambda>(k, ids). bindR (mapR (id_de vparse) ids) (\<lambda>is. Ok (k, set is))) (cd_index d)) (\<lambda>ix.
     bindR (mapR (\<lambda>(k, a). bindR (id_de vparse k) (\<lambda>i. bindR (art_de vparse a) (\<lambda>b. Ok (i, b))))
              (cd_manifests d)) (\<lambda>ms.
     Ok \<lparr>index = from_entries ix, manifests = from_entries ms, blob_counts = from_entries (cd_counts d)\<rparr>))"

section \<open>The backend\<close>

record local_backend =
  catalog_file :: "catalog_doc option"
  layer_dir :: "(string \<rightharpoonup> string) option"

text \<open>\<open>new_\<close>: missing directories are created, what is there is kept.\<close>

definition local_new :: "local_backend \<Rightarrow> local_backend" where
  "local_new s = s\<lparr>layer_dir := Some (case layer_dir s of None \<Rightarrow> Map.empty | Some b \<Rightarrow> b)\<rparr>"

definition load_at :: "(string \<Rightarrow> 'v option) \<Rightarrow> local_backend \<Rightarrow> ('v local_error, 'v catalog) res" where
  "load_at vparse s = (case catalog_file s of None \<Rightarrow> Ok catalog_default | Some d \<Rightarrow> catalog_de vparse d)"

definition flush_at :: "('v::linorder \<Rightarrow> string) \<Rightarrow> 'v catalog \<Rightarrow> local_backend \<Rightarrow> local_backend" where
  "flush_at vshow c s = s\<lparr>catalog_file := Some (catalog_ser vshow c)\<rparr>"

definition blob_exists :: "local_backend \<Rightarrow> string \<Rightarrow> bool" where
  "blob_exists s d = (case layer_dir s of None \<Rightarrow> False | Some b \<Rightarrow> b d \<noteq> None)"

definition remove_blob :: "string \<Rightarrow> local_backend \<Rightarrow> local_backend" where
  "remove_blob d s = s\<lparr>layer_dir := map_option (\<lambda>b. b(d := None)) (layer_dir s)\<rparr>"

definition local_list :: "(string \<Rightarrow> 'v option) \<Rightarrow> local_backend \<Rightarrow> ('v local_error, 'v artifact_id set) res" where
  "local_list vparse s = bindR (load_at vparse s) (\<lambda>c. Ok (list_all c))"

definition local_has :: "(string \<Rightarrow> 'v option) \<Rightarrow> 'v artifact_id \<Rightarrow> local_backend \<Rightarrow> ('v local_error, bool) res" where
  "local_has vparse i s = bindR (load_at vparse s) (\<lambda>c. Ok (catalog_has c i))"

definition local_open :: "(string \<Rightarrow> 'v option) \<Rightarrow> 'v artifact_id \<Rightarrow> local_backend \<Rightarrow> ('v local_error, 'v artifact) res" where
  "local_open vparse i s = bindR (load_at vparse s) (\<lambda>c. ok_or (NotFound i) (catalog_get c i))"

text \<open>\<open>save\<close>: first every layer is checked, without a lock; then, under the write lock, the
  catalog is loaded, extended and flushed.\<close>

fun save_check :: "layer list \<Rightarrow> local_backend \<Rightarrow> ('v local_error, unit) res" where
  "save_check [] s = Ok ()"
| "save_check (l # ls) s =
     (if blob_exists s (layer_digest_text l) then save_check ls s
      else Fail (LayerMissing (layer_digest_text l)))"

definition save_commit :: "('v::linorder \<Rightarrow> string) \<Rightarrow> (string \<Rightarrow> 'v option) \<Rightarrow> 'v artifact \<Rightarrow> local_backend
    \<Rightarrow> ('v local_error, unit) res \<times> local_backend" where
  "save_commit vshow vparse a s =
     (case load_at vparse s of
        Inl e \<Rightarrow> (Inl e, s)
      | Inr c \<Rightarrow> (Ok (), flush_at vshow (catalog_add vshow a c) s))"

definition local_save :: "('v::linorder \<Rightarrow> string) \<Rightarrow> (string \<Rightarrow> 'v option) \<Rightarrow> 'v artifact \<Rightarrow> local_backend
    \<Rightarrow> ('v local_error, unit) res \<times> local_backend" where
  "local_save vshow vparse a s =
     (case save_check (art_layers a) s of
        Inl e \<Rightarrow> (Inl e, s)
      | Inr _ \<Rightarrow> save_commit vshow vparse a s)"

text \<open>\<open>del\<close>: under the write lock the manifest is taken out of the catalog and returned;
  then, blob by blob and each time under the read lock, the catalog is read again and the
  blob removed when nothing refers to it.\<close>

definition del_commit :: "('v::linorder \<Rightarrow> string) \<Rightarrow> (string \<Rightarrow> 'v option) \<Rightarrow> 'v artifact_id \<Rightarrow> local_backend
    \<Rightarrow> ('v local_error, 'v artifact option) res \<times> local_backend" where
  "del_commit vshow vparse i s =
     (case load_at vparse s of
        Inl e \<Rightarrow> (Inl e, s)
      | Inr c \<Rightarrow>
          if \<not> catalog_has c i then (Ok None, s)
          else (case catalog_get c i of
                  None \<Rightarrow> (Fail (NotFound i), s)
                | Some a \<Rightarrow> (Ok (Some a), flush_at vshow (catalog_del vshow i c) s)))"

definition del_blob :: "(string \<Rightarrow> 'v option) \<Rightarrow> layer \<Rightarrow> local_backend
    \<Rightarrow> ('v local_error, unit) res \<times> local_backend" where
  "del_blob vparse l s =
     (case load_at vparse s of
        Inl e \<Rightarrow> (Inl e, s)
      | Inr c \<Rightarrow>
          if catalog_count c l \<le> 0 \<and> blob_exists s (layer_digest_text l)
          then (Ok (), remove_blob (layer_digest_text l) s)
          else (Ok (), s))"

definition local_del :: "('v::linorder \<Rightarrow> string) \<Rightarrow> (string \<Rightarrow> 'v option) \<Rightarrow> 'v artifact_id \<Rightarrow> local_backend
    \<Rightarrow> ('v local_error, unit) res \<times> local_backend" where
  "local_del vshow vparse i s =
     (case del_commit vshow vparse i s of
        (Inl e, s1) \<Rightarrow> (Inl e, s1)
      | (Inr None, s1) \<Rightarrow> (Ok (), s1)
      | (Inr (Some a), s1) \<Rightarrow> foreachS (del_blob vparse) (art_layers a) s1)"

definition local_copy :: "('v::linorder \<Rightarrow> string) \<Rightarrow> (string \<Rightarrow> 'v option) \<Rightarrow> 'v artifact_id \<Rightarrow> 'v artifact_id
    \<Rightarrow> local_backend \<Rightarrow> ('v local_error, unit) res \<times> local_backend" where
  "local_copy vshow vparse i j s =
     (case local_open vparse i s of
        Inl e \<Rightarrow> (Inl e, s)
      | Inr a \<Rightarrow> local_save vshow vparse (art_set_id a j) s)"

definition local_prune :: "('v::linorder \<Rightarrow> string) \<Rightarrow> (string \<Rightarrow> 'v option) \<Rightarrow> 'v artifact_id
    \<Rightarrow> local_backend \<Rightarrow> ('v local_error, unit) res \<times> local_backend" where
  "local_prune vshow vparse i s =
     (case load_at vparse s of
        Inl e \<Rightarrow> (Inl e, s)
      | Inr c \<Rightarrow>
          foreachS (local_del vshow vparse)
            (filter (\<lambda>j. j \<noteq> i) (sorted_list_of_set (catalog_matching vshow c i))) s)"

definition local_prune_all :: "local_backend \<Rightarrow> ('v local_error, unit) res \<times> local_backend" where
  "local_prune_all s =
     (case catalog_file s of
        None \<Rightarrow> (Fail RemoveError, s)
      | Some _ \<Rightarrow>
          (let s1 = s\<lparr>catalog_file := None\<rparr>
           in case layer_dir s1 of
                None \<Rightarrow> (Fail RemoveError, s1)
              | Some _ \<Rightarrow> (Ok (), s1\<lparr>layer_dir := None\<rparr>)))"

definition local_read :: "layer \<Rightarrow> local_backend \<Rightarrow> ('v local_error, string) res" where
  "local_read l s =
     (case layer_dir s of
        None \<Rightarrow> Fail ReadError
      | Some b \<Rightarrow> ok_or ReadError (b (layer_digest_text l)))"

section \<open>Writers\<close>

text \<open>
  The writer of a new layer: its temporary name, the bytes hashed so far, an optional
  overriding digest, the number of bytes, and the write its file has in flight. The file is
  a \<open>tokio::fs::File\<close>, of which the documentation says that a write returns before the bytes
  are written, that at most one write is in flight, that its error is reported by a later
  call, and that \<open>flush\<close> waits for it.
\<close>

record writer =
  w_target :: string
  w_hashed :: string
  w_digest :: "string option"
  w_size :: nat
  w_pending :: "string option"

definition writer_new :: "string \<Rightarrow> writer" where
  "writer_new t = \<lparr>w_target = t, w_hashed = [], w_digest = None, w_size = 0, w_pending = None\<rparr>"

definition set_digest :: "string \<Rightarrow> writer \<Rightarrow> writer" where
  "set_digest d w = w\<lparr>w_digest := Some d\<rparr>"

definition writer_finish :: "(string \<Rightarrow> string) \<Rightarrow> writer \<Rightarrow> string" where
  "writer_finish hash w = (case w_digest w of Some d \<Rightarrow> d | None \<Rightarrow> hash (w_hashed w))"

text \<open>\<open>start_layer\<close> with the fresh name the UUID generator gave, which creates or truncates
  the temporary file.\<close>

definition start_layer :: "string \<Rightarrow> local_backend \<Rightarrow> ('v local_error, writer) res \<times> local_backend" where
  "start_layer uuid s =
     (let t = uuid @ ''.tmp''
      in case layer_dir s of
           None \<Rightarrow> (Fail CreateError, s)
         | Some b \<Rightarrow> (Ok (writer_new t), s\<lparr>layer_dir := Some (b(t \<mapsto> []))\<rparr>))"

text \<open>A directory, and what a poll finds of the write in flight: it has reached the disk, it
  failed after some bytes, or it is still going on.\<close>

type_synonym files = "(string \<rightharpoonup> string) option"

datatype settled = Landed | Broke nat | StillBusy

datatype 'a io_poll = IoReady 'a | IoErr | IoPending

text \<open>Bytes written through a handle whose file has been unlinked reach no name of the
  directory.\<close>

definition append_temp :: "string \<Rightarrow> string \<Rightarrow> files \<Rightarrow> files" where
  "append_temp t x d = map_option (\<lambda>b. case b t of None \<Rightarrow> b | Some y \<Rightarrow> b(t \<mapsto> y @ x)) d"

definition poll_flush :: "settled \<Rightarrow> writer \<times> files \<Rightarrow> unit io_poll \<times> writer \<times> files" where
  "poll_flush ev ws =
     (case ws of (w, d) \<Rightarrow>
        (case w_pending w of
           None \<Rightarrow> (IoReady (), w, d)
         | Some x \<Rightarrow>
             (case ev of
                Landed \<Rightarrow> (IoReady (), w\<lparr>w_pending := None\<rparr>, append_temp (w_target w) x d)
              | Broke k \<Rightarrow> (IoErr, w\<lparr>w_pending := None\<rparr>, append_temp (w_target w) (take k x) d)
              | StillBusy \<Rightarrow> (IoPending, w, d))))"

text \<open>\<open>poll_write\<close>: the file first settles the write in flight, then takes the first \<open>n\<close> bytes of
  the buffer for the next one; exactly those are hashed and counted. When it is pending or
  fails, nothing is hashed.\<close>

definition poll_write :: "settled \<Rightarrow> nat \<Rightarrow> string \<Rightarrow> writer \<times> files \<Rightarrow> nat io_poll \<times> writer \<times> files" where
  "poll_write ev n buf ws =
     (case poll_flush ev ws of
        (IoReady _, w, d) \<Rightarrow>
          (let written = take n buf
           in (IoReady (length written),
               w\<lparr>w_pending := Some written, w_hashed := w_hashed w @ written, w_size := w_size w + length written\<rparr>, d))
      | (IoErr, w, d) \<Rightarrow> (IoErr, w, d)
      | (IoPending, w, d) \<Rightarrow> (IoPending, w, d))"

text \<open>\<open>finish_layer\<close> does not flush the writer: of a write in flight the first \<open>k\<close> bytes are in the
  file when it is copied, and the rest is lost with the temporary file.\<close>

definition finish_layer :: "(string \<Rightarrow> string) \<Rightarrow> media_type \<Rightarrow> string option \<Rightarrow> nat \<Rightarrow> writer \<Rightarrow> local_backend
    \<Rightarrow> ('v local_error, layer) res \<times> local_backend" where
  "finish_layer hash media platform k w s =
     (let digest = writer_finish hash w;
          layer = \<lparr>layer_media = media, layer_dig = digest_from digest, layer_size = w_size w,
                   layer_platform = platform\<rparr>;
          landed = (case w_pending w of None \<Rightarrow> [] | Some y \<Rightarrow> take k y)
      in if w_target w = digest then (Ok layer, s)
         else (case layer_dir s of
                 None \<Rightarrow> (Fail CopyError, s)
               | Some b \<Rightarrow>
                   (case b (w_target w) of
                      None \<Rightarrow> (Fail CopyError, s)
                    | Some x \<Rightarrow> (Ok layer, s\<lparr>layer_dir := Some (b(digest \<mapsto> x @ landed, w_target w := None))\<rparr>))))"

section \<open>Reading back what was flushed\<close>

definition art_plain :: "'v artifact \<Rightarrow> bool" where
  "art_plain a \<longleftrightarrow> media_plain (art_media a) \<and> id_plain (art_id a)
     \<and> (\<forall>l \<in> set (art_layers a). media_plain (layer_media l))"

definition catalog_plain :: "'v catalog \<Rightarrow> bool" where
  "catalog_plain c \<longleftrightarrow> (\<forall>a \<in> ran (manifests c). art_plain a)"

lemma layer_de_ser: "media_plain (layer_media l) \<Longrightarrow> layer_de (layer_ser l) = Ok l"
  by (simp add: layer_de_def layer_ser_def media_codec.dec_enc digest_codec.dec_enc)

lemma id_de_to_string: "id_plain i \<Longrightarrow> id_de vparse (id_to_string vshow i) = Ok i"
  by (simp add: id_de_def id_codec.dec_enc)

lemma art_de_ser: "art_plain a \<Longrightarrow> art_de vparse (art_ser vshow a) = Ok a"
  by (simp add: art_plain_def art_de_def art_ser_def media_codec.dec_enc id_de_to_string mapR_map
      layer_de_ser mapR_id)

lemma index_dom:
  assumes "catalog_wf vshow c" and "index c k = Some S"
  shows "S \<subseteq> dom (manifests c)" and "k = ''*'' \<or> k \<in> id_prefix vshow ` dom (manifests c)"
proof -
  have wf: "index_wf vshow c" using assms(1) by (simp add: catalog_wf_def)
  have S: "ids_at (index c) k = S" using assms(2) by (simp add: ids_at_def)
  show "S \<subseteq> dom (manifests c)"
    using S index_wfD(3,4) [OF wf] by (cases "k = ''*''") (auto simp: list_all_def)
  show "k = ''*'' \<or> k \<in> id_prefix vshow ` dom (manifests c)"
  proof (rule disjCI)
    assume k: "k \<notin> id_prefix vshow ` dom (manifests c)"
    show "k = ''*''"
    proof (rule ccontr)
      assume "k \<noteq> ''*''"
      with index_wfD(4) [OF wf] S k have "S = {}" by auto
      with wf assms(2) \<open>k \<noteq> ''*''\<close> show False by (simp add: index_wf_def)
    qed
  qed
qed

lemma index_finite:
  assumes "catalog_wf vshow c"
  shows "finite (dom (index c))" and "index c k = Some S \<Longrightarrow> finite S"
proof -
  have fin: "finite (dom (manifests c))" using assms by (simp add: catalog_wf_def counts_wf_def)
  have "dom (index c) \<subseteq> insert ''*'' (id_prefix vshow ` dom (manifests c))"
    using index_dom(2) [OF assms] by blast
  then show "finite (dom (index c))" using fin finite_subset by blast
  show "index c k = Some S \<Longrightarrow> finite S"
    using index_dom(1) [OF assms] fin finite_subset by blast
qed

lemma plain_ids:
  assumes "catalog_wf vshow c" and "catalog_plain c" and "i \<in> dom (manifests c)"
  shows "id_plain i"
  using assms index_wfD(1) [of vshow c i]
  by (auto simp: catalog_wf_def catalog_plain_def art_plain_def ran_def)

lemma catalog_de_ser:
  assumes wf: "catalog_wf vshow c" and plain: "catalog_plain c"
  shows "catalog_de vparse (catalog_ser vshow c) = Ok c"
proof -
  have fin: "finite (dom (manifests c))" "finite (dom (blob_counts c))"
    using wf by (auto simp: catalog_wf_def counts_wf_def)
  have ids: "mapR (id_de vparse) (map (id_to_string vshow) (sorted_list_of_set S))
      = Ok (sorted_list_of_set S)" if "index c k = Some S" for k S
  proof -
    have "id_plain i" if "i \<in> S" for i
      using index_dom(1) [OF wf \<open>index c k = Some S\<close>] plain_ids [OF wf plain] that by blast
    then show ?thesis
      using index_finite(2) [OF wf that] unfolding mapR_map
      by (intro mapR_id) (simp add: id_de_to_string)
  qed
  have 1: "mapR (\<lambda>(k, ids). bindR (mapR (id_de vparse) ids) (\<lambda>is. Ok (k, set is)))
      (cd_index (catalog_ser vshow c)) = Ok (map_entries (index c))"
    using ids index_finite [OF wf]
    by (auto simp: catalog_ser_def mapR_map map_entries_values split_def intro!: mapR_id)
  have 2: "mapR (\<lambda>(k, a). bindR (id_de vparse k) (\<lambda>i. bindR (art_de vparse a) (\<lambda>b. Ok (i, b))))
      (cd_manifests (catalog_ser vshow c)) = Ok (map_entries (manifests c))"
  proof -
    have "bindR (id_de vparse (id_to_string vshow i)) (\<lambda>i. bindR (art_de vparse (art_ser vshow a)) (\<lambda>b. Ok (i, b)))
        = Ok (i, a)" if "manifests c i = Some a" for i a
    proof -
      from that plain have "art_plain a" by (auto simp: catalog_plain_def ran_def)
      moreover from that have "id_plain i" by (intro plain_ids [OF wf plain]) auto
      ultimately show ?thesis by (simp add: id_de_to_string art_de_ser)
    qed
    then show ?thesis
      by (auto simp: catalog_ser_def mapR_map map_entries_values [OF fin(1)] intro!: mapR_id)
  qed
  show ?thesis
    using fin index_finite(1) [OF wf]
    unfolding catalog_de_def 1 2 by (simp add: from_entries_map_entries catalog_ser_def)
qed

interpretation catalog_codec: codec "catalog_ser vshow" "catalog_de vparse"
    "\<lambda>c. catalog_wf vshow c \<and> catalog_plain c"
  by unfold_locales (simp add: catalog_de_ser)

lemma load_flush:
  "catalog_wf vshow c \<Longrightarrow> catalog_plain c \<Longrightarrow> load_at vparse (flush_at vshow c s) = Ok c"
  by (simp add: load_at_def flush_at_def catalog_codec.dec_enc)

section \<open>Invariant\<close>

text \<open>The catalog can be loaded and is well formed, and every blob that a stored manifest
  refers to is there.\<close>

definition blobs_present :: "'v catalog \<Rightarrow> (string \<rightharpoonup> string) \<Rightarrow> bool" where
  "blobs_present c b \<longleftrightarrow> (\<forall>a \<in> ran (manifests c). set (art_digests a) \<subseteq> dom b)"

definition local_inv :: "('v \<Rightarrow> string) \<Rightarrow> (string \<Rightarrow> 'v option) \<Rightarrow> local_backend \<Rightarrow> bool" where
  "local_inv vshow vparse s \<longleftrightarrow>
     (case (load_at vparse s, layer_dir s) of
        (Inr c, Some b) \<Rightarrow> catalog_wf vshow c \<and> catalog_plain c \<and> blobs_present c b
      | _ \<Rightarrow> False)"

lemma local_invE:
  assumes "local_inv vshow vparse s"
  obtains c b where "load_at vparse s = Ok c" and "layer_dir s = Some b"
    and "catalog_wf vshow c" and "catalog_plain c" and "blobs_present c b"
  using assms by (auto simp: local_inv_def split: sum.splits option.splits)

lemma local_invI:
  "load_at vparse s = Ok c \<Longrightarrow> layer_dir s = Some b \<Longrightarrow> catalog_wf vshow c \<Longrightarrow> catalog_plain c
   \<Longrightarrow> blobs_present c b \<Longrightarrow> local_inv vshow vparse s"
  by (simp add: local_inv_def)

definition local_lookup :: "(string \<Rightarrow> 'v option) \<Rightarrow> local_backend \<Rightarrow> 'v artifact_id \<Rightarrow> 'v artifact option" where
  "local_lookup vparse s i = (case load_at vparse s of Inl _ \<Rightarrow> None | Inr c \<Rightarrow> catalog_get c i)"

definition save_valid :: "('v \<Rightarrow> string) \<Rightarrow> local_backend \<Rightarrow> 'v artifact \<Rightarrow> bool" where
  "save_valid vshow s a \<longleftrightarrow> id_prefix vshow (art_id a) \<noteq> ''*'' \<and> art_plain a
     \<and> (\<forall>d \<in> set (art_digests a). blob_exists s d)"

lemma local_new_inv:
  "catalog_file s = None \<Longrightarrow> local_inv vshow vparse (local_new s)"
  by (simp add: local_inv_def default_wf local_new_def load_at_def catalog_plain_def blobs_present_def)
    (simp add: catalog_default_def)

lemma save_check_Ok: "save_check ls s = Ok () \<longleftrightarrow> (\<forall>l \<in> set ls. blob_exists s (layer_digest_text l))"
  by (induction ls) auto

lemma save_check_missing:
  "save_check ls s = Inl e \<Longrightarrow> \<exists>l \<in> set ls. e = Err (LayerMissing (layer_digest_text l)) \<and> \<not> blob_exists s (layer_digest_text l)"
  by (induction ls) (auto split: if_splits)

text \<open>Neither \<open>save\<close> nor \<open>open\<close> reads a blob: only its presence counts.\<close>

lemma save_open_blind:
  assumes "\<forall>d. blob_exists (s\<lparr>layer_dir := b\<rparr>) d = blob_exists s d"
  shows "fst (local_save vshow vparse a (s\<lparr>layer_dir := b\<rparr>)) = fst (local_save vshow vparse a s)"
    and "local_open vparse i (s\<lparr>layer_dir := b\<rparr>) = local_open vparse i s"
proof -
  have "(save_check ls (s\<lparr>layer_dir := b\<rparr>) :: ('a local_error, unit) res) = save_check ls s" for ls
    using assms by (induction ls) auto
  then show "fst (local_save vshow vparse a (s\<lparr>layer_dir := b\<rparr>)) = fst (local_save vshow vparse a s)"
    by (auto simp: local_save_def save_commit_def load_at_def split: sum.split)
  show "local_open vparse i (s\<lparr>layer_dir := b\<rparr>) = local_open vparse i s"
    by (simp add: local_open_def load_at_def)
qed

lemma plain_add: "catalog_plain c \<Longrightarrow> art_plain a \<Longrightarrow> catalog_plain (catalog_add vshow a c)"
  by (auto simp: catalog_plain_def ran_def)

lemma plain_del: "catalog_plain c \<Longrightarrow> catalog_plain (catalog_del vshow i c)"
  by (auto simp: catalog_plain_def ran_def)

lemma blobs_add:
  "blobs_present c b \<Longrightarrow> set (art_digests a) \<subseteq> dom b \<Longrightarrow> blobs_present (catalog_add vshow a c) b"
  by (auto simp: blobs_present_def ran_def)

lemma local_save_ok:
  assumes "local_inv vshow vparse s" and "save_valid vshow s a"
  shows "\<exists>s'. local_save vshow vparse a s = (Ok (), s') \<and> local_inv vshow vparse s'
    \<and> local_lookup vparse s' = (local_lookup vparse s)(art_id a \<mapsto> a)"
proof -
  from assms(1) obtain c b where c: "load_at vparse s = Ok c" "layer_dir s = Some b"
    "catalog_wf vshow c" "catalog_plain c" "blobs_present c b" by (rule local_invE)
  let ?c = "catalog_add vshow a c"
  let ?s = "flush_at vshow ?c s"
  have "\<forall>l \<in> set (art_layers a). blob_exists s (layer_digest_text l)"
    using assms(2) by (simp add: save_valid_def art_digests_def)
  then have "local_save vshow vparse a s = (Ok (), ?s)"
    by (simp add: local_save_def save_commit_def c save_check_Ok [THEN iffD2])
  moreover have ld: "load_at vparse ?s = Ok ?c"
    using assms(2) c by (simp add: load_flush save_valid_def add_wf plain_add)
  moreover have "blobs_present ?c b"
    using assms(2) c by (auto intro!: blobs_add simp: save_valid_def blob_exists_def)
  moreover have "local_lookup vparse ?s = (local_lookup vparse s)(art_id a \<mapsto> a)"
    by (simp add: local_lookup_def ld c fun_eq_iff catalog_get_def)
  moreover have "local_inv vshow vparse ?s"
    using assms(2) c by (intro local_invI [OF ld _ _ _ \<open>blobs_present ?c b\<close>])
      (simp_all add: save_valid_def flush_at_def add_wf plain_add)
  ultimately show ?thesis by blast
qed

section \<open>Deletion and its clean-up\<close>

text \<open>The blobs of the deleted manifest that no count covers.\<close>

definition unreferenced :: "'v catalog \<Rightarrow> layer list \<Rightarrow> string set" where
  "unreferenced c ls = {d \<in> layer_digest_text ` set ls. count_at (blob_counts c) d \<le> 0}"

lemma load_remove [simp]: "load_at vparse (s\<lparr>layer_dir := x\<rparr>) = load_at vparse s"
  by (simp add: load_at_def)

lemma del_blobs:
  assumes "load_at vparse s = Ok c" and "layer_dir s = Some b"
  shows "foreachS (del_blob vparse) ls s = (Ok (), s\<lparr>layer_dir := Some (b |` (- unreferenced c ls))\<rparr>)"
  using assms
proof (induction ls arbitrary: s b)
  case Nil
  then show ?case by (simp add: unreferenced_def)
next
  case (Cons l ls)
  let ?d = "layer_digest_text l"
  show ?case
  proof (cases "count_at (blob_counts c) ?d \<le> 0")
    case True
    let ?s = "s\<lparr>layer_dir := Some (b(?d := None))\<rparr>"
    have 1: "del_blob vparse l s = (Ok (), ?s)"
      using Cons.prems True
      by (auto simp: del_blob_def catalog_count_def blob_exists_def remove_blob_def fun_upd_idem)
    have 2: "b(?d := None) |` (- unreferenced c ls) = b |` (- unreferenced c (l # ls))"
      using True by (auto simp: unreferenced_def restrict_map_def fun_eq_iff)
    from Cons.prems have "load_at vparse ?s = Ok c" and "layer_dir ?s = Some (b(?d := None))" by simp_all
    from Cons.IH [OF this] show ?thesis unfolding foreachS.simps 1 2 by simp
  next
    case False
    then have "del_blob vparse l s = (Ok (), s)"
      using Cons.prems by (simp add: del_blob_def catalog_count_def)
    moreover have "unreferenced c (l # ls) = unreferenced c ls"
      using False by (auto simp: unreferenced_def)
    ultimately show ?thesis using Cons by simp
  qed
qed

lemma refs_pos:
  assumes "finite (dom m)" and "m i = Some a" and "d \<in> set (art_digests a)"
  shows "1 \<le> refs m d"
proof -
  have "1 \<le> int (count_list (art_digests a) d)"
    using assms(3) count_list_0_iff [of "art_digests a" d] by linarith
  with refs_remove [OF assms(1), of d i] refs_nonneg [of "m(i := None)" d] assms(2)
  show ?thesis by simp
qed

lemma referenced_count:
  assumes "counts_wf c" and "a \<in> ran (manifests c)"
  shows "set (art_digests a) \<inter> unreferenced c ls = {}"
proof -
  have "1 \<le> count_at (blob_counts c) d" if "d \<in> set (art_digests a)" for d
    using refs_pos [of "manifests c" _ a d] that assms
    by (fastforce simp: counts_wf_def ran_def intro: order_trans)
  then show ?thesis by (fastforce simp: unreferenced_def)
qed

lemma local_del_some:
  assumes "load_at vparse s = Ok c" and "layer_dir s = Some b" and "catalog_wf vshow c"
    and "catalog_plain c" and "manifests c i = Some a"
  shows "local_del vshow vparse i s
    = (Ok (), flush_at vshow (catalog_del vshow i c) s
         \<lparr>layer_dir := Some (b |` (- unreferenced (catalog_del vshow i c) (art_layers a)))\<rparr>)"
proof -
  have "load_at vparse (flush_at vshow (catalog_del vshow i c) s) = Ok (catalog_del vshow i c)"
    using assms by (simp add: load_flush del_wf plain_del)
  then show ?thesis
    using assms by (simp add: local_del_def del_commit_def catalog_has_def catalog_get_def
        del_blobs [of _ _ _ b] flush_at_def)
qed

lemma blobs_del:
  assumes "catalog_wf vshow c" and "blobs_present c b"
  shows "blobs_present (catalog_del vshow i c) (b |` (- unreferenced (catalog_del vshow i c) ls))"
  unfolding blobs_present_def
proof
  fix a assume a: "a \<in> ran (manifests (catalog_del vshow i c))"
  then have "set (art_digests a) \<inter> unreferenced (catalog_del vshow i c) ls = {}"
    using assms(1) by (intro referenced_count) (auto simp: catalog_wf_def intro: del_counts_wf)
  moreover from a have "a \<in> ran (manifests c)" by (auto simp: ran_def split: if_splits)
  ultimately show "set (art_digests a) \<subseteq> dom (b |` (- unreferenced (catalog_del vshow i c) ls))"
    using assms(2) by (auto simp: blobs_present_def)
qed

lemma local_del_ok:
  assumes "local_inv vshow vparse s"
  shows "\<exists>s'. local_del vshow vparse i s = (Ok (), s') \<and> local_inv vshow vparse s'
    \<and> local_lookup vparse s' = (local_lookup vparse s)(i := None)"
proof -
  from assms obtain c b where c: "load_at vparse s = Ok c" "layer_dir s = Some b"
    "catalog_wf vshow c" "catalog_plain c" "blobs_present c b" by (rule local_invE)
  show ?thesis
  proof (cases "manifests c i")
    case None
    then have "local_del vshow vparse i s = (Ok (), s)"
      by (simp add: local_del_def del_commit_def c catalog_has_def)
    with None assms show ?thesis by (auto simp: local_lookup_def c catalog_get_def fun_eq_iff)
  next
    case (Some a)
    let ?c = "catalog_del vshow i c"
    have ld: "load_at vparse (flush_at vshow ?c s) = Ok ?c"
      using c by (simp add: load_flush del_wf plain_del)
    have lk: "local_lookup vparse (flush_at vshow ?c s\<lparr>layer_dir := x\<rparr>) = (local_lookup vparse s)(i := None)" for x
      by (simp add: local_lookup_def ld c fun_eq_iff catalog_get_def)
    have "local_inv vshow vparse (flush_at vshow ?c s\<lparr>layer_dir := Some (b |` (- unreferenced ?c (art_layers a)))\<rparr>)"
      using c ld by (intro local_invI [OF _ _ _ _ blobs_del [OF c(3,5)]]) (simp_all add: del_wf plain_del)
    then show ?thesis using local_del_some [OF c(1-4) Some] lk by blast
  qed
qed

text \<open>The backend offers the keyed store interface.\<close>

interpretation backend_store: keyed_store "local_inv vshow vparse" "save_valid vshow" art_id
    "local_lookup vparse" "local_save vshow vparse" "local_del vshow vparse"
  by unfold_locales (rule local_save_ok local_del_ok; assumption)+

section \<open>Queries, pruning and copies\<close>

lemma local_queries:
  assumes "local_inv vshow vparse s"
  shows "local_has vparse i s = Ok (local_lookup vparse s i \<noteq> None)"
    and "local_open vparse i s = ok_or (NotFound i) (local_lookup vparse s i)"
    and "local_list vparse s = Ok (dom (local_lookup vparse s))"
proof -
  from assms obtain c b where c: "load_at vparse s = Ok c" "catalog_wf vshow c" by (rule local_invE)
  then show "local_has vparse i s = Ok (local_lookup vparse s i \<noteq> None)"
    and "local_open vparse i s = ok_or (NotFound i) (local_lookup vparse s i)"
    by (simp_all add: local_has_def local_open_def local_lookup_def catalog_has_def catalog_get_def)
  show "local_list vparse s = Ok (dom (local_lookup vparse s))"
    using c index_wfD(3) [of vshow c]
    by (auto simp: local_list_def local_lookup_def catalog_wf_def catalog_get_def)
qed

lemma local_prune_ok:
  assumes inv: "local_inv vshow vparse s" and p: "id_prefix vshow i \<noteq> ''*''"
  shows "\<exists>s'. local_prune vshow vparse i s = (Ok (), s') \<and> local_inv vshow vparse s'
    \<and> local_lookup vparse s' =
        (\<lambda>j. if id_prefix vshow j = id_prefix vshow i \<and> j \<noteq> i then None else local_lookup vparse s j)"
proof -
  from inv obtain c b where c: "load_at vparse s = Ok c" "catalog_wf vshow c" by (rule local_invE)
  let ?M = "catalog_matching vshow c i"
  let ?js = "filter (\<lambda>j. j \<noteq> i) (sorted_list_of_set ?M)"
  have M: "?M = {j \<in> dom (manifests c). id_prefix vshow j = id_prefix vshow i}"
    using c(2) index_wfD(4) [of vshow c] p by (simp add: catalog_matching_def catalog_wf_def)
  then have "finite ?M" using c(2) by (simp add: catalog_wf_def counts_wf_def)
  then have js: "set ?js = ?M - {i}" by auto
  from backend_store.del_all [OF inv, of ?js] obtain s' where
    s': "foreachS (local_del vshow vparse) ?js s = (Ok (), s')" "local_inv vshow vparse s'"
      "local_lookup vparse s' = (local_lookup vparse s) |` (- set ?js)" by blast
  have "(local_lookup vparse s) |` (- set ?js)
      = (\<lambda>j. if id_prefix vshow j = id_prefix vshow i \<and> j \<noteq> i then None else local_lookup vparse s j)"
    unfolding js unfolding M by (auto simp: restrict_map_def fun_eq_iff local_lookup_def c catalog_get_def)
  with s' show ?thesis by (simp add: local_prune_def c)
qed

lemma local_copy_ok:
  assumes inv: "local_inv vshow vparse s" and a: "local_lookup vparse s i = Some a"
    and j: "id_plain j" "id_prefix vshow j \<noteq> ''*''"
  shows "\<exists>s'. local_copy vshow vparse i j s = (Ok (), s') \<and> local_inv vshow vparse s'
    \<and> local_lookup vparse s' = (local_lookup vparse s)(j \<mapsto> art_set_id a j)"
proof -
  from inv obtain c b where c: "load_at vparse s = Ok c" "layer_dir s = Some b"
    "catalog_plain c" "blobs_present c b" by (rule local_invE)
  from a c have "a \<in> ran (manifests c)" by (auto simp: local_lookup_def catalog_get_def ran_def)
  with c have "art_plain a" and "set (art_digests a) \<subseteq> dom b"
    by (auto simp: catalog_plain_def blobs_present_def)
  then have "save_valid vshow s (art_set_id a j)"
    using j c by (auto simp: save_valid_def art_plain_def blob_exists_def art_set_id_def art_digests_def)
  from backend_store.save_ok [OF inv this] show ?thesis
    by (simp add: local_copy_def local_queries(2) [OF inv] a)
qed

section \<open>Writing a layer\<close>

text \<open>A sequence of polls, up to the first error, and the bytes that were accepted.\<close>

fun write_polls :: "(settled \<times> nat \<times> string) list \<Rightarrow> writer \<times> files \<Rightarrow> (string \<times> writer \<times> files) option" where
  "write_polls [] ws = Some ([], ws)"
| "write_polls ((ev, n, buf) # cs) ws =
     (case poll_write ev n buf ws of
        (IoReady m, ws') \<Rightarrow> map_option (\<lambda>(x, ws''). (take m buf @ x, ws'')) (write_polls cs ws')
      | (IoPending, ws') \<Rightarrow> write_polls cs ws'
      | (IoErr, ws') \<Rightarrow> None)"

text \<open>What \<open>tokio::io::copy\<close> leaves when the disk takes everything: the bytes accepted, and
  flushed at the end.\<close>

definition copy_in :: "string \<Rightarrow> writer \<times> files \<Rightarrow> writer \<times> files" where
  "copy_in x ws = snd (poll_flush Landed (snd (poll_write Landed (length x) x ws)))"

text \<open>Text of a hex digest.\<close>

definition hex_text :: "string \<Rightarrow> bool" where
  "hex_text d \<longleftrightarrow> set d \<subseteq> set ''0123456789abcdef''"

definition in_flight :: "writer \<Rightarrow> string" where
  "in_flight w = (case w_pending w of None \<Rightarrow> [] | Some x \<Rightarrow> x)"

text \<open>The file and the write in flight together hold what was hashed.\<close>

definition write_ok :: "(string \<rightharpoonup> string) \<Rightarrow> string \<Rightarrow> string \<Rightarrow> writer \<times> files \<Rightarrow> bool" where
  "write_ok b t x ws \<longleftrightarrow> (case ws of (w, d) \<Rightarrow> w_target w = t \<and> w_digest w = None \<and> w_hashed w = x \<and> w_size w = length x
     \<and> (\<exists>y. d = Some (b(t \<mapsto> y)) \<and> y @ in_flight w = x))"

lemma append_temp_Some: "append_temp t x (Some (b(t \<mapsto> y))) = Some (b(t \<mapsto> y @ x))"
  by (simp add: append_temp_def)

lemma poll_flush_ok:
  assumes "write_ok b t x ws" and "poll_flush ev ws = (r, ws')" and "r \<noteq> IoErr"
  shows "write_ok b t x ws'" "r = IoReady () \<Longrightarrow> w_pending (fst ws') = None"
  using assms
  by (auto simp: poll_flush_def write_ok_def in_flight_def append_temp_Some split: option.splits settled.splits prod.splits)

lemma poll_write_ok:
  assumes ws: "write_ok b t x ws" and p: "poll_write ev n buf ws = (r, ws')" and r: "r \<noteq> IoErr"
  shows "write_ok b t (x @ (case r of IoReady m \<Rightarrow> take m buf | _ \<Rightarrow> [])) ws'"
proof -
  obtain q w d where f: "poll_flush ev ws = (q, w, d)" by (metis surj_pair)
  with p r have q: "q \<noteq> IoErr" by (auto simp: poll_write_def)
  note F = poll_flush_ok [OF ws f q]
  show ?thesis
  proof (cases q)
    case (IoReady u)
    with F(2) have "w_pending w = None" by simp
    with F(1) p f IoReady show ?thesis
      by (auto simp: poll_write_def Let_def write_ok_def in_flight_def min_def)
  next
    case IoPending
    with F(1) p f show ?thesis by (auto simp: poll_write_def)
  qed (use q in simp)
qed

lemma write_polls_ok:
  "write_ok b t x ws \<Longrightarrow> write_polls cs ws = Some (y, ws') \<Longrightarrow> write_ok b t (x @ y) ws'"
proof (induction cs ws arbitrary: x y rule: write_polls.induct)
  case (2 ev n buf cs ws)
  obtain r w1 where p: "poll_write ev n buf ws = (r, w1)" by (cases "poll_write ev n buf ws")
  show ?case
  proof (cases r)
    case (IoReady m)
    with "2.prems"(2) p obtain z where z: "write_polls cs w1 = Some (z, ws')" "y = take m buf @ z" by auto
    have "write_ok b t (x @ take m buf) w1" using poll_write_ok [OF "2.prems"(1) p] IoReady by simp
    from "2.IH"(1) [OF p [symmetric] IoReady this z(1)] z(2) show ?thesis by simp
  next
    case IoPending
    have "write_ok b t x w1" using poll_write_ok [OF "2.prems"(1) p] IoPending by simp
    with "2.IH"(2) [OF p [symmetric] IoPending] "2.prems"(2) p IoPending show ?thesis by simp
  qed (use "2.prems" p in simp)
qed simp

lemma hex_tmp: "hex_text d \<Longrightarrow> u @ ''.tmp'' \<noteq> d"
  by (auto simp: hex_text_def)

lemma hex_digest: "hex_text d \<Longrightarrow> digest_from d = LayerDigest d"
proof -
  assume "hex_text d"
  then have "CHR '':'' \<notin> set d" by (auto simp: hex_text_def)
  then have "strip_prefix ''blake3:'' d = None" by (intro strip_prefix_absent [of "CHR '':''"]) auto
  then show ?thesis by (simp add: digest_from_def)
qed

lemma layer_started:
  assumes "layer_dir s = Some b" and "start_layer u s = (Inr w, s1)"
  shows "w = writer_new (u @ ''.tmp'')" "s1 = s\<lparr>layer_dir := Some (b(u @ ''.tmp'' \<mapsto> []))\<rparr>"
    "write_ok b (u @ ''.tmp'') [] (w, layer_dir s1)"
  using assms by (auto simp: start_layer_def Let_def write_ok_def writer_new_def in_flight_def)

lemma layer_finished:
  assumes hex: "hex_text (hash x)" and ws: "write_ok b (u @ ''.tmp'') x (w, d)" and idle: "w_pending w = None"
  shows "finish_layer hash media platform k w (s\<lparr>layer_dir := d\<rparr>) =
    (Ok \<lparr>layer_media = media, layer_dig = LayerDigest (hash x), layer_size = length x, layer_platform = platform\<rparr>,
     s\<lparr>layer_dir := Some (b(hash x \<mapsto> x, u @ ''.tmp'' := None))\<rparr>)"
proof -
  have d: "d = Some (b(u @ ''.tmp'' \<mapsto> x))" using ws idle by (auto simp: write_ok_def in_flight_def)
  have "b(u @ ''.tmp'' \<mapsto> x, hash x \<mapsto> x, u @ ''.tmp'' := None) = b(hash x \<mapsto> x, u @ ''.tmp'' := None)"
    by (auto simp: fun_eq_iff)
  then show ?thesis
    using ws idle hex_tmp [OF hex, of u] hex_digest [OF hex]
    by (simp add: finish_layer_def d write_ok_def writer_finish_def Let_def del: fun_upd_apply)
      (auto simp: fun_upd_def fun_eq_iff intro!: arg_cong [of _ _ "\<lambda>x. s\<lparr>layer_dir := Some x\<rparr>"])
qed

lemma layer_written:
  assumes b: "layer_dir s = Some b" and hex: "hex_text (hash x)"
    and w: "start_layer u s = (Inr w, s1)" and ws: "write_polls cs (w, layer_dir s1) = Some (x, ws2)"
    and fl: "poll_flush ev ws2 = (IoReady (), w3, d3)"
  shows "finish_layer hash media platform k w3 (s1\<lparr>layer_dir := d3\<rparr>) =
    (Ok \<lparr>layer_media = media, layer_dig = LayerDigest (hash x), layer_size = length x, layer_platform = platform\<rparr>,
     s\<lparr>layer_dir := Some (b(hash x \<mapsto> x, u @ ''.tmp'' := None))\<rparr>)"
proof -
  note S = layer_started [OF b w]
  have "write_ok b (u @ ''.tmp'') x ws2" using write_polls_ok [OF S(3) ws] by simp
  from poll_flush_ok [OF this fl] have "write_ok b (u @ ''.tmp'') x (w3, d3)" "w_pending w3 = None" by simp_all
  from layer_finished [where hash = hash and s = s1, OF hex this] show ?thesis by (simp add: S(2))
qed

lemma copy_in_written:
  assumes b: "layer_dir s = Some b" and hex: "hex_text (hash x)" and w: "start_layer u s = (Inr w, s1)"
    and cp: "copy_in x (w, layer_dir s1) = (w3, d3)"
  shows "finish_layer hash media platform k w3 (s1\<lparr>layer_dir := d3\<rparr>) =
    (Ok \<lparr>layer_media = media, layer_dig = LayerDigest (hash x), layer_size = length x, layer_platform = platform\<rparr>,
     s\<lparr>layer_dir := Some (b(hash x \<mapsto> x, u @ ''.tmp'' := None))\<rparr>)"
proof (rule layer_written [where hash = hash, OF b hex w])
  let ?p = "snd (poll_write Landed (length x) x (w, layer_dir s1))"
  have ready: "fst (poll_write Landed (length x) x (w, layer_dir s1)) = IoReady (length x)"
    by (simp add: poll_write_def poll_flush_def Let_def split: option.split)
  show "write_polls [(Landed, length x, x)] (w, layer_dir s1) = Some (x, ?p)"
    using ready by (cases "poll_write Landed (length x) x (w, layer_dir s1)") simp
  show "poll_flush Landed ?p = (IoReady (), w3, d3)"
    using cp by (auto simp: copy_in_def poll_flush_def split: prod.splits option.splits)
qed

text \<open>Without a flush the layer is addressed by the hash of all accepted bytes and holds only
  those that had landed.\<close>

lemma unflushed_layer_truncated:
  assumes b: "layer_dir s = Some b" and hex: "hex_text (hash x)" and w: "start_layer u s = (Inr w, s1)"
    and p: "poll_write ev (length x) x (w, layer_dir s1) = (IoReady (length x), w2, d2)"
  shows "\<exists>l s3. finish_layer hash media platform k w2 (s1\<lparr>layer_dir := d2\<rparr>) = (Ok l, s3)
    \<and> layer_digest_text l = hash x \<and> layer_size l = length x
    \<and> local_read l s3 = (Ok (take k x) :: ('v local_error, string) res)"
proof -
  note S = layer_started [OF b w]
  have "w2 = w\<lparr>w_pending := Some x, w_hashed := x, w_size := length x\<rparr>" "d2 = Some (b(u @ ''.tmp'' \<mapsto> []))"
    using p by (simp_all add: S(1,2) writer_new_def poll_write_def poll_flush_def)
  then show ?thesis
    using hex_tmp [OF hex, of u] hex_digest [OF hex]
    by (simp add: finish_layer_def S(1) writer_new_def writer_finish_def Let_def local_read_def)
qed

section \<open>Interleaving of \<open>save\<close> and \<open>del\<close>\<close>

text \<open>
  \<open>save\<close> checks its blobs before it takes the lock, and \<open>del\<close> removes blobs after it has
  released it. This is the run in which a whole deletion falls between the check and the
  commit of a save.
\<close>

definition save_around_del :: "('v::linorder \<Rightarrow> string) \<Rightarrow> (string \<Rightarrow> 'v option) \<Rightarrow> 'v artifact \<Rightarrow> 'v artifact_id
    \<Rightarrow> local_backend \<Rightarrow> ('v local_error, unit) res \<times> local_backend" where
  "save_around_del vshow vparse y i s =
     (case save_check (art_layers y) s of
        Inl e \<Rightarrow> (Inl e, s)
      | Inr _ \<Rightarrow> (case local_del vshow vparse i s of
                    (Inl e, s1) \<Rightarrow> (Inl e, s1)
                  | (Inr _, s1) \<Rightarrow> save_commit vshow vparse y s1))"

text \<open>The blobs that exactly one stored manifest holds, when counts are exact.\<close>

lemma unreferenced_exact:
  assumes "catalog_wf vshow c" and "counts_exact (catalog_del vshow i c)" and "manifests c i = Some a"
  shows "unreferenced (catalog_del vshow i c) (art_layers a)
    = {d \<in> set (art_digests a). \<forall>j b. j \<noteq> i \<longrightarrow> manifests c j = Some b \<longrightarrow> d \<notin> set (art_digests b)}"
    (is "?l = ?r")
proof -
  let ?m = "(manifests c)(i := None)"
  have fin: "finite (dom ?m)" using assms(1) by (simp add: catalog_wf_def counts_wf_def)
  have "refs ?m d \<le> 0 \<longleftrightarrow> (\<forall>j b. ?m j = Some b \<longrightarrow> d \<notin> set (art_digests b))" for d
  proof
    assume "refs ?m d \<le> 0"
    with refs_pos [OF fin, of _ _ d] show "\<forall>j b. ?m j = Some b \<longrightarrow> d \<notin> set (art_digests b)" by fastforce
  next
    assume "\<forall>j b. ?m j = Some b \<longrightarrow> d \<notin> set (art_digests b)"
    then have "refs ?m d = 0" unfolding refs_def
      by (intro sum.neutral ballI) (auto simp: count_list_0_iff dom_def simp del: fun_upd_apply)
    then show "refs ?m d \<le> 0" by simp
  qed
  moreover have "count_at (blob_counts (catalog_del vshow i c)) d = refs ?m d" for d
    using assms(2) by (simp add: counts_exact_def)
  ultimately have "?l = {d \<in> set (art_digests a). \<forall>j b. ?m j = Some b \<longrightarrow> d \<notin> set (art_digests b)}"
    by (simp add: unreferenced_def art_digests_def)
  also have "\<dots> = ?r" by (auto split: if_splits)
  finally show ?thesis .
qed

section \<open>An example backend\<close>

text \<open>One artifact \<open>gcc\<close> with one layer is stored, and its blob is there.\<close>

definition example_catalog :: "nat catalog" where
  "example_catalog = catalog_add (\<lambda>_. []) (example_artifact ''gcc'' ''h1'' [''d'']) catalog_default"

definition example_backend :: local_backend where
  "example_backend = flush_at (\<lambda>_. []) example_catalog
     \<lparr>catalog_file = None, layer_dir = Some [''d'' \<mapsto> ''x'']\<rparr>"

lemma example_plain: "name_ok (Name n) \<Longrightarrow> CHR ''+'' \<notin> set n \<Longrightarrow> CHR ''+'' \<notin> set h \<Longrightarrow> CHR ''-'' \<notin> set h
    \<Longrightarrow> art_plain (example_artifact n h ds)"
  unfolding art_plain_def example_artifact_simps
  by (auto simp: example_artifact_def example_layer_def id_plain_def)

lemma example_wf: "catalog_wf (\<lambda>_. []) example_catalog" "catalog_plain example_catalog"
  unfolding example_catalog_def
  by (rule add_wf [OF default_wf], simp add: id_prefix_def)
    (rule plain_add, simp add: catalog_plain_def catalog_default_def,
      rule example_plain, simp_all add: name_ok_def UNSUPPORTED_CHARS_def)

lemma example_manifests:
  "manifests example_catalog = [Id (Name ''gcc'') None None None ''h1'' \<mapsto> example_artifact ''gcc'' ''h1'' [''d'']]"
  unfolding example_catalog_def by (simp add: catalog_default_def)

lemma example_load: "load_at (\<lambda>_. None) example_backend = Ok example_catalog"
  unfolding example_backend_def by (intro load_flush example_wf)

lemma example_dir: "layer_dir example_backend = Some [''d'' \<mapsto> ''x'']"
  by (simp add: example_backend_def flush_at_def)

lemma example_inv: "local_inv (\<lambda>_ :: nat. []) (\<lambda>_. None) example_backend"
  by (rule local_invI [OF example_load example_dir example_wf])
    (simp add: blobs_present_def example_manifests)

lemma example_lookup:
  "local_lookup (\<lambda>_. None) example_backend (Id (Name ''gcc'') None None None ''h1'')
   = Some (example_artifact ''gcc'' ''h1'' [''d''])"
  by (simp add: local_lookup_def example_load catalog_get_def example_manifests)

lemma example_exact: "counts_exact example_catalog"
  unfolding counts_exact_def example_manifests unfolding example_catalog_def count_at_add
  by (simp add: refs_def catalog_default_def count_at_def)

lemma example_save_valid:
  "save_valid (\<lambda>_. []) example_backend (example_artifact ''app'' ''h2'' [''d''])"
  unfolding save_valid_def
  by (simp add: id_prefix_def blob_exists_def example_dir, intro conjI example_plain)
    (simp_all add: name_ok_def UNSUPPORTED_CHARS_def)

section \<open>Properties\<close>

text \<open>a catalog that is well formed and whose manifests have printable identifiers and
  media types survives the catalog file: loading what was flushed gives the catalog back.\<close>

lemma catalog_file_round_trip:
  assumes "catalog_wf vshow c" and "catalog_plain c"
  shows "load_at vparse (flush_at vshow c s) = Ok c"
  using assms by (rule load_flush)

lemma catalog_file_round_trip_witness:
  "load_at (\<lambda>_. None) (flush_at (\<lambda>_ :: nat. []) example_catalog \<lparr>catalog_file = None, layer_dir = None\<rparr>)
   = Ok example_catalog"
  by (rule catalog_file_round_trip [OF example_wf])

text \<open>C13: on a sound backend (loadable well-formed catalog, every referenced blob present)
  saving an artifact whose blobs exist, and deleting any identifier, succeed, keep the
  backend sound, and change what \<open>open\<close> returns at that identifier only; \<open>has\<close>, \<open>open\<close> and
  \<open>list\<close> agree with each other. Neither \<open>save\<close> nor \<open>open\<close> compares a blob with its digest: with
  any other contents under the same names they return the same.\<close>

theorem local_store_laws:
  assumes "local_inv vshow vparse s" and "save_valid vshow s a"
  shows "(\<exists>s'. local_save vshow vparse a s = (Ok (), s') \<and> local_inv vshow vparse s'
        \<and> (\<forall>j. local_open vparse j s' = (if j = art_id a then Ok a else local_open vparse j s)))
    \<and> (\<exists>s'. local_del vshow vparse i s = (Ok (), s') \<and> local_inv vshow vparse s'
        \<and> (\<forall>j. local_open vparse j s' = (if j = i then Fail (NotFound i) else local_open vparse j s)))
    \<and> (local_has vparse i s = Ok True \<longleftrightarrow> (\<exists>b. local_open vparse i s = Ok b))
    \<and> (\<exists>ids. local_list vparse s = Ok ids \<and> (i \<in> ids \<longleftrightarrow> local_has vparse i s = Ok True))
    \<and> (\<forall>b. (\<forall>d. blob_exists (s\<lparr>layer_dir := b\<rparr>) d = blob_exists s d) \<longrightarrow>
          fst (local_save vshow vparse a (s\<lparr>layer_dir := b\<rparr>)) = Ok ()
          \<and> local_open vparse i (s\<lparr>layer_dir := b\<rparr>) = local_open vparse i s)"
proof -
  obtain s1 where s1: "local_save vshow vparse a s = (Ok (), s1)" "local_inv vshow vparse s1"
    "local_lookup vparse s1 = (local_lookup vparse s)(art_id a \<mapsto> a)"
    using backend_store.save_ok [OF assms] by blast
  obtain s2 where s2: "local_del vshow vparse i s = (Ok (), s2)" "local_inv vshow vparse s2"
    "local_lookup vparse s2 = (local_lookup vparse s)(i := None)"
    using backend_store.del_ok [OF assms(1), of i] by blast
  note q = local_queries [OF assms(1)] local_queries(2) [OF s1(2)] local_queries(2) [OF s2(2)]
  have "\<forall>j. local_open vparse j s1 = (if j = art_id a then Ok a else local_open vparse j s)"
    and "\<forall>j. local_open vparse j s2 = (if j = i then Fail (NotFound i) else local_open vparse j s)"
    by (simp_all add: q s1(3) s2(3))
  moreover have "local_has vparse i s = Ok True \<longleftrightarrow> (\<exists>b. local_open vparse i s = Ok b)"
    and "i \<in> dom (local_lookup vparse s) \<longleftrightarrow> local_has vparse i s = Ok True"
    by (auto simp: q ok_or_eq_Ok)
  moreover have "fst (local_save vshow vparse a (s\<lparr>layer_dir := b\<rparr>)) = Ok ()
      \<and> local_open vparse i (s\<lparr>layer_dir := b\<rparr>) = local_open vparse i s"
    if "\<forall>d. blob_exists (s\<lparr>layer_dir := b\<rparr>) d = blob_exists s d" for b
    using save_open_blind(1) [OF that, of vshow vparse a] save_open_blind(2) [OF that, of vparse i] s1(1) by simp
  ultimately show ?thesis using s1 s2 q(3) by blast
qed

theorem local_store_laws_witness:
  "\<exists>s'. local_save (\<lambda>_. []) (\<lambda>_. None) (example_artifact ''app'' ''h2'' [''d'']) example_backend = (Ok (), s')
    \<and> local_inv (\<lambda>_. []) (\<lambda>_ :: string. None :: nat option) s'"
  using local_store_laws [OF example_inv example_save_valid, of "Id (Name ''gcc'') None None None ''h1''"]
  by blast

text \<open>a save with a missing blob is refused with the digest of a missing layer and
  changes nothing on disk.\<close>

lemma local_save_missing:
  assumes "l \<in> set (art_layers a)" and "\<not> blob_exists s (layer_digest_text l)"
  shows "\<exists>k \<in> set (art_layers a). \<not> blob_exists s (layer_digest_text k)
    \<and> local_save vshow vparse a s = (Fail (LayerMissing (layer_digest_text k)), s)"
proof (cases "save_check (art_layers a) s :: ('a local_error, unit) res")
  case (Inl e)
  from save_check_missing [OF Inl] show ?thesis by (auto simp: local_save_def Inl)
next
  case (Inr u)
  with save_check_Ok [of "art_layers a" s] assms show ?thesis by fastforce
qed

lemma local_save_missing_witness:
  "local_save (\<lambda>_. []) (\<lambda>_. None) (example_artifact ''app'' ''h2'' [''e'']) example_backend
   = (Fail (LayerMissing ''e''), example_backend)"
  using local_save_missing [of "example_layer ''e''" "example_artifact ''app'' ''h2'' [''e'']"
      example_backend "\<lambda>_. []" "\<lambda>_. None"]
  by (simp add: example_artifact_def example_layer_def blob_exists_def example_dir)

text \<open>deleting a stored artifact removes exactly the blobs nobody else refers to: when
  the counts are exact, a blob is still there afterwards iff it was there and either the
  deleted manifest did not use it or another stored manifest does.\<close>

lemma local_del_blobs:
  assumes "local_inv vshow vparse s" and "load_at vparse s = Ok c" and "counts_exact c"
    and "local_lookup vparse s i = Some a"
  shows "\<exists>s'. local_del vshow vparse i s = (Ok (), s')
    \<and> (\<forall>d. blob_exists s' d \<longleftrightarrow> blob_exists s d
          \<and> (d \<in> set (art_digests a) \<longrightarrow> (\<exists>j b. j \<noteq> i \<and> local_lookup vparse s j = Some b \<and> d \<in> set (art_digests b))))"
proof -
  from assms(1,2) obtain b where c: "layer_dir s = Some b" "catalog_wf vshow c" "catalog_plain c"
    by (auto elim: local_invE)
  have m: "manifests c i = Some a" using assms(2,4) by (simp add: local_lookup_def catalog_get_def)
  have pos: "pos_counts (blob_counts c)" and fin: "finite (dom (manifests c))"
    using c(2) by (simp_all add: catalog_wf_def counts_wf_def)
  have ex: "counts_exact (catalog_del vshow i c)"
    using assms(3) refs_remove [OF fin, of _ i] refs_nonneg [of "(manifests c)(i := None)"]
    by (simp add: counts_exact_def count_at_del [OF pos] split: option.splits)
  show ?thesis
    unfolding local_del_some [OF assms(2) c m] unreferenced_exact [OF c(2) ex m]
    by (auto simp: blob_exists_def c(1) restrict_map_def local_lookup_def assms(2) catalog_get_def)
qed

lemma local_del_blobs_witness:
  "\<exists>s'. local_del (\<lambda>_. []) (\<lambda>_. None) (Id (Name ''gcc'') None None (None :: string option) ''h1'' :: nat artifact_id)
      example_backend = (Ok (), s') \<and> \<not> blob_exists s' ''d''"
  using local_del_blobs [OF example_inv example_load example_exact example_lookup]
  by (auto simp: local_lookup_def example_load catalog_get_def example_manifests split: if_splits)

text \<open>\<open>prune\<close> removes every stored artifact with the prefix of the given identifier
  except that identifier itself, keeps all others, and keeps the backend sound.\<close>

lemma local_prune_laws:
  assumes "local_inv vshow vparse s" and "id_prefix vshow i \<noteq> ''*''"
  shows "\<exists>s'. local_prune vshow vparse i s = (Ok (), s') \<and> local_inv vshow vparse s'
    \<and> local_lookup vparse s' =
        (\<lambda>j. if id_prefix vshow j = id_prefix vshow i \<and> j \<noteq> i then None else local_lookup vparse s j)"
  using assms by (rule local_prune_ok)

lemma local_prune_laws_witness:
  "\<exists>s'. local_prune (\<lambda>_. []) (\<lambda>_. None) (Id (Name ''gcc'') None None None ''h9'' :: nat artifact_id) example_backend = (Ok (), s')
    \<and> local_lookup (\<lambda>_. None) s' (Id (Name ''gcc'') None None None ''h1'' :: nat artifact_id) = None"
  using local_prune_laws [OF example_inv, of "Id (Name ''gcc'') None None None ''h9''"]
  by (auto simp: id_prefix_def)

text \<open>\<open>copy\<close> of a stored artifact makes the target identifier denote the same layers
  and keeps the backend sound.\<close>

lemma local_copy_laws:
  assumes "local_inv vshow vparse s" and "local_lookup vparse s i = Some a"
    and "id_plain j" and "id_prefix vshow j \<noteq> ''*''"
  shows "\<exists>s'. local_copy vshow vparse i j s = (Ok (), s') \<and> local_inv vshow vparse s'
    \<and> local_lookup vparse s' = (local_lookup vparse s)(j \<mapsto> art_set_id a j)"
  using assms by (rule local_copy_ok)

lemma local_copy_laws_witness:
  "\<exists>s'. local_copy (\<lambda>_. []) (\<lambda>_. None) (Id (Name ''gcc'') None None None ''h1'' :: nat artifact_id)
      (Id (Name ''g'') None None None ''h3'') example_backend = (Ok (), s')
    \<and> local_inv (\<lambda>_. []) (\<lambda>_ :: string. None :: nat option) s'"
  using local_copy_laws [OF example_inv example_lookup, of "Id (Name ''g'') None None None ''h3''"]
  by (auto simp: id_plain_def name_ok_def UNSUPPORTED_CHARS_def id_prefix_def)

text \<open>C14: a layer started, written with any sequence of polls that take any part of their
  buffers, wait for the write in flight or find it done, none of which reports an error, and
  flushed without an error, is addressed by the hash of exactly the accepted bytes once it is
  finished, carries their number as its size, and reads back as those bytes; other blobs are
  untouched and the temporary file is gone. Hash digests are hexadecimal text. Without the flush
  the same layer may hold a part of the bytes only (\<open>unflushed_layer_truncated\<close>).\<close>

theorem layer_round_trip:
  assumes "layer_dir s = Some b" and "\<forall>y. hex_text (hash y)"
    and "start_layer u s = (Inr w, s1)" and "write_polls cs (w, layer_dir s1) = Some (x, w2, d2)"
    and "poll_flush ev (w2, d2) = (IoReady (), w3, d3)"
  shows "\<exists>l s3. finish_layer hash media platform k w3 (s1\<lparr>layer_dir := d3\<rparr>) = (Ok l, s3)
    \<and> layer_digest_text l = hash x \<and> layer_size l = length x
    \<and> local_read l s3 = Ok x
    \<and> \<not> blob_exists s3 (u @ ''.tmp'')
    \<and> (\<forall>d. d \<noteq> hash x \<and> d \<noteq> u @ ''.tmp'' \<longrightarrow> blob_exists s3 d = blob_exists s d)"
proof -
  have hex: "hex_text (hash x)" using assms(2) by simp
  show ?thesis
    unfolding layer_written [where hash = hash, OF assms(1) hex assms(3-5), of media platform k]
    using hex_tmp [OF hex, of u]
    by (auto simp: local_read_def blob_exists_def assms(1))
qed

theorem layer_round_trip_witness:
  "\<exists>w s1 w2 d2 w3 d3 l s3. (start_layer ''u'' example_backend :: (nat local_error, writer) res \<times> local_backend) = (Inr w, s1)
    \<and> write_polls [(Landed, 2, ''xyz''), (StillBusy, 1, ''q''), (Landed, 5, ''w'')] (w, layer_dir s1) = Some (''xyw'', w2, d2)
    \<and> poll_flush Landed (w2, d2) = (IoReady (), w3, d3)
    \<and> (finish_layer (\<lambda>_. ''ab'') Manifest None 0 w3 (s1\<lparr>layer_dir := d3\<rparr>) :: (nat local_error, layer) res \<times> local_backend) = (Ok l, s3)
    \<and> local_read l s3 = (Ok ''xyw'' :: (nat local_error, string) res)"
proof -
  define b where "b = [''d'' \<mapsto> ''x'']"
  have b: "layer_dir example_backend = Some b" by (simp add: b_def example_dir)
  let ?t = "''u.tmp''"
  let ?s1 = "example_backend\<lparr>layer_dir := Some (b(?t \<mapsto> []))\<rparr>"
  let ?w2 = "(writer_new ?t)\<lparr>w_pending := Some ''w'', w_hashed := ''xyw'', w_size := 3\<rparr>"
  have w: "(start_layer ''u'' example_backend :: (nat local_error, writer) res \<times> local_backend) = (Inr (writer_new ?t), ?s1)"
    by (simp add: start_layer_def b Let_def)
  have ws: "write_polls [(Landed, 2, ''xyz''), (StillBusy, 1, ''q''), (Landed, 5, ''w'')] (writer_new ?t, layer_dir ?s1)
      = Some (''xyw'', ?w2, Some (b(?t \<mapsto> ''xy'')))"
    by (simp add: poll_write_def poll_flush_def writer_new_def Let_def append_temp_Some)
  have fl: "poll_flush Landed (?w2, Some (b(?t \<mapsto> ''xy''))) = (IoReady (), ?w2\<lparr>w_pending := None\<rparr>, Some (b(?t \<mapsto> ''xyw'')))"
    by (simp add: poll_flush_def writer_new_def append_temp_Some)
  have "\<forall>x :: string. hex_text ''ab''" by (simp add: hex_text_def)
  from layer_round_trip [where hash = "\<lambda>_. ''ab''" and media = Manifest and platform = None and k = 0, OF b this w ws fl]
  obtain l and s3 :: local_backend where "finish_layer (\<lambda>_. ''ab'') Manifest None 0 (?w2\<lparr>w_pending := None\<rparr>)
      (?s1\<lparr>layer_dir := Some (b(?t \<mapsto> ''xyw''))\<rparr>) = (Ok l :: (nat local_error, layer) res, s3)"
    "local_read l s3 = (Ok ''xyw'' :: (nat local_error, string) res)" by blast
  with w ws fl show ?thesis by metis
qed

text \<open>C16: \<open>save\<close> and \<open>del\<close> do not exclude each other on blobs. When a deletion of the only
  holder of a blob runs between the check and the commit of a save that needs the blob, the
  save succeeds, the artifact is in the catalog, and its blob is gone.\<close>

theorem save_del_race:
  assumes "local_inv vshow vparse s" and "load_at vparse s = Ok c" and "manifests c i = Some a"
    and "save_valid vshow s y" and "d \<in> set (art_digests y)"
    and "d \<in> unreferenced (catalog_del vshow i c) (art_layers a)"
  shows "\<exists>s'. save_around_del vshow vparse y i s = (Ok (), s')
    \<and> local_lookup vparse s' (art_id y) = Some y \<and> \<not> blob_exists s' d"
proof -
  from assms(1,2) obtain b where c: "layer_dir s = Some b" "catalog_wf vshow c" "catalog_plain c"
    by (auto elim: local_invE)
  let ?c = "catalog_del vshow i c"
  let ?s = "flush_at vshow ?c s\<lparr>layer_dir := Some (b |` (- unreferenced ?c (art_layers a)))\<rparr>"
  have ld: "load_at vparse (flush_at vshow ?c s) = Ok ?c"
    using c by (simp add: load_flush del_wf plain_del)
  have "\<forall>l \<in> set (art_layers y). blob_exists s (layer_digest_text l)"
    using assms(4) by (simp add: save_valid_def art_digests_def)
  then have "save_around_del vshow vparse y i s = (Ok (), flush_at vshow (catalog_add vshow y ?c) ?s)"
    by (simp add: save_around_del_def save_check_Ok [THEN iffD2] local_del_some [OF assms(2) c assms(3)]
        save_commit_def ld)
  moreover have "load_at vparse (flush_at vshow (catalog_add vshow y ?c) ?s) = Ok (catalog_add vshow y ?c)"
    using assms(4) c by (intro load_flush add_wf plain_add) (simp_all add: save_valid_def del_wf plain_del)
  ultimately show ?thesis
    using assms(6) by (auto simp: local_lookup_def catalog_get_def blob_exists_def flush_at_def)
qed

theorem save_del_race_witness:
  "\<exists>s'. save_around_del (\<lambda>_. []) (\<lambda>_. None) (example_artifact ''app'' ''h2'' [''d''])
      (Id (Name ''gcc'') None None None ''h1'') example_backend = (Ok (), s')
    \<and> local_lookup (\<lambda>_. None) s' (Id (Name ''app'') None None None ''h2'') = Some (example_artifact ''app'' ''h2'' [''d''])
    \<and> \<not> blob_exists s' ''d''"
proof -
  let ?i = "Id (Name ''gcc'') None None None ''h1'' :: nat artifact_id"
  have m: "manifests example_catalog ?i = Some (example_artifact ''gcc'' ''h1'' [''d''])"
    by (simp add: example_manifests)
  have pos: "pos_counts (blob_counts example_catalog)"
    using example_wf(1) by (simp add: catalog_wf_def counts_wf_def)
  have "count_at (blob_counts (catalog_del (\<lambda>_. []) ?i example_catalog)) ''d'' = 0"
    unfolding count_at_del [OF pos] m
    by (simp add: example_catalog_def count_at_add) (simp add: catalog_default_def count_at_def)
  then have "''d'' \<in> unreferenced (catalog_del (\<lambda>_. []) ?i example_catalog)
      (art_layers (example_artifact ''gcc'' ''h1'' [''d'']))"
    by (simp add: unreferenced_def example_artifact_def example_layer_def)
  from save_del_race [OF example_inv example_load m example_save_valid _ this] show ?thesis by simp
qed

text \<open>\<open>prune_all\<close> empties a sound backend that has a catalog file, but also removes the
  blob directory, so that no layer can be started until the backend is created again; and on
  a backend that never saved anything it fails.\<close>

lemma local_prune_all_laws:
  assumes "local_inv vshow vparse s"
  shows "(catalog_file s = None \<longrightarrow> local_prune_all s = (Fail RemoveError :: ('v local_error, unit) res, s))
    \<and> (catalog_file s \<noteq> None \<longrightarrow> (\<exists>s'. local_prune_all s = (Ok () :: ('v local_error, unit) res, s')
        \<and> load_at vparse s' = Ok catalog_default \<and> start_layer u s' = (Fail CreateError :: ('v local_error, writer) res, s')
        \<and> local_inv vshow vparse (local_new s')))"
  using assms local_new_inv [of "s\<lparr>catalog_file := None, layer_dir := None\<rparr>" vshow vparse]
  by (auto simp: local_prune_all_def start_layer_def load_at_def Let_def elim: local_invE split: option.splits)

lemma local_prune_all_laws_witness:
  "\<exists>s'. (local_prune_all example_backend :: (nat local_error, unit) res \<times> local_backend) = (Ok (), s')
    \<and> (start_layer ''u'' s' :: (nat local_error, writer) res \<times> local_backend) = (Fail CreateError, s')"
proof -
  have "catalog_file example_backend \<noteq> None" by (simp add: example_backend_def flush_at_def)
  with local_prune_all_laws [OF example_inv, of "''u''"] show ?thesis by blast
qed

end
