(* ===== verification/Sched_Node.thy ===== *)
theory Sched_Node
  imports Artifact Address "HOL-Library.Word"
begin

text \<open>
  Vertices of the scheduler's execution graph (\<open>crates/edo/src/scheduler/node.rs\<close>) and the
  scheduler's error values (\<open>crates/edo/src/scheduler/error.rs\<close>). The status is the byte
  the source keeps in an \<open>AtomicU8\<close>; the identifier is a \<open>OnceLock\<close>, so an option that is
  written at most once.
\<close>

section \<open>Status bytes\<close>

datatype node_status = Pending | Running | Success | Failed

fun status_byte :: "node_status \<Rightarrow> 8 word" where
  "status_byte Pending = 0"
| "status_byte Running = 1"
| "status_byte Success = 2"
| "status_byte Failed = 3"

definition status_of_byte :: "8 word \<Rightarrow> node_status" where
  "status_of_byte b =
     (if b = status_byte Pending then Pending
      else if b = status_byte Running then Running
      else if b = status_byte Success then Success
      else Failed)"

section \<open>Nodes\<close>

record 'v node =
  n_addr :: addr
  n_status :: "8 word"
  n_id :: "'v artifact_id option"
  n_cache_hit :: bool

definition node_new :: "addr \<Rightarrow> 'v node" where
  "node_new a = \<lparr>n_addr = a, n_status = status_byte Pending, n_id = None, n_cache_hit = False\<rparr>"

definition is_done :: "'v node \<Rightarrow> bool" where
  "is_done n \<longleftrightarrow> n_status n = status_byte Success \<or> n_status n = status_byte Failed"

definition set_running :: "'v node \<Rightarrow> 'v node" where
  "set_running n = n\<lparr>n_status := status_byte Running\<rparr>"

definition set_success :: "'v node \<Rightarrow> 'v node" where
  "set_success n = n\<lparr>n_status := status_byte Success\<rparr>"

definition set_failed :: "'v node \<Rightarrow> 'v node" where
  "set_failed n = n\<lparr>n_status := status_byte Failed\<rparr>"

definition set_id :: "'v artifact_id \<Rightarrow> 'v node \<Rightarrow> 'v node" where
  "set_id i n = (case n_id n of Some _ \<Rightarrow> n | None \<Rightarrow> n\<lparr>n_id := Some i\<rparr>)"

definition set_cache_hit :: "bool \<Rightarrow> 'v node \<Rightarrow> 'v node" where
  "set_cache_hit v n = n\<lparr>n_cache_hit := v\<rparr>"

text \<open>The decoded status of a node.\<close>

definition status :: "'v node \<Rightarrow> node_status" where
  "status n = status_of_byte (n_status n)"

section \<open>Errors\<close>

text \<open>Errors of other subsystems are carried as their text.\<close>

datatype sched_error = CacheError string | Cancelled | Child "sched_error list" | Depend addr
  | EnvironmentErr string | GraphCycle | Inquire | Infallable | IoErr | Join | NodeErr addr | NoRun
  | Passthrough string | ContextErr string | ProjectTransform addr | Signal | StateErr
  | SubgraphErr | TemporaryDirectory | TransformErr string

section \<open>Laws\<close>

lemma status_round_trip [simp]: "status_of_byte (status_byte st) = st"
  by (cases st) (simp_all add: status_of_byte_def)

lemma status_simps [simp]:
  "status (node_new a) = Pending"
  "status (set_running n) = Running"
  "status (set_success n) = Success"
  "status (set_failed n) = Failed"
  "status (set_id i n) = status n"
  "status (set_cache_hit v n) = status n"
  by (simp_all add: status_def node_new_def set_running_def set_success_def set_failed_def
      set_id_def set_cache_hit_def split: option.split del: status_byte.simps)

lemma node_frame [simp]:
  "n_addr (set_running n) = n_addr n" "n_addr (set_success n) = n_addr n" "n_addr (set_failed n) = n_addr n"
  "n_id (set_running n) = n_id n" "n_id (set_success n) = n_id n" "n_id (set_failed n) = n_id n"
  "n_cache_hit (set_running n) = n_cache_hit n" "n_cache_hit (set_success n) = n_cache_hit n"
  "n_cache_hit (set_failed n) = n_cache_hit n"
  "n_addr (set_id i n) = n_addr n" "n_cache_hit (set_id i n) = n_cache_hit n"
  "n_addr (set_cache_hit v n) = n_addr n" "n_id (set_cache_hit v n) = n_id n"
  "n_cache_hit (set_cache_hit v n) = v"
  "n_id (node_new a) = None" "n_addr (node_new a) = a" "n_cache_hit (node_new a) = False"
  by (simp_all add: set_running_def set_success_def set_failed_def set_id_def set_cache_hit_def
      node_new_def split: option.split)

lemma set_id_id [simp]: "n_id (set_id i n) = Some (case n_id n of Some j \<Rightarrow> j | None \<Rightarrow> i)"
  by (simp add: set_id_def split: option.split)

section \<open>Properties\<close>

text \<open>every status survives its byte encoding; a byte that encodes no status reads as
  \<open>Failed\<close>, never as success; and the first identifier recorded on a node is the one it
  keeps.\<close>

lemma node_encoding:
  "status_of_byte (status_byte st) = st
   \<and> (b \<notin> status_byte ` UNIV \<longrightarrow> status_of_byte b = Failed)
   \<and> n_id (set_id j (set_id i (node_new a))) = Some i"
proof -
  have "b \<notin> status_byte ` UNIV \<Longrightarrow> status_of_byte b = Failed"
    by (metis rangeI status_of_byte_def)
  then show ?thesis by simp
qed

lemma node_encoding_witness: "status_of_byte 7 = Failed"
proof -
  have "(7 :: 8 word) \<noteq> status_byte st" for st by (cases st) simp_all
  then have "(7 :: 8 word) \<notin> status_byte ` UNIV" by blast
  with node_encoding [of Pending 7] show ?thesis by blast
qed

end
