(* ===== verification/Dispatch.thy ===== *)
theory Dispatch
  imports Sched_Node
begin

text \<open>
  The dispatcher (\<open>Graph::run\<close> in \<open>crates/edo/src/scheduler/graph.rs\<close>): the cache-hit
  cascade, the driver loop with its worker pool, and the selection of the result.

  One run is described by a \<open>dispatch\<close> record: the graph's children lists, the subgraph and
  indegree template of the root, the batch size, the nodes whose transform the registry knows,
  and those whose lifecycle may panic. The driver, the workers and the
  canceller interleave; \<open>run_step\<close> has one rule per atomic action. Node statuses, the work
  and done channels, \<open>ready\<close>, \<open>inflight\<close>, \<open>failed\<close>, \<open>first_error\<close> and the cancellation token
  are the source's variables. Indegrees are \<open>u32\<close> in the source, below the bound on the
  number of edges of a graph with 32-bit indices, so they are natural numbers; the
  saturating subtraction is subtraction on natural numbers.
\<close>

section \<open>The run of one root\<close>

record dispatch =
  kids :: "nat \<Rightarrow> nat list"
  sub :: "nat set"
  template :: "nat \<rightharpoonup> nat"
  batch :: nat
  known :: "nat \<Rightarrow> bool"
  may_panic :: "nat \<Rightarrow> bool"

text \<open>Decrementing the indegrees of the children of a finished node; children that reach
  zero are appended to the queue in turn. \<open>None\<close> is a child without an entry.\<close>

fun release :: "nat set \<Rightarrow> nat list \<Rightarrow> (nat \<rightharpoonup> nat) \<times> nat list \<Rightarrow> ((nat \<rightharpoonup> nat) \<times> nat list) option" where
  "release S [] st = Some st"
| "release S (c # cs) (ind, q) =
     (if c \<notin> S then release S cs (ind, q)
      else (case ind c of
              None \<Rightarrow> None
            | Some d \<Rightarrow> release S cs (ind(c \<mapsto> d - 1), if d - 1 = 0 then q @ [c] else q)))"

section \<open>The cache-hit cascade\<close>

record 'v cascade =
  c_queue :: "nat list"
  c_ready :: "nat list"
  c_ind :: "nat \<rightharpoonup> nat"
  c_nodes :: "nat \<Rightarrow> 'v node"

text \<open>The loop, with fuel; \<open>None\<close> when the fuel is used up. The error of a missing entry is a
  result of the loop.\<close>

fun cascade_loop :: "nat \<Rightarrow> dispatch \<Rightarrow> 'v cascade \<Rightarrow> (sched_error, 'v cascade) res option" where
  "cascade_loop 0 p s = (if c_queue s = [] then Some (Ok s) else None)"
| "cascade_loop (Suc f) p s =
     (case c_queue s of
        [] \<Rightarrow> Some (Ok s)
      | n # q \<Rightarrow>
          if n_cache_hit (c_nodes s n)
          then (case release (sub p) (kids p n) (c_ind s, q) of
                  None \<Rightarrow> Some (Fail SubgraphErr)
                | Some (ind, q') \<Rightarrow>
                    cascade_loop f p (s\<lparr>c_queue := q', c_ind := ind,
                      c_nodes := (c_nodes s)(n := set_success (c_nodes s n))\<rparr>))
          else cascade_loop f p (s\<lparr>c_queue := q, c_ready := c_ready s @ [n]\<rparr>))"

text \<open>The start of the loop: the template's keys in the hash map's iteration order, those
  with indegree zero.\<close>

definition cascade_init :: "dispatch \<Rightarrow> nat list \<Rightarrow> (nat \<Rightarrow> 'v node) \<Rightarrow> 'v cascade" where
  "cascade_init p order nodes =
     \<lparr>c_queue = filter (\<lambda>n. template p n = Some 0) order, c_ready = [], c_ind = template p, c_nodes = nodes\<rparr>"

section \<open>Driver and workers\<close>

datatype phase = Driving | Waiting | Received | Draining | Returned "(sched_error, unit) res"

record 'v run_state =
  nodes :: "nat \<Rightarrow> 'v node"
  indegree :: "nat \<rightharpoonup> nat"
  ready :: "nat list"
  work_q :: "nat list"
  executing :: "nat list"
  done_q :: "(nat \<times> (sched_error + unit)) list"
  workers :: nat
  worker_errs :: "sched_error list"
  inflight :: nat
  failed :: bool
  first_error :: "sched_error option"
  cancelled :: bool
  phase :: phase

definition upd_node :: "nat \<Rightarrow> ('v node \<Rightarrow> 'v node) \<Rightarrow> 'v run_state \<Rightarrow> 'v run_state" where
  "upd_node n f s = s\<lparr>nodes := (nodes s)(n := f (nodes s n))\<rparr>"

text \<open>The driver's reaction to a completion \<open>(n, res)\<close>, up to the second look at the token.\<close>

definition on_done :: "dispatch \<Rightarrow> nat \<Rightarrow> sched_error + unit \<Rightarrow> 'v run_state \<Rightarrow> 'v run_state" where
  "on_done p n res s =
     (case res of
        Inr _ \<Rightarrow>
          (let s1 = upd_node n set_success s\<lparr>inflight := inflight s - 1\<rparr>
           in if failed s \<or> cancelled s then s1\<lparr>phase := Received\<rparr>
              else (case release (sub p) (kids p n) (indegree s, ready s) of
                      None \<Rightarrow> s1\<lparr>phase := Returned (Fail Infallable)\<rparr>
                    | Some (ind, r) \<Rightarrow> s1\<lparr>indegree := ind, ready := r, phase := Received\<rparr>))
      | Inl e \<Rightarrow>
          upd_node n set_failed s\<lparr>inflight := inflight s - 1, failed := True, ready := [],
            first_error := (case first_error s of None \<Rightarrow> Some e | Some x \<Rightarrow> Some x),
            phase := Received\<rparr>)"

text \<open>What \<open>run\<close> returns once the workers are joined without an error.\<close>

definition final_result :: "'v run_state \<Rightarrow> (sched_error, unit) res" where
  "final_result s =
     (case first_error s of
        Some e \<Rightarrow> Fail e
      | None \<Rightarrow> if cancelled s then Fail Cancelled else Ok ())"

definition active :: "'v run_state \<Rightarrow> bool" where
  "active s \<longleftrightarrow> (\<forall>r. phase s \<noteq> Returned r)"

text \<open>The dispatch loop's guard.\<close>

definition can_dispatch :: "dispatch \<Rightarrow> 'v run_state \<Rightarrow> bool" where
  "can_dispatch p s \<longleftrightarrow> ready s \<noteq> [] \<and> inflight s < batch p \<and> \<not> failed s \<and> \<not> cancelled s"

text \<open>
  The rules, in the source's order. A worker that panics, or finds no identifier on its
  node, ends without reporting; the others keep their ends of the channels. A worker whose
  transform is unknown reports that error; any other result may come out of the lifecycle.
  Joining the workers returns the error of one of those that ended with one. The model ends
  when \<open>run\<close> returns.
\<close>

inductive run_step :: "dispatch \<Rightarrow> 'v run_state \<Rightarrow> 'v run_state \<Rightarrow> bool" for p :: dispatch where
  dispatch: "phase s = Driving \<Longrightarrow> can_dispatch p s \<Longrightarrow> length (work_q s) < batch p \<Longrightarrow>
    run_step p s (upd_node (hd (ready s)) set_running s
      \<lparr>ready := tl (ready s), work_q := work_q s @ [hd (ready s)], inflight := inflight s + 1\<rparr>)"
| dispatch_full: "phase s = Driving \<Longrightarrow> can_dispatch p s \<Longrightarrow> \<not> length (work_q s) < batch p \<Longrightarrow>
    run_step p s (upd_node (hd (ready s)) set_running s
      \<lparr>ready := tl (ready s), phase := Returned (Fail Infallable)\<rparr>)"
| drain: "phase s = Driving \<Longrightarrow> \<not> can_dispatch p s \<Longrightarrow> inflight s = 0 \<Longrightarrow> run_step p s (s\<lparr>phase := Draining\<rparr>)"
| wait: "phase s = Driving \<Longrightarrow> \<not> can_dispatch p s \<Longrightarrow> inflight s \<noteq> 0 \<Longrightarrow> run_step p s (s\<lparr>phase := Waiting\<rparr>)"
| receive: "phase s = Waiting \<Longrightarrow> done_q s = (n, res) # q \<Longrightarrow> run_step p s (on_done p n res (s\<lparr>done_q := q\<rparr>))"
| receive_none: "phase s = Waiting \<Longrightarrow> done_q s = [] \<Longrightarrow> workers s = 0 \<Longrightarrow>
    run_step p s (s\<lparr>phase := Returned (Fail Infallable)\<rparr>)"
| received: "phase s = Received \<Longrightarrow>
    run_step p s (s\<lparr>ready := (if cancelled s then [] else ready s), phase := Driving\<rparr>)"
| finish: "phase s = Draining \<Longrightarrow> work_q s = [] \<Longrightarrow> executing s = [] \<Longrightarrow> worker_errs s = [] \<Longrightarrow>
    run_step p s (s\<lparr>phase := Returned (final_result s)\<rparr>)"
| finish_join: "phase s = Draining \<Longrightarrow> work_q s = [] \<Longrightarrow> executing s = [] \<Longrightarrow> e \<in> set (worker_errs s) \<Longrightarrow>
    run_step p s (s\<lparr>phase := Returned (Fail e)\<rparr>)"
| take: "active s \<Longrightarrow> work_q s = n # q \<Longrightarrow> length (executing s) < workers s \<Longrightarrow>
    run_step p s (s\<lparr>work_q := q, executing := executing s @ [n]\<rparr>)"
| report: "active s \<Longrightarrow> executing s = xs @ n # ys \<Longrightarrow> length (done_q s) < batch p \<Longrightarrow>
    (if known p n then n_id (nodes s n) \<noteq> None else res = Inl (ProjectTransform (n_addr (nodes s n)))) \<Longrightarrow>
    run_step p s (s\<lparr>executing := xs @ ys, done_q := done_q s @ [(n, res)]\<rparr>)"
| no_id: "active s \<Longrightarrow> executing s = xs @ n # ys \<Longrightarrow> known p n \<Longrightarrow> n_id (nodes s n) = None \<Longrightarrow>
    run_step p s (s\<lparr>executing := xs @ ys, workers := workers s - 1, worker_errs := Infallable # worker_errs s\<rparr>)"
| panic: "active s \<Longrightarrow> executing s = xs @ n # ys \<Longrightarrow> may_panic p n \<Longrightarrow>
    run_step p s (s\<lparr>executing := xs @ ys, workers := workers s - 1, worker_errs := Join # worker_errs s\<rparr>)"
| cancel: "active s \<Longrightarrow> \<not> cancelled s \<Longrightarrow> run_step p s (s\<lparr>cancelled := True\<rparr>)"

text \<open>The state in which the driver loop starts, after the cascade.\<close>

definition run_init :: "dispatch \<Rightarrow> 'v cascade \<Rightarrow> bool \<Rightarrow> 'v run_state" where
  "run_init p c canc = \<lparr>nodes = c_nodes c, indegree = c_ind c, ready = c_ready c, work_q = [], executing = [],
     done_q = [], workers = batch p, worker_errs = [], inflight = 0, failed = False, first_error = None,
     cancelled = canc, phase = Driving\<rparr>"

inductive run_starts :: "dispatch \<Rightarrow> (nat \<Rightarrow> 'v node) \<Rightarrow> nat list \<Rightarrow> 'v run_state \<Rightarrow> bool" where
  "cascade_loop f p (cascade_init p order ns) = Some (Ok c) \<Longrightarrow> run_starts p ns order (run_init p c canc)"

section \<open>Invariant\<close>

text \<open>The dependency relation of the subgraph, and what the graph construction provides.\<close>

definition edges :: "dispatch \<Rightarrow> (nat \<times> nat) set" where
  "edges p = {(m, n). m \<in> sub p \<and> n \<in> sub p \<and> n \<in> set (kids p m)}"

definition open_edges :: "dispatch \<Rightarrow> nat set \<Rightarrow> nat \<Rightarrow> nat" where
  "open_edges p C c = (\<Sum>n \<in> sub p - C. count_list (kids p n) c)"

definition dispatch_wf :: "dispatch \<Rightarrow> bool" where
  "dispatch_wf p \<longleftrightarrow> finite (sub p) \<and> 0 < batch p \<and> acyclic (edges p)
     \<and> (\<forall>c. template p c = (if c \<in> sub p then Some (open_edges p {} c) else None))"

abbreviation in_status :: "dispatch \<Rightarrow> 'v run_state \<Rightarrow> node_status \<Rightarrow> nat set" where
  "in_status p s st \<equiv> {n \<in> sub p. status (nodes s n) = st}"

text \<open>Items on their way: queued, executing, reported, or held by a worker that ended (\<open>L\<close>).\<close>

definition flight :: "nat list \<Rightarrow> 'v run_state \<Rightarrow> nat list" where
  "flight L s = work_q s @ executing s @ map fst (done_q s) @ L"

text \<open>The indegrees count the edges from nodes outside \<open>C\<close>, the nodes whose success has been
  propagated; nothing is suppressed before a failure or a cancellation.\<close>

definition counted :: "dispatch \<Rightarrow> nat set \<Rightarrow> 'v run_state \<Rightarrow> bool" where
  "counted p C s \<longleftrightarrow> C \<subseteq> in_status p s Success
     \<and> (\<not> failed s \<and> \<not> cancelled s \<longrightarrow> C = in_status p s Success)
     \<and> (\<forall>c. indegree s c = (if c \<in> sub p then Some (open_edges p C c) else None))"

definition queued :: "dispatch \<Rightarrow> nat set \<Rightarrow> nat list \<Rightarrow> 'v run_state \<Rightarrow> bool" where
  "queued p C L s \<longleftrightarrow> distinct (ready s @ flight L s)
     \<and> set (flight L s) = in_status p s Running
     \<and> set (ready s) \<subseteq> {n \<in> in_status p s Pending. open_edges p C n = 0}
     \<and> (\<not> failed s \<and> \<not> cancelled s \<longrightarrow> {n \<in> in_status p s Pending. open_edges p C n = 0} \<subseteq> set (ready s))"

definition ordered :: "dispatch \<Rightarrow> 'v run_state \<Rightarrow> bool" where
  "ordered p s \<longleftrightarrow> (\<forall>(m, n) \<in> edges p. status (nodes s n) \<noteq> Pending \<longrightarrow> status (nodes s m) = Success)"

definition latched :: "dispatch \<Rightarrow> 'v run_state \<Rightarrow> bool" where
  "latched p s \<longleftrightarrow> (failed s \<longleftrightarrow> in_status p s Failed \<noteq> {}) \<and> (failed s \<longleftrightarrow> first_error s \<noteq> None)"

definition bounded :: "dispatch \<Rightarrow> nat list \<Rightarrow> 'v run_state \<Rightarrow> bool" where
  "bounded p L s \<longleftrightarrow> inflight s = length (flight L s) \<and> inflight s \<le> batch p
     \<and> length (executing s) \<le> workers s \<and> workers s + length L = batch p
     \<and> length (worker_errs s) = length L"

text \<open>What a returned result says.\<close>

definition result_ok :: "dispatch \<Rightarrow> 'v run_state \<Rightarrow> (sched_error, unit) res \<Rightarrow> bool" where
  "result_ok p s r \<longleftrightarrow>
     (case r of
        Inr _ \<Rightarrow> in_status p s Success = sub p
      | Inl Panic \<Rightarrow> False
      | Inl (Err e) \<Rightarrow> first_error s = Some e \<or> (e = Cancelled \<and> cancelled s \<and> first_error s = None)
          \<or> (e = Infallable \<and> workers s = 0))"

definition phase_ok :: "dispatch \<Rightarrow> 'v run_state \<Rightarrow> bool" where
  "phase_ok p s \<longleftrightarrow>
     (case phase s of
        Driving \<Rightarrow> True | Received \<Rightarrow> True
      | Waiting \<Rightarrow> inflight s \<noteq> 0
      | Draining \<Rightarrow> inflight s = 0 \<and> (ready s = [] \<or> failed s \<or> cancelled s)
      | Returned r \<Rightarrow> result_ok p s r)"

definition run_inv :: "dispatch \<Rightarrow> 'v run_state \<Rightarrow> bool" where
  "run_inv p s \<longleftrightarrow> (\<exists>C L. counted p C s \<and> queued p C L s \<and> ordered p s \<and> latched p s \<and> bounded p L s \<and> phase_ok p s)"

section \<open>Releasing children\<close>

lemma freed_Cons:
  assumes "c \<in> S" and "ind c = Some d" and "Suc (count_list cs c) \<le> d"
    and "set r = {x \<in> set cs \<inter> S. (ind(c \<mapsto> d - 1)) x = Some (count_list cs x)}"
  shows "set (if d - 1 = 0 then c # r else r) = {x \<in> set (c # cs) \<inter> S. ind x = Some (count_list (c # cs) x)}"
proof -
  have "x \<in> set (if d - 1 = 0 then c # r else r) \<longleftrightarrow> x \<in> {x \<in> set (c # cs) \<inter> S. ind x = Some (count_list (c # cs) x)}" for x
  proof (cases "x = c")
    case True
    have "count_list cs c = 0 \<longleftrightarrow> c \<notin> set cs" by (rule count_list_0_iff)
    with True assms show ?thesis by (cases "c \<in> set cs") auto
  next
    case False
    with assms(4) show ?thesis by auto
  qed
  then show ?thesis by blast
qed

lemma release_spec:
  assumes "\<And>c. c \<in> set cs \<Longrightarrow> c \<in> S \<Longrightarrow> \<exists>d. ind c = Some d \<and> count_list cs c \<le> d"
  shows "\<exists>r. release S cs (ind, q) =
      Some (\<lambda>c. if c \<in> S then map_option (\<lambda>d. d - count_list cs c) (ind c) else ind c, q @ r)
    \<and> distinct r \<and> set r = {c \<in> set cs \<inter> S. ind c = Some (count_list cs c)}"
  using assms
proof (induction cs arbitrary: ind q)
  case Nil
  have "(\<lambda>c. if c \<in> S then map_option (\<lambda>d. d - count_list [] c) (ind c) else ind c) = ind"
    by (auto simp: fun_eq_iff option.map_ident)
  then show ?case by simp
next
  case (Cons c cs)
  show ?case
  proof (cases "c \<in> S")
    case False
    from Cons.prems have "\<exists>d. ind c' = Some d \<and> count_list cs c' \<le> d" if "c' \<in> set cs" "c' \<in> S" for c'
      using that False by (metis count_list.simps(2) list.set_intros(2))
    from Cons.IH [OF this, of q] obtain r where r: "release S cs (ind, q) =
        Some (\<lambda>x. if x \<in> S then map_option (\<lambda>d. d - count_list cs x) (ind x) else ind x, q @ r)"
      "distinct r" "set r = {x \<in> set cs \<inter> S. ind x = Some (count_list cs x)}" by blast
    have "(\<lambda>x. if x \<in> S then map_option (\<lambda>d. d - count_list cs x) (ind x) else ind x)
        = (\<lambda>x. if x \<in> S then map_option (\<lambda>d. d - count_list (c # cs) x) (ind x) else ind x)"
      using False by (auto simp: fun_eq_iff)
    moreover have "set r = {x \<in> set (c # cs) \<inter> S. ind x = Some (count_list (c # cs) x)}"
      using False r(3) by auto
    ultimately show ?thesis using False r by simp
  next
    case True
    then obtain d where d: "ind c = Some d" "Suc (count_list cs c) \<le> d" using Cons.prems [of c] by auto
    let ?ind = "ind(c \<mapsto> d - 1)"
    have "\<exists>e. ?ind c' = Some e \<and> count_list cs c' \<le> e" if "c' \<in> set cs" "c' \<in> S" for c'
      using that d Cons.prems [of c'] by (cases "c' = c") auto
    from Cons.IH [OF this, of "if d - 1 = 0 then q @ [c] else q"] obtain r where
      r: "release S cs (?ind, if d - 1 = 0 then q @ [c] else q) =
          Some (\<lambda>x. if x \<in> S then map_option (\<lambda>d. d - count_list cs x) (?ind x) else ?ind x,
                (if d - 1 = 0 then q @ [c] else q) @ r)"
        "distinct r" "set r = {x \<in> set cs \<inter> S. ?ind x = Some (count_list cs x)}" by blast
    have f: "(\<lambda>x. if x \<in> S then map_option (\<lambda>d. d - count_list cs x) (?ind x) else ?ind x)
        = (\<lambda>x. if x \<in> S then map_option (\<lambda>d. d - count_list (c # cs) x) (ind x) else ind x)"
      using d True by (auto simp: fun_eq_iff)
    have "release S (c # cs) (ind, q) =
        Some (\<lambda>x. if x \<in> S then map_option (\<lambda>d. d - count_list (c # cs) x) (ind x) else ind x,
              q @ (if d - 1 = 0 then c # r else r))"
      using True d r(1) unfolding f by simp
    moreover have "c \<notin> set r" if "d - 1 = 0"
      using that d(2) r(3) by (auto simp: count_list_0_iff)
    moreover have "set (if d - 1 = 0 then c # r else r) = {x \<in> set (c # cs) \<inter> S. ind x = Some (count_list (c # cs) x)}"
      by (rule freed_Cons [OF True d r(3)])
    ultimately show ?thesis using r(2)
      by (intro exI [of _ "if d - 1 = 0 then c # r else r"]) simp
  qed
qed

lemma open_edges_insert:
  assumes "finite (sub p)" and "n \<in> sub p - C"
  shows "open_edges p C c = open_edges p (insert n C) c + count_list (kids p n) c"
proof -
  have "sub p - C = insert n (sub p - insert n C)" using assms by auto
  then show ?thesis using assms unfolding open_edges_def by (metis (no_types, lifting) DiffD2 add.commute
        finite_Diff insertI1 sum.insert)
qed

lemma open_edges_0:
  "finite (sub p) \<Longrightarrow> open_edges p C c = 0 \<longleftrightarrow> (\<forall>m \<in> sub p - C. c \<notin> set (kids p m))"
  by (auto simp: open_edges_def count_list_0_iff)

lemma release_node:
  assumes "finite (sub p)" and "n \<in> sub p - C"
    and "\<And>c. ind c = (if c \<in> sub p then Some (open_edges p C c) else None)"
  shows "\<exists>r. release (sub p) (kids p n) (ind, q) =
      Some (\<lambda>c. if c \<in> sub p then Some (open_edges p (insert n C) c) else None, q @ r)
    \<and> distinct r \<and> set r = {c \<in> set (kids p n) \<inter> sub p. open_edges p (insert n C) c = 0}"
proof -
  note ins = open_edges_insert [OF assms(1,2)]
  have "\<exists>d. ind c = Some d \<and> count_list (kids p n) c \<le> d" if "c \<in> set (kids p n)" "c \<in> sub p" for c
    using that assms(3) ins by simp
  from release_spec [OF this, of "sub p" q] obtain r where
    r: "release (sub p) (kids p n) (ind, q) =
      Some (\<lambda>c. if c \<in> sub p then map_option (\<lambda>d. d - count_list (kids p n) c) (ind c) else ind c, q @ r)"
      "distinct r" "set r = {c \<in> set (kids p n) \<inter> sub p. ind c = Some (count_list (kids p n) c)}" by blast
  have "(\<lambda>c. if c \<in> sub p then map_option (\<lambda>d. d - count_list (kids p n) c) (ind c) else ind c)
      = (\<lambda>c. if c \<in> sub p then Some (open_edges p (insert n C) c) else None)"
    by (auto simp: assms(3) ins fun_eq_iff)
  moreover have "set r = {c \<in> set (kids p n) \<inter> sub p. open_edges p (insert n C) c = 0}"
    using r(3) by (auto simp: assms(3) ins split: if_splits)
  ultimately show ?thesis using r(1,2) by auto
qed

lemma frontier_insert:
  assumes "finite (sub p)" and "n \<in> sub p - C"
  shows "{x \<in> sub p. open_edges p (insert n C) x = 0}
    = {x \<in> sub p. open_edges p C x = 0} \<union> {c \<in> set (kids p n) \<inter> sub p. open_edges p (insert n C) c = 0}"
    and "{x \<in> sub p. open_edges p C x = 0} \<inter> {c \<in> set (kids p n) \<inter> sub p. open_edges p (insert n C) c = 0} = {}"
  using open_edges_insert [OF assms] by (auto simp: count_list_0_iff)

section \<open>The cascade\<close>

abbreviation promoted :: "dispatch \<Rightarrow> 'v cascade \<Rightarrow> nat set" where
  "promoted p s \<equiv> {n \<in> sub p. status (c_nodes s n) = Success}"

definition closed_under :: "dispatch \<Rightarrow> nat set \<Rightarrow> bool" where
  "closed_under p C \<longleftrightarrow> (\<forall>(m, n) \<in> edges p. n \<in> C \<longrightarrow> m \<in> C)"

definition cascade_inv :: "dispatch \<Rightarrow> 'v cascade \<Rightarrow> bool" where
  "cascade_inv p s \<longleftrightarrow>
     (\<forall>n \<in> sub p. status (c_nodes s n) \<in> {Pending, Success})
     \<and> (\<forall>c. c_ind s c = (if c \<in> sub p then Some (open_edges p (promoted p s) c) else None))
     \<and> distinct (c_queue s @ c_ready s)
     \<and> set (c_queue s @ c_ready s) = {n \<in> sub p. open_edges p (promoted p s) n = 0} - promoted p s
     \<and> closed_under p (promoted p s)
     \<and> (\<forall>n \<in> promoted p s. n_cache_hit (c_nodes s n)) \<and> (\<forall>n \<in> set (c_ready s). \<not> n_cache_hit (c_nodes s n))"

lemma edge_open: "finite (sub p) \<Longrightarrow> open_edges p C n = 0 \<Longrightarrow> (m, n) \<in> edges p \<Longrightarrow> m \<in> C"
  by (auto simp: edges_def open_edges_0)

lemma cascade_promote:
  assumes wf: "dispatch_wf p" and inv: "cascade_inv p s" and q: "c_queue s = n # q"
    and hit: "n_cache_hit (c_nodes s n)"
  shows "\<exists>ind q'. release (sub p) (kids p n) (c_ind s, q) = Some (ind, q')
    \<and> cascade_inv p (s\<lparr>c_queue := q', c_ind := ind, c_nodes := (c_nodes s)(n := set_success (c_nodes s n))\<rparr>)"
proof -
  let ?C = "promoted p s"
  have fin: "finite (sub p)" using wf by (simp add: dispatch_wf_def)
  from inv q have n: "n \<in> sub p - ?C" and on: "open_edges p ?C n = 0" by (auto simp: cascade_inv_def)
  from inv have ind: "\<And>c. c_ind s c = (if c \<in> sub p then Some (open_edges p ?C c) else None)"
    by (simp add: cascade_inv_def)
  from release_node [OF fin n ind, of q] obtain r where
    r: "release (sub p) (kids p n) (c_ind s, q) =
        Some (\<lambda>c. if c \<in> sub p then Some (open_edges p (insert n ?C) c) else None, q @ r)"
      "distinct r" "set r = {c \<in> set (kids p n) \<inter> sub p. open_edges p (insert n ?C) c = 0}" by blast
  let ?s = "s\<lparr>c_queue := q @ r, c_ind := \<lambda>c. if c \<in> sub p then Some (open_edges p (insert n ?C) c) else None,
      c_nodes := (c_nodes s)(n := set_success (c_nodes s n))\<rparr>"
  have C': "promoted p ?s = insert n ?C" using n by auto
  have fr: "set (n # q @ c_ready s) = {x \<in> sub p. open_edges p ?C x = 0} - ?C"
    using inv q by (simp add: cascade_inv_def)
  have dj: "set r \<inter> (set (n # q @ c_ready s) \<union> ?C) = {}"
  proof -
    have "x \<notin> ?C" if "x \<in> set r" for x
    proof
      assume "x \<in> ?C"
      moreover from that r(3) n have "(n, x) \<in> edges p" by (auto simp: edges_def)
      ultimately show False using inv n by (auto simp: cascade_inv_def closed_under_def)
    qed
    then show ?thesis using frontier_insert(2) [OF fin n] r(3) fr by blast
  qed
  have "set (q @ r @ c_ready s) = {x \<in> sub p. open_edges p (insert n ?C) x = 0} - insert n ?C"
    using frontier_insert(1) [OF fin n] r(3) fr dj inv q by (auto simp: cascade_inv_def)
  moreover have "distinct (q @ r @ c_ready s)"
    using inv q r(2) dj by (auto simp: cascade_inv_def)
  moreover have "closed_under p (insert n ?C)"
    using inv edge_open [OF fin on] by (auto simp: cascade_inv_def closed_under_def)
  ultimately have "cascade_inv p ?s"
    using inv hit q unfolding cascade_inv_def C' by (auto simp: cascade_inv_def)
  with r(1) show ?thesis by blast
qed

lemma cascade_park:
  assumes "cascade_inv p s" and "c_queue s = n # q" and "\<not> n_cache_hit (c_nodes s n)"
  shows "cascade_inv p (s\<lparr>c_queue := q, c_ready := c_ready s @ [n]\<rparr>)"
  using assms by (auto simp: cascade_inv_def)

lemma cascade_terminates:
  assumes wf: "dispatch_wf p"
  shows "cascade_inv p s \<Longrightarrow> card (sub p - promoted p s - set (c_ready s)) \<le> f \<Longrightarrow>
    \<exists>s'. cascade_loop f p s = Some (Ok s') \<and> cascade_inv p s' \<and> c_queue s' = []"
proof (induction f arbitrary: s)
  have fin: "finite (sub p)" using wf by (simp add: dispatch_wf_def)
  case 0
  then have "sub p - promoted p s - set (c_ready s) = {}" using fin by simp
  moreover have "set (c_queue s) \<subseteq> sub p - promoted p s - set (c_ready s)"
    using 0(1) by (auto simp: cascade_inv_def)
  ultimately have "set (c_queue s) \<subseteq> {}" by blast
  then have "c_queue s = []" by simp
  with 0 show ?case by simp
next
  have fin: "finite (sub p)" using wf by (simp add: dispatch_wf_def)
  case (Suc f)
  show ?case
  proof (cases "c_queue s")
    case Nil
    with Suc.prems show ?thesis by simp
  next
    case (Cons n q)
    have n: "n \<in> sub p - promoted p s - set (c_ready s)"
      using Suc.prems(1) Cons by (auto simp: cascade_inv_def)
    have less: "card (A - {n}) \<le> f" if "A = sub p - promoted p s - set (c_ready s)" for A
      using that n Suc.prems(2) fin by simp
    show ?thesis
    proof (cases "n_cache_hit (c_nodes s n)")
      case True
      from cascade_promote [OF wf Suc.prems(1) Cons True] obtain ind q' where
        r: "release (sub p) (kids p n) (c_ind s, q) = Some (ind, q')" and
        i: "cascade_inv p (s\<lparr>c_queue := q', c_ind := ind, c_nodes := (c_nodes s)(n := set_success (c_nodes s n))\<rparr>)"
          (is "cascade_inv p ?s") by blast
      have "sub p - promoted p ?s - set (c_ready ?s) = sub p - promoted p s - set (c_ready s) - {n}"
        using n by auto
      then have "card (sub p - promoted p ?s - set (c_ready ?s)) \<le> f" using less by simp
      from Suc.IH [OF i this] show ?thesis using Cons True r by simp
    next
      case False
      let ?s = "s\<lparr>c_queue := q, c_ready := c_ready s @ [n]\<rparr>"
      have "sub p - promoted p ?s - set (c_ready ?s) = sub p - promoted p s - set (c_ready s) - {n}" by auto
      then have "card (sub p - promoted p ?s - set (c_ready ?s)) \<le> f" using less by simp
      from Suc.IH [OF cascade_park [OF Suc.prems(1) Cons False] this] show ?thesis
        using Cons False by simp
    qed
  qed
qed

lemma cascade_fuel: "cascade_loop f p s = Some r \<Longrightarrow> f \<le> g \<Longrightarrow> cascade_loop g p s = Some r"
proof (induction f arbitrary: g s)
  case 0
  then show ?case by (cases g) (auto split: if_splits)
next
  case (Suc f)
  then obtain h where "g = Suc h" "f \<le> h" by (cases g) auto
  with Suc show ?case by (auto split: list.splits if_splits option.splits)
qed

lemma cascade_init_inv:
  assumes "dispatch_wf p" and "\<forall>n \<in> sub p. status (ns n) = Pending"
    and "distinct order" and "set order = sub p"
  shows "cascade_inv p (cascade_init p order ns)"
proof -
  have "{n \<in> sub p. status (ns n) = Success} = {}" using assms(2) by auto
  then have "promoted p (cascade_init p order ns) = {}" by (simp add: cascade_init_def)
  then show ?thesis
    unfolding cascade_inv_def using assms
    by (simp only:) (auto simp: cascade_init_def dispatch_wf_def closed_under_def)
qed

lemma run_starts_cascade:
  assumes "dispatch_wf p" and "\<forall>n \<in> sub p. status (ns n) = Pending"
    and "distinct order" and "set order = sub p" and "run_starts p ns order s"
  shows "\<exists>c canc. s = run_init p c canc \<and> cascade_inv p c \<and> c_queue c = []"
proof -
  from assms(5) obtain f c canc where s: "s = run_init p c canc"
    and f: "cascade_loop f p (cascade_init p order ns) = Some (Ok c)" by (cases rule: run_starts.cases)
  let ?i = "cascade_init p order ns"
  let ?g = "card (sub p - promoted p ?i - set (c_ready ?i))"
  from cascade_terminates [OF assms(1) cascade_init_inv [OF assms(1-4)] order_refl] obtain c' where
    c': "cascade_loop ?g p ?i = Some (Ok c')" "cascade_inv p c'" "c_queue c' = []" by blast
  from cascade_fuel [OF f, of "max f ?g"] cascade_fuel [OF c'(1), of "max f ?g"] have "c = c'" by simp
  with s c' show ?thesis by blast
qed

section \<open>The driver loop keeps the invariant\<close>

lemma upd_node_simps [simp]:
  "nodes (upd_node n f s) = (nodes s)(n := f (nodes s n))"
  "indegree (upd_node n f s) = indegree s" "ready (upd_node n f s) = ready s" "work_q (upd_node n f s) = work_q s"
  "executing (upd_node n f s) = executing s" "done_q (upd_node n f s) = done_q s"
  "workers (upd_node n f s) = workers s" "worker_errs (upd_node n f s) = worker_errs s"
  "inflight (upd_node n f s) = inflight s" "failed (upd_node n f s) = failed s"
  "first_error (upd_node n f s) = first_error s" "cancelled (upd_node n f s) = cancelled s"
  "phase (upd_node n f s) = phase s"
  by (simp_all add: upd_node_def)

lemma run_invI:
  "counted p C s \<Longrightarrow> queued p C L s \<Longrightarrow> ordered p s \<Longrightarrow> latched p s \<Longrightarrow> bounded p L s \<Longrightarrow> phase_ok p s \<Longrightarrow> run_inv p s"
  unfolding run_inv_def by blast

lemma run_invE:
  assumes "run_inv p s"
  obtains C L where "counted p C s" "queued p C L s" "ordered p s" "latched p s" "bounded p L s" "phase_ok p s"
  using assms unfolding run_inv_def by blast

lemma init_inv:
  assumes "dispatch_wf p" and "\<forall>n \<in> sub p. status (ns n) = Pending"
    and "distinct order" and "set order = sub p" and "run_starts p ns order s"
  shows "run_inv p s"
proof -
  from run_starts_cascade [OF assms] obtain c canc where s: "s = run_init p c canc"
    and c: "cascade_inv p c" "c_queue c = []" by blast
  have sts: "{n \<in> sub p. status (c_nodes c n) = Running} = {}" "{n \<in> sub p. status (c_nodes c n) = Failed} = {}"
    "{n \<in> sub p. status (c_nodes c n) = Pending} = sub p - promoted p c"
    using c(1) by (fastforce simp: cascade_inv_def)+
  have "counted p (promoted p c) s"
    using c(1) by (simp add: counted_def s run_init_def cascade_inv_def)
  moreover have "queued p (promoted p c) [] s"
  proof -
    have "set (c_ready c) = {n \<in> sub p. open_edges p (promoted p c) n = 0} - promoted p c" and "distinct (c_ready c)"
      using c by (simp_all add: cascade_inv_def)
    moreover have "{n \<in> {n \<in> sub p. status (c_nodes c n) = Pending}. open_edges p (promoted p c) n = 0}
        = {n \<in> sub p. open_edges p (promoted p c) n = 0} - promoted p c"
      unfolding sts(3) by blast
    ultimately have "set (c_ready c) = {n \<in> {n \<in> sub p. status (c_nodes c n) = Pending}. open_edges p (promoted p c) n = 0}"
      and "distinct (c_ready c)" by (simp_all only:)
    then show ?thesis using sts(1) by (auto simp: queued_def s run_init_def flight_def)
  qed
  moreover have "ordered p s"
  proof -
    have "status (c_nodes c m) = Success" if e: "(m, n) \<in> edges p" and "status (c_nodes c n) \<noteq> Pending" for m n
    proof -
      have "n \<in> promoted p c" using that c(1) by (auto simp: cascade_inv_def edges_def)
      then have "m \<in> promoted p c" using e c(1) by (auto simp: cascade_inv_def closed_under_def)
      then show ?thesis by simp
    qed
    then show ?thesis by (auto simp: ordered_def s run_init_def)
  qed
  moreover have "latched p s" "bounded p [] s" "phase_ok p s"
    using sts by (simp_all add: latched_def bounded_def phase_ok_def s run_init_def flight_def)
  ultimately show ?thesis by (rule run_invI)
qed

text \<open>A node that leaves \<open>Pending\<close> on dispatch: all its dependencies have succeeded.\<close>

lemma ready_deps:
  assumes "dispatch_wf p" and "counted p C s" and "queued p C L s" and "n \<in> set (ready s)" and "(m, n) \<in> edges p"
  shows "status (nodes s m) = Success"
proof -
  have "open_edges p C n = 0" using assms(3,4) by (auto simp: queued_def)
  with assms(1,5) have "m \<in> C" by (auto intro: edge_open simp: dispatch_wf_def)
  with assms(2) show ?thesis by (auto simp: counted_def)
qed

lemma ordered_running:
  assumes "ordered p s" and "\<And>m. m \<noteq> n \<Longrightarrow> status (nodes t m) = status (nodes s m)" and "status (nodes s n) = Pending"
    and "\<And>m. (m, n) \<in> edges p \<Longrightarrow> status (nodes s m) = Success"
  shows "ordered p t"
proof -
  have "status (nodes t m) = Success" if e: "(m, c) \<in> edges p" and c: "status (nodes t c) \<noteq> Pending" for m c
  proof -
    have "status (nodes s m) = Success"
    proof (cases "c = n")
      case False
      with c assms(2) have "status (nodes s c) \<noteq> Pending" by simp
      with e assms(1) show ?thesis by (auto simp: ordered_def)
    qed (use e assms(4) in simp)
    with assms(2,3) show ?thesis by (cases "m = n") auto
  qed
  then show ?thesis by (auto simp only: ordered_def)
qed

lemma step_dispatch:
  assumes wf: "dispatch_wf p" and inv: "run_inv p s" and ph: "phase s = Driving" and cd: "can_dispatch p s"
  shows "run_inv p (upd_node (hd (ready s)) set_running s
      \<lparr>ready := tl (ready s), work_q := work_q s @ [hd (ready s)], inflight := inflight s + 1\<rparr>)"
    (is "run_inv p ?t") and "length (work_q s) < batch p"
proof -
  from inv obtain C L where i: "counted p C s" "queued p C L s" "ordered p s" "latched p s" "bounded p L s"
    by (rule run_invE)
  from cd obtain n r where r: "ready s = n # r" by (auto simp: can_dispatch_def neq_Nil_conv)
  have n: "n \<in> in_status p s Pending" using i(2) r by (auto simp: queued_def)
  have sts: "in_status p ?t Success = in_status p s Success" "in_status p ?t Failed = in_status p s Failed"
    "in_status p ?t Running = insert n (in_status p s Running)" "in_status p ?t Pending = in_status p s Pending - {n}"
    using n r by auto
  have d: "distinct (ready ?t @ flight L ?t)"
  proof -
    have "mset (ready ?t @ flight L ?t) = mset (ready s @ flight L s)" by (simp add: flight_def r)
    then have "distinct (ready ?t @ flight L ?t) = distinct (ready s @ flight L s)"
      by (rule mset_eq_imp_distinct_iff)
    then show ?thesis using i(2) by (simp only: queued_def)
  qed
  have "counted p C ?t" using i(1) sts by (simp add: counted_def)
  moreover have "queued p C L ?t"
  proof -
    have 1: "set (flight L ?t) = in_status p ?t Running"
      using i(2) sts(3) by (simp add: queued_def flight_def r)
    have 2: "set (ready ?t) = set (ready s) - {n}"
      using i(2) r by (auto simp: queued_def)
    have 3: "{x \<in> in_status p ?t Pending. open_edges p C x = 0} = {x \<in> in_status p s Pending. open_edges p C x = 0} - {n}"
      using sts(4) by blast
    have "failed ?t = failed s" "cancelled ?t = cancelled s" by simp_all
    with i(2) d 1 show ?thesis by (simp only: queued_def 2 3) blast
  qed
  moreover have "ordered p ?t"
    by (rule ordered_running [OF i(3), of n]) (use n r ready_deps [OF wf i(1,2), of n] in auto)
  moreover have "latched p ?t"
  proof -
    have "failed ?t = failed s" "first_error ?t = first_error s" by simp_all
    with i(4) show ?thesis by (simp only: latched_def sts(2)) blast
  qed
  moreover have "bounded p L ?t"
    using i(5) cd by (simp add: bounded_def flight_def  can_dispatch_def)
  moreover have "phase_ok p ?t" by (simp add: phase_ok_def  ph)
  ultimately show "run_inv p ?t" by (rule run_invI)
  show "length (work_q s) < batch p"
    using i(5) cd by (simp add: bounded_def flight_def can_dispatch_def)
qed

text \<open>A reported item leaves the flight with a final status.\<close>

lemma receive_facts:
  assumes i: "queued p C L s" "bounded p L s" and d: "done_q s = (n, res) # q"
  shows "n \<in> in_status p s Running" and "n \<notin> set (flight L (s\<lparr>done_q := q\<rparr>))"
    and "set (flight L (s\<lparr>done_q := q\<rparr>)) = in_status p s Running - {n}"
    and "distinct (ready s @ flight L (s\<lparr>done_q := q\<rparr>))"
    and "inflight s - 1 = length (flight L (s\<lparr>done_q := q\<rparr>))"
proof -
  have run: "set (flight L s) = in_status p s Running" and dis: "distinct (ready s @ flight L s)"
    using i(1) by (simp_all only: queued_def)
  have fl: "set (flight L s) = insert n (set (flight L (s\<lparr>done_q := q\<rparr>)))" by (auto simp: flight_def d)
  show nn: "n \<notin> set (flight L (s\<lparr>done_q := q\<rparr>))" using dis by (auto simp: flight_def d)
  show "n \<in> in_status p s Running" using fl run by blast
  show "set (flight L (s\<lparr>done_q := q\<rparr>)) = in_status p s Running - {n}" using fl run nn by blast
  show "distinct (ready s @ flight L (s\<lparr>done_q := q\<rparr>))" using dis by (auto simp: flight_def d)
  show "inflight s - 1 = length (flight L (s\<lparr>done_q := q\<rparr>))"
    using i(2) by (simp add: bounded_def flight_def d)
qed

lemma flight_cong:
  "work_q t = work_q s \<Longrightarrow> executing t = executing s \<Longrightarrow> done_q t = done_q s \<Longrightarrow> flight L t = flight L s"
  by (simp add: flight_def)

lemma bounded_receive:
  assumes "bounded p L s" and "done_q s = (n, res) # q"
    and "work_q t = work_q s" "executing t = executing s" "done_q t = q" "inflight t = inflight s - 1"
    "workers t = workers s" "worker_errs t = worker_errs s"
  shows "bounded p L t"
  using assms by (simp add: bounded_def flight_def)

lemma step_receive_failed:
  assumes inv: "run_inv p s" and d: "done_q s = (n, Inl e) # q"
  shows "run_inv p (on_done p n (Inl e) (s\<lparr>done_q := q\<rparr>))" (is "run_inv p ?t")
proof -
  from inv obtain C L where i: "counted p C s" "queued p C L s" "ordered p s" "latched p s" "bounded p L s"
    by (rule run_invE)
  note f = receive_facts [OF i(2,5) d]
  have t: "?t = upd_node n set_failed (s\<lparr>done_q := q\<rparr>)\<lparr>inflight := inflight s - 1, failed := True, ready := [],
      first_error := (case first_error s of None \<Rightarrow> Some e | Some x \<Rightarrow> Some x), phase := Received\<rparr>"
    by (simp add: on_done_def)
  have sts: "in_status p ?t Success = in_status p s Success" "in_status p ?t Failed = insert n (in_status p s Failed)"
    "in_status p ?t Running = in_status p s Running - {n}"
    using f(1) by (auto simp: t)
  have fl: "flight L ?t = flight L (s\<lparr>done_q := q\<rparr>)" by (rule flight_cong) (simp_all add: t)
  have fe: "failed ?t" "ready ?t = []" "first_error ?t \<noteq> None" "indegree ?t = indegree s" "phase ?t = Received"
    by (auto simp: t split: option.split)
  have "counted p C ?t" using i(1) by (simp only: counted_def sts(1) fe simp_thms)
  moreover have "queued p C L ?t" using f(3,4) by (simp only: queued_def fl sts(3) fe simp_thms) simp
  moreover have "ordered p ?t"
    using i(3) f(1) unfolding ordered_def by (fastforce simp: t split: if_splits)
  moreover have "latched p ?t" using sts(2) fe by (simp only: latched_def) blast
  moreover have "bounded p L ?t" by (rule bounded_receive [OF i(5) d]) (simp_all add: t)
  moreover have "phase_ok p ?t" by (simp add: phase_ok_def fe)
  ultimately show ?thesis by (rule run_invI)
qed

lemma ordered_success:
  assumes "ordered p s" and "nodes t = (nodes s)(n := set_success (nodes s n))" and "status (nodes s n) \<noteq> Pending"
  shows "ordered p t"
  using assms by (auto simp: ordered_def)

lemma step_receive_suppressed:
  assumes inv: "run_inv p s" and d: "done_q s = (n, Inr ()) # q" and sup: "failed s \<or> cancelled s"
  shows "run_inv p (on_done p n (Inr ()) (s\<lparr>done_q := q\<rparr>))" (is "run_inv p ?t")
proof -
  from inv obtain C L where i: "counted p C s" "queued p C L s" "ordered p s" "latched p s" "bounded p L s"
    by (rule run_invE)
  note f = receive_facts [OF i(2,5) d]
  have t: "?t = upd_node n set_success (s\<lparr>done_q := q\<rparr>)\<lparr>inflight := inflight s - 1, phase := Received\<rparr>"
    using sup by (auto simp: on_done_def)
  have sts: "in_status p ?t Success = insert n (in_status p s Success)" "in_status p ?t Failed = in_status p s Failed"
    "in_status p ?t Running = in_status p s Running - {n}" "in_status p ?t Pending = in_status p s Pending"
    using f(1) by (auto simp: t)
  have fl: "flight L ?t = flight L (s\<lparr>done_q := q\<rparr>)" by (rule flight_cong) (simp_all add: t)
  have fe: "failed ?t = failed s" "cancelled ?t = cancelled s" "ready ?t = ready s"
    "first_error ?t = first_error s" "indegree ?t = indegree s" "phase ?t = Received"
    by (simp_all add: t)
  have "counted p C ?t" using i(1) sup by (simp only: counted_def sts(1) fe) blast
  moreover have "queued p C L ?t" using i(2) f(3,4) by (simp only: queued_def fl sts(3,4) fe simp_thms) blast
  moreover have "ordered p ?t" by (rule ordered_success [OF i(3), of _ n]) (use f(1) in \<open>auto simp: t\<close>)
  moreover have "latched p ?t" using i(4) by (simp only: latched_def sts(2) fe) blast
  moreover have "bounded p L ?t" by (rule bounded_receive [OF i(5) d]) (simp_all add: t)
  moreover have "phase_ok p ?t" by (simp add: phase_ok_def fe)
  ultimately show ?thesis by (rule run_invI)
qed

lemma step_receive_success:
  assumes wf: "dispatch_wf p" and inv: "run_inv p s" and d: "done_q s = (n, Inr ()) # q"
    and nf: "\<not> failed s" "\<not> cancelled s"
  shows "run_inv p (on_done p n (Inr ()) (s\<lparr>done_q := q\<rparr>))" (is "run_inv p ?t")
proof -
  have fin: "finite (sub p)" using wf by (simp add: dispatch_wf_def)
  from inv obtain C L where i: "counted p C s" "queued p C L s" "ordered p s" "latched p s" "bounded p L s"
    by (rule run_invE)
  note f = receive_facts [OF i(2,5) d]
  have C: "C = in_status p s Success" and ind: "\<And>c. indegree s c = (if c \<in> sub p then Some (open_edges p C c) else None)"
    using i(1) nf by (simp_all only: counted_def simp_thms)
  have n: "n \<in> sub p - C" using f(1) C by auto
  from release_node [OF fin n ind, of "ready s"] obtain r where
    r: "release (sub p) (kids p n) (indegree s, ready s) =
        Some (\<lambda>c. if c \<in> sub p then Some (open_edges p (insert n C) c) else None, ready s @ r)"
      "distinct r" "set r = {c \<in> set (kids p n) \<inter> sub p. open_edges p (insert n C) c = 0}" by blast
  have t: "?t = upd_node n set_success (s\<lparr>done_q := q\<rparr>)\<lparr>inflight := inflight s - 1,
      indegree := \<lambda>c. if c \<in> sub p then Some (open_edges p (insert n C) c) else None,
      ready := ready s @ r, phase := Received\<rparr>"
    using nf r(1) by (simp add: on_done_def Let_def)
  have sts: "in_status p ?t Success = insert n (in_status p s Success)" "in_status p ?t Failed = in_status p s Failed"
    "in_status p ?t Running = in_status p s Running - {n}" "in_status p ?t Pending = in_status p s Pending"
    using f(1) by (auto simp: t)
  have fl: "flight L ?t = flight L (s\<lparr>done_q := q\<rparr>)" by (rule flight_cong) (simp_all add: t)
  have fe: "failed ?t = failed s" "cancelled ?t = cancelled s" "ready ?t = ready s @ r"
    "first_error ?t = first_error s" "phase ?t = Received"
    "\<And>c. indegree ?t c = (if c \<in> sub p then Some (open_edges p (insert n C) c) else None)"
    by (simp_all add: t)
  have pend: "set r \<subseteq> in_status p s Pending"
  proof
    fix c assume "c \<in> set r"
    with r(3) n have e: "(n, c) \<in> edges p" and "c \<in> sub p" by (auto simp: edges_def)
    moreover from f(1) have "status (nodes s n) \<noteq> Success" by auto
    ultimately show "c \<in> in_status p s Pending" using i(3) by (auto simp: ordered_def)
  qed
  have rdy: "set (ready s) = {x \<in> in_status p s Pending. open_edges p C x = 0}"
    using i(2) nf by (simp only: queued_def simp_thms) blast
  have rdy': "set (ready s @ r) = {x \<in> in_status p s Pending. open_edges p (insert n C) x = 0}"
    using frontier_insert(1) [OF fin n] rdy pend r(3) unfolding set_append by blast
  have dis: "distinct (ready s @ r @ flight L (s\<lparr>done_q := q\<rparr>))"
  proof -
    have "set r \<inter> set (ready s) = {}" using frontier_insert(2) [OF fin n] rdy r(3) by blast
    moreover have "set r \<inter> set (flight L (s\<lparr>done_q := q\<rparr>)) = {}" using pend f(3) by auto
    ultimately show ?thesis using f(4) r(2) by auto
  qed
  have "counted p (insert n C) ?t" using C by (simp only: counted_def sts(1) fe simp_thms order_refl)
  moreover have "queued p (insert n C) L ?t"
    using f(3) dis rdy' by (simp only: queued_def fl sts(3,4) fe append_assoc simp_thms order_refl)
  moreover have "ordered p ?t" by (rule ordered_success [OF i(3), of _ n]) (use f(1) in \<open>auto simp: t\<close>)
  moreover have "latched p ?t" using i(4) by (simp only: latched_def sts(2) fe) blast
  moreover have "bounded p L ?t" by (rule bounded_receive [OF i(5) d]) (simp_all add: t)
  moreover have "phase_ok p ?t" by (simp add: phase_ok_def fe)
  ultimately show ?thesis by (rule run_invI)
qed

text \<open>Steps that only move items through the channels.\<close>

lemma counted_cong:
  "nodes t = nodes s \<Longrightarrow> indegree t = indegree s \<Longrightarrow> failed s \<or> cancelled s \<longrightarrow> failed t \<or> cancelled t \<Longrightarrow>
   counted p C s \<Longrightarrow> counted p C t"
  unfolding counted_def by (simp only:) blast

lemma queued_cong:
  assumes "nodes t = nodes s" and "ready t = ready s \<or> (ready t = [] \<and> (failed t \<or> cancelled t))"
    and "failed s \<or> cancelled s \<longrightarrow> failed t \<or> cancelled t" and "mset (flight K t) = mset (flight L s)" and "queued p C L s"
  shows "queued p C K t"
proof -
  have set: "set (flight K t) = set (flight L s)" using assms(4) by (metis set_mset_mset)
  have "distinct (flight K t) = distinct (flight L s)" using assms(4) by (rule mset_eq_imp_distinct_iff)
  with assms(2,5) set have "distinct (ready t @ flight K t)" by (auto simp: queued_def)
  with assms set show ?thesis unfolding queued_def by (simp only:) auto
qed

lemma frame_ordered: "nodes t = nodes s \<Longrightarrow> ordered p s \<Longrightarrow> ordered p t"
  by (simp add: ordered_def)

lemma frame_latched:
  "nodes t = nodes s \<Longrightarrow> failed t = failed s \<Longrightarrow> first_error t = first_error s \<Longrightarrow> latched p s \<Longrightarrow> latched p t"
  by (simp only: latched_def) blast

lemma frame_inv:
  assumes inv: "run_inv p s" and eq: "nodes t = nodes s" "indegree t = indegree s" "failed t = failed s"
      "first_error t = first_error s" "cancelled s \<longrightarrow> cancelled t"
    and rdy: "ready t = ready s \<or> (ready t = [] \<and> cancelled t)"
    and fl: "\<And>C L. queued p C L s \<Longrightarrow> bounded p L s \<Longrightarrow> phase_ok p s \<Longrightarrow> \<exists>K. mset (flight K t) = mset (flight L s) \<and> bounded p K t"
    and ph: "phase_ok p t"
  shows "run_inv p t"
proof -
  from inv obtain C L where i: "counted p C s" "queued p C L s" "ordered p s" "latched p s" "bounded p L s" "phase_ok p s"
    by (rule run_invE)
  from fl [OF i(2,5,6)] obtain K where K: "mset (flight K t) = mset (flight L s)" "bounded p K t" by blast
  have "counted p C t" using counted_cong [OF eq(1,2) _ i(1)] eq(3,5) by blast
  moreover have "queued p C K t" using queued_cong [OF eq(1) _ _ K(1) i(2)] rdy eq(3,5) by blast
  moreover have "ordered p t" "latched p t"
    using frame_ordered [OF eq(1) i(3)] frame_latched [OF eq(1,3,4) i(4)] by blast+
  moreover note K(2) ph
  ultimately show ?thesis by (rule run_invI)
qed

lemma all_success:
  assumes wf: "dispatch_wf p" and inv: "run_inv p s"
    and quiet: "inflight s = 0" "ready s = []" "\<not> failed s" "\<not> cancelled s"
  shows "in_status p s Success = sub p"
proof -
  from inv obtain C L where i: "counted p C s" "queued p C L s" "latched p s" "bounded p L s" by (rule run_invE)
  have C: "C = in_status p s Success" using i(1) quiet by (simp only: counted_def simp_thms)
  have run: "in_status p s Running = {}" using i(2,4) quiet by (simp add: queued_def bounded_def)
  have pend: "{n \<in> in_status p s Pending. open_edges p C n = 0} = {}"
    using i(2) quiet by (simp only: queued_def simp_thms) simp
  have bad: "in_status p s Failed = {}" using i(3) quiet by (simp only: latched_def simp_thms)
  have fin: "finite (sub p)" and "acyclic (edges p)" using wf by (simp_all add: dispatch_wf_def)
  moreover have "edges p \<subseteq> sub p \<times> sub p" by (auto simp: edges_def)
  ultimately have "wf (edges p)" using finite_acyclic_wf finite_subset by blast
  then have "n \<in> sub p \<longrightarrow> status (nodes s n) = Success" for n
  proof (induction n rule: wf_induct_rule)
    case (less n)
    show ?case
    proof
      assume n: "n \<in> sub p"
      have "open_edges p C n = 0"
        unfolding open_edges_0 [OF fin] C using less n by (auto simp: edges_def)
      with n pend run bad show "status (nodes s n) = Success" by (cases "status (nodes s n)") auto
    qed
  qed
  then show ?thesis by blast
qed

lemma result_ok_frame: "result_ok p (s\<lparr>phase := x\<rparr>) r = result_ok p s r"
  by (simp add: result_ok_def split: sum.split fault.split)

lemma driver_phases_inv:
  assumes wf: "dispatch_wf p" and inv: "run_inv p s"
  shows "\<not> can_dispatch p s \<Longrightarrow> inflight s = 0 \<Longrightarrow> run_inv p (s\<lparr>phase := Draining\<rparr>)"
    and "inflight s \<noteq> 0 \<Longrightarrow> run_inv p (s\<lparr>phase := Waiting\<rparr>)"
    and "workers s = 0 \<Longrightarrow> run_inv p (s\<lparr>phase := Returned (Fail Infallable)\<rparr>)"
    and "run_inv p (s\<lparr>ready := (if cancelled s then [] else ready s), phase := Driving\<rparr>)"
    and "phase s = Draining \<Longrightarrow> run_inv p (s\<lparr>phase := Returned (final_result s)\<rparr>)"
proof -
  have fl: "\<exists>K. mset (flight K (s\<lparr>ready := y, phase := x\<rparr>)) = mset (flight L s) \<and> bounded p K (s\<lparr>ready := y, phase := x\<rparr>)"
    if "bounded p L s" for L x y
    using that by (intro exI [of _ L]) (simp add: flight_def bounded_def)
  have fl': "\<exists>K. mset (flight K (s\<lparr>phase := x\<rparr>)) = mset (flight L s) \<and> bounded p K (s\<lparr>phase := x\<rparr>)"
    if "bounded p L s" for L x
    using that by (intro exI [of _ L]) (simp add: flight_def bounded_def)
  have pos: "0 < batch p" using wf by (simp add: dispatch_wf_def)
  show "\<not> can_dispatch p s \<Longrightarrow> inflight s = 0 \<Longrightarrow> run_inv p (s\<lparr>phase := Draining\<rparr>)"
    by (rule frame_inv [OF inv]) (use fl' pos in \<open>auto simp: phase_ok_def can_dispatch_def\<close>)
  show "inflight s \<noteq> 0 \<Longrightarrow> run_inv p (s\<lparr>phase := Waiting\<rparr>)"
    by (rule frame_inv [OF inv]) (use fl' in \<open>auto simp: phase_ok_def\<close>)
  show "workers s = 0 \<Longrightarrow> run_inv p (s\<lparr>phase := Returned (Fail Infallable)\<rparr>)"
    by (rule frame_inv [OF inv]) (use fl' in \<open>auto simp: phase_ok_def result_ok_def\<close>)
  show "run_inv p (s\<lparr>ready := (if cancelled s then [] else ready s), phase := Driving\<rparr>)"
    by (rule frame_inv [OF inv]) (use fl in \<open>auto simp: phase_ok_def\<close>)
  show "run_inv p (s\<lparr>phase := Returned (final_result s)\<rparr>)" if "phase s = Draining"
  proof (rule frame_inv [OF inv])
    from inv have ph: "phase_ok p s" and lt: "latched p s" by (auto elim: run_invE)
    have quiet: "inflight s = 0" "ready s = [] \<or> failed s \<or> cancelled s"
      using ph that by (simp_all add: phase_ok_def)
    have "result_ok p s (final_result s)"
    proof (cases "first_error s")
      case None
      then have "\<not> failed s" using lt unfolding latched_def by blast
      then have "\<not> cancelled s \<Longrightarrow> in_status p s Success = sub p"
        using all_success [OF wf inv quiet(1)] quiet(2) by blast
      then show ?thesis using None by (auto simp only: result_ok_def final_result_def option.case sum.case
            fault.case if_True if_False split: if_split)
    next
      case (Some e)
      then show ?thesis by (simp add: result_ok_def final_result_def)
    qed
    then show "phase_ok p (s\<lparr>phase := Returned (final_result s)\<rparr>)"
      by (simp add: phase_ok_def result_ok_frame)
  qed (use fl' in auto)
qed

lemma worker_inv:
  assumes inv: "run_inv p s" and act: "active s"
  shows "work_q s = n # q \<Longrightarrow> length (executing s) < workers s \<Longrightarrow>
      run_inv p (s\<lparr>work_q := q, executing := executing s @ [n]\<rparr>)"
    and "executing s = xs @ n # ys \<Longrightarrow> run_inv p (s\<lparr>executing := xs @ ys, done_q := done_q s @ [(n, res)]\<rparr>)"
    and "executing s = xs @ n # ys \<Longrightarrow>
      run_inv p (s\<lparr>executing := xs @ ys, workers := workers s - 1, worker_errs := e # worker_errs s\<rparr>)"
    and "run_inv p (s\<lparr>cancelled := True\<rparr>)"
proof -
  have ph: "phase_ok p s" using inv by (auto elim: run_invE)
  have ph': "phase_ok p t" if "phase t = phase s" "inflight t = inflight s" "ready t = ready s" "failed t = failed s"
    "cancelled s \<longrightarrow> cancelled t" for t :: "'a run_state"
    using ph act that by (auto simp: phase_ok_def active_def split: phase.splits)
  show "run_inv p (s\<lparr>work_q := q, executing := executing s @ [n]\<rparr>)"
    if "work_q s = n # q" "length (executing s) < workers s"
  proof (rule frame_inv [OF inv])
    show "\<exists>K. mset (flight K (s\<lparr>work_q := q, executing := executing s @ [n]\<rparr>)) = mset (flight L s)
        \<and> bounded p K (s\<lparr>work_q := q, executing := executing s @ [n]\<rparr>)" if "bounded p L s" for L
      using that \<open>work_q s = n # q\<close> \<open>length (executing s) < workers s\<close>
      by (intro exI [of _ L]) (simp add: flight_def bounded_def)
  qed (auto intro: ph')
  show "run_inv p (s\<lparr>executing := xs @ ys, done_q := done_q s @ [(n, res)]\<rparr>)" if "executing s = xs @ n # ys"
  proof (rule frame_inv [OF inv])
    show "\<exists>K. mset (flight K (s\<lparr>executing := xs @ ys, done_q := done_q s @ [(n, res)]\<rparr>)) = mset (flight L s)
        \<and> bounded p K (s\<lparr>executing := xs @ ys, done_q := done_q s @ [(n, res)]\<rparr>)" if "bounded p L s" for L
      using that \<open>executing s = xs @ n # ys\<close> by (intro exI [of _ L]) (simp add: flight_def bounded_def)
  qed (auto intro: ph')
  show "run_inv p (s\<lparr>executing := xs @ ys, workers := workers s - 1, worker_errs := e # worker_errs s\<rparr>)"
    if "executing s = xs @ n # ys"
  proof (rule frame_inv [OF inv])
    show "\<exists>K. mset (flight K (s\<lparr>executing := xs @ ys, workers := workers s - 1, worker_errs := e # worker_errs s\<rparr>)) = mset (flight L s)
        \<and> bounded p K (s\<lparr>executing := xs @ ys, workers := workers s - 1, worker_errs := e # worker_errs s\<rparr>)"
      if "bounded p L s" for L
      using that \<open>executing s = xs @ n # ys\<close> by (intro exI [of _ "n # L"]) (auto simp: flight_def bounded_def)
  qed (auto intro: ph')
  show "run_inv p (s\<lparr>cancelled := True\<rparr>)"
  proof (rule frame_inv [OF inv])
    show "\<exists>K. mset (flight K (s\<lparr>cancelled := True\<rparr>)) = mset (flight L s) \<and> bounded p K (s\<lparr>cancelled := True\<rparr>)"
      if "bounded p L s" for L
      using that by (intro exI [of _ L]) (simp add: flight_def bounded_def)
  qed (auto intro: ph')
qed

lemma drained_joins:
  assumes "run_inv p s" and "phase s = Draining"
  shows "work_q s = []" and "executing s = []" and "worker_errs s = []"
  using assms by (auto elim!: run_invE simp: bounded_def flight_def phase_ok_def)

lemma step_inv:
  assumes wf: "dispatch_wf p" and inv: "run_inv p s" and st: "run_step p s t"
  shows "run_inv p t"
  using st
proof cases
  case dispatch
  then show ?thesis using step_dispatch(1) [OF wf inv] by simp
next
  case dispatch_full
  then show ?thesis using step_dispatch(2) [OF wf inv] by simp
next
  case (receive n res q)
  then show ?thesis
    using step_receive_failed [OF inv] step_receive_suppressed [OF inv] step_receive_success [OF wf inv]
    by (cases res) (auto simp del: split_paired_All)
next
  case (finish_join e)
  then show ?thesis using drained_joins(3) [OF inv] by simp
next
  case (take n q)
  then show ?thesis using worker_inv(1) [OF inv] by simp
next
  case (report xs n ys res)
  then show ?thesis using worker_inv(2) [OF inv] by simp
next
  case (no_id xs n ys)
  then show ?thesis using worker_inv(3) [OF inv] by simp
next
  case (panic xs n ys)
  then show ?thesis using worker_inv(3) [OF inv] by simp
next
  case cancel
  then show ?thesis using worker_inv(4) [OF inv] by simp
qed (use driver_phases_inv [OF wf inv] in simp_all)

text \<open>The dispatcher as a transition system over its parameters: the run, the nodes it starts
  from and the hash map's iteration order.\<close>

type_synonym 'v run_params = "dispatch \<times> (nat \<Rightarrow> 'v node) \<times> nat list"

definition run_pre :: "'v run_params \<Rightarrow> bool" where
  "run_pre r = (case r of (p, ns, order) \<Rightarrow>
     dispatch_wf p \<and> (\<forall>n \<in> sub p. status (ns n) = Pending) \<and> distinct order \<and> set order = sub p)"

definition run_begin :: "'v run_params \<Rightarrow> 'v run_state \<Rightarrow> bool" where
  "run_begin r s = (case r of (p, ns, order) \<Rightarrow> run_starts p ns order s)"

interpretation scheduler: transition_system run_begin "\<lambda>r. run_step (fst r)" run_pre "\<lambda>r. run_inv (fst r)"
proof
  show "run_inv (fst r) s" if "run_pre r" "run_begin r s" for r :: "'a run_params" and s
    using that init_inv [of "fst r" "fst (snd r)" "snd (snd r)" s]
    by (simp add: run_pre_def run_begin_def split_def)
  show "run_inv (fst r) t" if "run_pre r" "run_inv (fst r) s" "run_step (fst r) s t" for r :: "'a run_params" and s t
    using that step_inv [of "fst r" s t] by (simp add: run_pre_def split_def)
qed

section \<open>Progress\<close>

text \<open>Every step brings the run closer to its end: a pending node counts for its dispatch,
  execution, report and receipt, and a cancellation happens once.\<close>

fun phase_rank :: "phase \<Rightarrow> nat" where
  "phase_rank Driving = 2"
| "phase_rank Waiting = 1"
| "phase_rank Received = 3"
| "phase_rank Draining = 1"
| "phase_rank (Returned _) = 0"

definition work_left :: "dispatch \<Rightarrow> 'v run_state \<Rightarrow> nat" where
  "work_left p s = 6 * card (in_status p s Pending) + 5 * length (work_q s) + 4 * length (executing s)
     + 3 * length (done_q s) + phase_rank (phase s) + (if cancelled s then 0 else 1)"

lemma on_done_simps:
  "work_q (on_done p n res s) = work_q s" "executing (on_done p n res s) = executing s"
  "done_q (on_done p n res s) = done_q s" "cancelled (on_done p n res s) = cancelled s"
  "phase_rank (phase (on_done p n res s)) \<le> 3"
  "status (nodes s n) \<noteq> Pending \<Longrightarrow> in_status p (on_done p n res s) Pending = in_status p s Pending"
  by (auto simp: on_done_def Let_def split: sum.split option.split)

lemma step_decreases:
  assumes wf: "dispatch_wf p" and inv: "run_inv p s" and st: "run_step p s t"
  shows "work_left p t < work_left p s"
  using st
proof cases
  case dispatch
  let ?n = "hd (ready s)"
  have "?n \<in> set (ready s)" using dispatch(3) by (simp add: can_dispatch_def)
  then have n: "?n \<in> in_status p s Pending" using inv by (auto elim!: run_invE simp: queued_def)
  have eq: "in_status p t Pending = in_status p s Pending - {?n}" by (auto simp: dispatch(1))
  have "finite (in_status p s Pending)" using wf by (simp add: dispatch_wf_def)
  from card_Suc_Diff1 [OF this n] have "Suc (card (in_status p t Pending)) = card (in_status p s Pending)"
    by (simp only: eq)
  then show ?thesis by (simp add: work_left_def dispatch(1))
next
  case dispatch_full
  then show ?thesis using step_dispatch(2) [OF wf inv] by simp
next
  case (receive n res q)
  from inv obtain C L where "queued p C L s" "bounded p L s" by (rule run_invE)
  from receive_facts(1) [OF this receive(3)] have "status (nodes (s\<lparr>done_q := q\<rparr>) n) \<noteq> Pending" by simp
  from on_done_simps(6) [OF this, of p res] on_done_simps(5) [of p n res "s\<lparr>done_q := q\<rparr>"]
  show ?thesis using receive by (simp add: work_left_def on_done_simps(1-4))
qed (simp_all add: work_left_def active_def split: phase.splits)

lemma no_endless_schedule:
  assumes wf: "dispatch_wf p" and inv: "run_inv p s"
  shows "\<not> (\<exists>f. f 0 = s \<and> (\<forall>i :: nat. run_step p (f i) (f (Suc i))))"
proof
  assume "\<exists>f. f 0 = s \<and> (\<forall>i :: nat. run_step p (f i) (f (Suc i)))"
  then obtain f where f: "f 0 = s" "\<And>i :: nat. run_step p (f i) (f (Suc i))" by blast
  have "run_inv p (f i) \<and> work_left p (f i) + i \<le> work_left p s" for i
  proof (induction i)
    case (Suc i)
    then show ?case using step_inv [OF wf _ f(2), of i] step_decreases [OF wf _ f(2), of i] by simp
  qed (simp add: f inv)
  from this [of "Suc (work_left p s)"] show False by simp
qed

text \<open>As long as no worker can end silently, some step is possible until the run returns.\<close>

lemma not_stuck:
  assumes wf: "dispatch_wf p" and inv: "run_inv p s" and act: "active s" and alive: "worker_errs s = []"
    and ids: "\<forall>n \<in> sub p. n_id (nodes s n) \<noteq> None"
  shows "\<exists>t. run_step p s t"
proof -
  from inv obtain C L where i: "queued p C L s" "bounded p L s" "phase_ok p s" by (rule run_invE)
  have L: "L = []" and w: "workers s = batch p" "0 < batch p" using i(2) alive wf by (auto simp: bounded_def dispatch_wf_def)
  show ?thesis
  proof (cases "phase s")
    case Driving
    then show ?thesis
      using run_step.dispatch run_step.dispatch_full run_step.drain run_step.wait by metis
  next
    case Waiting
    then have fl: "0 < length (flight [] s)" using i(2,3) by (simp add: phase_ok_def bounded_def L)
    show ?thesis
    proof (cases "executing s")
      case (Cons n ys)
      have "n \<in> sub p" using i(1) Cons by (auto simp: queued_def flight_def)
      with ids have id: "n_id (nodes s n) \<noteq> None" by blast
      have "length (done_q s) < batch p" using i(2) Cons by (simp add: bounded_def flight_def)
      moreover have "if known p n then n_id (nodes s n) \<noteq> None
          else (Inl (ProjectTransform (n_addr (nodes s n))) :: sched_error + unit)
             = Inl (ProjectTransform (n_addr (nodes s n)))" using id by simp
      ultimately show ?thesis using run_step.report [OF act, of "[]" n ys] Cons by (metis append_Nil)
    next
      case Nil
      show ?thesis
      proof (cases "work_q s")
        case (Cons n q)
        from run_step.take [OF act Cons] Nil w show ?thesis by auto
      next
        case Nil
        with fl \<open>executing s = []\<close> obtain n res q where "done_q s = (n, res) # q"
          by (cases "done_q s") (auto simp: flight_def)
        from run_step.receive [OF Waiting this] show ?thesis by blast
      qed
    qed
  next
    case Received
    then show ?thesis using run_step.received by blast
  next
    case Draining
    then show ?thesis using run_step.finish drained_joins [OF inv Draining] by blast
  next
    case (Returned r)
    with act show ?thesis by (simp add: active_def)
  qed
qed

text \<open>When every node has its identifier and no lifecycle panics, no worker ends early.\<close>

definition quiet_pre :: "'v run_params \<Rightarrow> bool" where
  "quiet_pre r \<longleftrightarrow> run_pre r \<and> (\<forall>n \<in> sub (fst r). \<not> may_panic (fst r) n \<and> n_id (fst (snd r) n) \<noteq> None)"

definition quiet_inv :: "'v run_params \<Rightarrow> 'v run_state \<Rightarrow> bool" where
  "quiet_inv r s \<longleftrightarrow> run_inv (fst r) s \<and> worker_errs s = [] \<and> (\<forall>n. n_id (nodes s n) = n_id (fst (snd r) n))"

lemma cascade_ids:
  "cascade_loop f p s = Some (Ok t) \<Longrightarrow>
   n_id (c_nodes t n) = n_id (c_nodes s n) \<and> n_cache_hit (c_nodes t n) = n_cache_hit (c_nodes s n)"
  by (induction f arbitrary: s) (auto split: if_splits list.splits option.splits prod.splits)

lemma on_done_frame:
  "n_id (nodes (on_done p n res s) m) = n_id (nodes s m)" "worker_errs (on_done p n res s) = worker_errs s"
  by (auto simp: on_done_def Let_def split: sum.split option.split)

lemma executing_sub: "run_inv p s \<Longrightarrow> executing s = xs @ n # ys \<Longrightarrow> n \<in> sub p"
  by (auto elim!: run_invE simp: queued_def flight_def)

lemma quiet_step:
  assumes pre: "quiet_pre r" and inv: "quiet_inv r s" and st: "run_step (fst r) s t"
  shows "worker_errs t = [] \<and> (\<forall>n. n_id (nodes t n) = n_id (fst (snd r) n))"
  using st
proof cases
  case (no_id xs n ys)
  then show ?thesis using pre inv executing_sub [of "fst r" s xs n ys] by (auto simp: quiet_pre_def quiet_inv_def)
next
  case (panic xs n ys)
  then show ?thesis using pre inv executing_sub [of "fst r" s xs n ys] by (auto simp: quiet_pre_def quiet_inv_def)
qed (use inv in \<open>auto simp: quiet_inv_def on_done_frame\<close>)

interpretation quiet_scheduler: transition_system run_begin "\<lambda>r. run_step (fst r)" quiet_pre quiet_inv
proof
  show "quiet_inv r s" if "quiet_pre r" "run_begin r s" for r :: "'a run_params" and s
  proof -
    from that have "run_pre r" by (simp add: quiet_pre_def)
    moreover have "worker_errs s = [] \<and> (\<forall>n. n_id (nodes s n) = n_id (fst (snd r) n))"
    proof -
      from that(2) obtain f c canc where s: "s = run_init (fst r) c canc"
        and c: "cascade_loop f (fst r) (cascade_init (fst r) (snd (snd r)) (fst (snd r))) = Some (Ok c)"
        by (auto simp: run_begin_def elim!: run_starts.cases)
      from cascade_ids [OF c] show ?thesis by (simp add: s run_init_def cascade_init_def)
    qed
    ultimately show ?thesis using scheduler.inv_init that(2) by (simp add: quiet_inv_def)
  qed
  show "quiet_inv r t" if "quiet_pre r" "quiet_inv r s" "run_step (fst r) s t" for r :: "'a run_params" and s t
    using quiet_step [OF that] scheduler.inv_step [of r s t] that by (simp add: quiet_pre_def quiet_inv_def)
qed

section \<open>Workers that are lost\<close>

text \<open>The nodes that can still end a worker, and how many workers have ended: every node is
  executed at most once, so no more workers end than there are such nodes.\<close>

definition may_lose :: "dispatch \<Rightarrow> nat set" where
  "may_lose p = {n \<in> sub p. may_panic p n}"

definition at_risk :: "dispatch \<Rightarrow> 'v run_state \<Rightarrow> nat set" where
  "at_risk p s = {n \<in> may_lose p. status (nodes s n) = Pending \<or> n \<in> set (work_q s @ executing s)}"

definition lossy_pre :: "'v run_params \<Rightarrow> bool" where
  "lossy_pre r \<longleftrightarrow> run_pre r \<and> (\<forall>n \<in> sub (fst r). n_id (fst (snd r) n) \<noteq> None)"

definition lossy_inv :: "'v run_params \<Rightarrow> 'v run_state \<Rightarrow> bool" where
  "lossy_inv r s \<longleftrightarrow> run_inv (fst r) s \<and> (\<forall>n. n_id (nodes s n) = n_id (fst (snd r) n))
     \<and> length (worker_errs s) + card (at_risk (fst r) s) \<le> card (may_lose (fst r))
     \<and> (\<forall>x. phase s = Returned x \<longrightarrow> worker_errs s = [] \<or> workers s = 0)"

lemma on_done_pending:
  "status (nodes s n) \<noteq> Pending \<Longrightarrow> status (nodes (on_done p n res s) m) = Pending \<longleftrightarrow> status (nodes s m) = Pending"
  by (auto simp: on_done_def Let_def split: sum.split option.split)

lemma executing_running:
  assumes "run_inv p s" and "executing s = xs @ n # ys"
  shows "n \<in> sub p" "status (nodes s n) \<noteq> Pending" "n \<notin> set (work_q s)" "n \<notin> set (xs @ ys)"
proof -
  from assms(1) obtain C L where q: "queued p C L s" by (rule run_invE)
  then have "n \<in> in_status p s Running" using assms(2) by (auto simp: queued_def flight_def)
  then show "n \<in> sub p" "status (nodes s n) \<noteq> Pending" by auto
  show "n \<notin> set (work_q s)" "n \<notin> set (xs @ ys)" using q assms(2) by (auto simp: queued_def flight_def)
qed

text \<open>A step leaves the nodes at risk as they are or takes some away, and one that ends a
  worker takes away the node it held.\<close>

lemma at_risk_step:
  assumes inv: "run_inv p s" and ids: "\<forall>n \<in> sub p. n_id (nodes s n) \<noteq> None" and st: "run_step p s t"
  shows "at_risk p t \<subseteq> at_risk p s"
    and "worker_errs t = worker_errs s \<or> (\<exists>n e. worker_errs t = e # worker_errs s \<and> n \<in> at_risk p s - at_risk p t)"
proof -
  have "at_risk p t \<subseteq> at_risk p s
    \<and> (worker_errs t = worker_errs s \<or> (\<exists>n e. worker_errs t = e # worker_errs s \<and> n \<in> at_risk p s - at_risk p t))"
    using st
  proof cases
    case dispatch
    have "hd (ready s) \<in> set (ready s)" using dispatch by (simp add: can_dispatch_def)
    then have "status (nodes s (hd (ready s))) = Pending" using inv by (auto elim!: run_invE simp: queued_def)
    with dispatch show ?thesis by (auto simp: at_risk_def)
  next
    case dispatch_full
    then show ?thesis by (auto simp: at_risk_def split: if_splits)
  next
    case (receive n res q)
    from inv obtain C L where "queued p C L s" "bounded p L s" by (rule run_invE)
    from receive_facts(1) [OF this receive(3)] have "status (nodes (s\<lparr>done_q := q\<rparr>) n) \<noteq> Pending" by simp
    from on_done_pending [OF this] receive show ?thesis by (auto simp: at_risk_def on_done_simps on_done_frame)
  next
    case (no_id xs n ys)
    then show ?thesis using executing_sub [OF inv no_id(3)] ids by simp
  next
    case (panic xs n ys)
    then have "n \<in> at_risk p s" using executing_running(1) [OF inv panic(3)] by (simp add: at_risk_def may_lose_def)
    moreover have "at_risk p t \<subseteq> at_risk p s - {n}"
      using panic executing_running [OF inv panic(3)] by (auto simp: at_risk_def)
    ultimately show ?thesis using panic(1) by auto
  qed (auto simp: at_risk_def)
  then show "at_risk p t \<subseteq> at_risk p s"
    "worker_errs t = worker_errs s \<or> (\<exists>n e. worker_errs t = e # worker_errs s \<and> n \<in> at_risk p s - at_risk p t)"
    by blast+
qed

lemma lost_count:
  assumes wf: "dispatch_wf p" and inv: "run_inv p s" and ids: "\<forall>n \<in> sub p. n_id (nodes s n) \<noteq> None" and st: "run_step p s t"
  shows "length (worker_errs t) + card (at_risk p t) \<le> length (worker_errs s) + card (at_risk p s)"
proof -
  have fin: "finite (at_risk p s)" using wf by (simp add: at_risk_def may_lose_def dispatch_wf_def)
  note A = at_risk_step [OF inv ids st]
  from A(2) show ?thesis
  proof
    assume "worker_errs t = worker_errs s"
    with card_mono [OF fin A(1)] show ?thesis by simp
  next
    assume "\<exists>n e. worker_errs t = e # worker_errs s \<and> n \<in> at_risk p s - at_risk p t"
    then obtain n e where n: "worker_errs t = e # worker_errs s" "n \<in> at_risk p s - at_risk p t" by blast
    with A(1) have "at_risk p t \<subset> at_risk p s" by auto
    from psubset_card_mono [OF fin this] n(1) show ?thesis by simp
  qed
qed

lemma returned_lost:
  assumes wf: "dispatch_wf p" and inv: "run_inv p s" and st: "run_step p s t" and ret: "phase t = Returned x"
  shows "worker_errs t = [] \<or> workers t = 0"
  using st
proof cases
  case dispatch_full
  then show ?thesis using step_dispatch(2) [OF wf inv] by simp
next
  case (receive n res q)
  have "run_inv p t" by (rule step_inv [OF wf inv st])
  then have "result_ok p t x" using ret by (auto elim!: run_invE simp: phase_ok_def)
  moreover have "\<not> failed s" "x = Fail Infallable" "first_error t = first_error s"
    using receive ret by (auto simp: on_done_def Let_def split: sum.splits if_splits option.splits)
  moreover have "first_error s = None" using inv \<open>\<not> failed s\<close> by (auto elim!: run_invE simp: latched_def)
  ultimately show ?thesis by (simp add: result_ok_def)
next
  case finish
  then show ?thesis using drained_joins(3) [OF inv] by simp
next
  case (finish_join e)
  then show ?thesis using drained_joins(3) [OF inv] by simp
qed (use ret in \<open>auto simp: active_def\<close>)

interpretation lossy_scheduler: transition_system run_begin "\<lambda>r. run_step (fst r)" lossy_pre lossy_inv
proof
  show "lossy_inv r s" if "lossy_pre r" "run_begin r s" for r :: "'a run_params" and s
  proof -
    have "run_pre r" using that(1) by (simp add: lossy_pre_def)
    moreover from this have "finite (may_lose (fst r))"
      by (auto simp: run_pre_def may_lose_def dispatch_wf_def split: prod.splits)
    then have "card (at_risk (fst r) s) \<le> card (may_lose (fst r))" by (rule card_mono) (auto simp: at_risk_def)
    moreover from that(2) obtain f c canc where s: "s = run_init (fst r) c canc"
        and c: "cascade_loop f (fst r) (cascade_init (fst r) (snd (snd r)) (fst (snd r))) = Some (Ok c)"
      by (auto simp: run_begin_def elim!: run_starts.cases)
    ultimately show ?thesis using scheduler.inv_init that(2) cascade_ids [OF c]
      by (simp add: lossy_inv_def s run_init_def cascade_init_def)
  qed
  show "lossy_inv r t" if "lossy_pre r" "lossy_inv r s" "run_step (fst r) s t" for r :: "'a run_params" and s t
  proof -
    have pre: "run_pre r" and wf: "dispatch_wf (fst r)" and inv: "run_inv (fst r) s"
      using that by (auto simp: lossy_pre_def lossy_inv_def run_pre_def)
    have "n_id (nodes t n) = n_id (nodes s n)" for n
      using that(3) by cases (simp_all add: on_done_frame)
    moreover have "\<forall>n \<in> sub (fst r). n_id (nodes s n) \<noteq> None" using that(1,2) by (simp add: lossy_pre_def lossy_inv_def)
    from lost_count [OF wf inv this that(3)] that(2)
    have "length (worker_errs t) + card (at_risk (fst r) t) \<le> card (may_lose (fst r))" by (simp add: lossy_inv_def)
    ultimately show ?thesis
      using returned_lost [OF wf inv that(3)] scheduler.inv_step [OF pre inv that(3)] that(2)
      by (simp add: lossy_inv_def)
  qed
qed

lemma lost_forever: "run_step p s t \<Longrightarrow> worker_errs s \<noteq> [] \<Longrightarrow> worker_errs t \<noteq> []"
  by (induction rule: run_step.induct) (simp_all add: on_done_frame)

lemma only_waiting_stuck:
  assumes inv: "run_inv p s" and act: "active s" and lost: "worker_errs s \<noteq> []" and stuck: "\<nexists>t. run_step p s t"
  shows "phase s = Waiting \<and> 0 < inflight s \<and> done_q s = []"
proof (cases "phase s")
  case Driving
  then show ?thesis using stuck run_step.dispatch run_step.dispatch_full run_step.drain run_step.wait by metis
next
  case Waiting
  then have "done_q s = []" using stuck run_step.receive by (cases "done_q s") fastforce+
  with Waiting inv show ?thesis by (auto elim!: run_invE simp: phase_ok_def)
next
  case Received
  then show ?thesis using stuck run_step.received by blast
next
  case Draining
  then show ?thesis using drained_joins(3) [OF inv] lost by simp
next
  case (Returned r)
  with act show ?thesis by (simp add: active_def)
qed

section \<open>Statuses only move forward\<close>

lemma on_done_nodes:
  "nodes (on_done p n res s) = (nodes s)(n := (if isl res then set_failed else set_success) (nodes s n))"
  by (auto simp: on_done_def Let_def split: sum.split option.split)

lemma step_status:
  assumes inv: "run_inv p s" and st: "run_step p s t" and n: "n \<in> sub p"
  shows "status (nodes s n) = status (nodes t n)
    \<or> (status (nodes s n), status (nodes t n)) \<in> {(Pending, Running), (Running, Success), (Running, Failed)}"
  using st
proof cases
  case dispatch
  then have "status (nodes s (hd (ready s))) = Pending"
    using inv by (auto elim!: run_invE simp: queued_def can_dispatch_def neq_Nil_conv)
  then show ?thesis by (simp add: dispatch(1))
next
  case dispatch_full
  then have "status (nodes s (hd (ready s))) = Pending"
    using inv by (auto elim!: run_invE simp: queued_def can_dispatch_def neq_Nil_conv)
  then show ?thesis by (simp add: dispatch_full(1))
next
  case (receive m res q)
  from inv obtain C L where "queued p C L s" "bounded p L s" by (rule run_invE)
  from receive_facts(1) [OF this receive(3)] show ?thesis by (simp add: receive(1) on_done_nodes)
qed simp_all

lemma forward_from:
  assumes wf: "dispatch_wf p" and "reachable_from (\<lambda>x. x = s) (run_step p) u" and "run_inv p s" and n: "n \<in> sub p"
  shows "run_inv p u \<and> (status (nodes s n) \<noteq> Pending \<longrightarrow> status (nodes u n) \<noteq> Pending)
    \<and> (status (nodes s n) = Success \<longrightarrow> status (nodes u n) = Success)"
  using assms(2,3)
proof induction
  case (reach_step u v)
  then have u: "run_inv p u" "status (nodes s n) \<noteq> Pending \<longrightarrow> status (nodes u n) \<noteq> Pending"
    "status (nodes s n) = Success \<longrightarrow> status (nodes u n) = Success" by simp_all
  from step_inv [OF wf u(1) reach_step.hyps(2)] step_status [OF u(1) reach_step.hyps(2) n] u(2,3)
  show ?case by auto
qed simp

lemma sends_dispatch:
  assumes "run_step p s t" and "work_q t = work_q s @ [n]"
  shows "phase s = Driving" "can_dispatch p s" "n = hd (ready s)" "t = upd_node n set_running s
      \<lparr>ready := tl (ready s), work_q := work_q s @ [n], inflight := inflight s + 1\<rparr>"
proof -
  have ne: "q \<noteq> m # q @ [k]" "m # q \<noteq> q" for q :: "nat list" and m k
    by (auto dest: arg_cong [of _ _ length])
  have "phase s = Driving \<and> can_dispatch p s \<and> n = hd (ready s) \<and> t = upd_node n set_running s
      \<lparr>ready := tl (ready s), work_q := work_q s @ [n], inflight := inflight s + 1\<rparr>"
    using assms by cases (auto simp: on_done_simps ne)
  then show "phase s = Driving" "can_dispatch p s" "n = hd (ready s)" "t = upd_node n set_running s
      \<lparr>ready := tl (ready s), work_q := work_q s @ [n], inflight := inflight s + 1\<rparr>" by blast+
qed

lemma inv_orderedD: "run_inv p s \<Longrightarrow> (m, n) \<in> edges p \<Longrightarrow> status (nodes s n) \<noteq> Pending \<Longrightarrow> status (nodes s m) = Success"
  by (auto elim!: run_invE simp: ordered_def)

lemma failed_descendants:
  assumes "run_inv p s" and "(n, c) \<in> (edges p)\<^sup>+" and "status (nodes s n) \<noteq> Success"
  shows "status (nodes s c) = Pending"
  using assms(2)
proof induction
  case (base c)
  with assms(1,3) show ?case using inv_orderedD by blast
next
  case (step b c)
  with assms(1) inv_orderedD [of p s b c] show ?case by auto
qed

text \<open>Cache hits all of whose dependencies are hits.\<close>

definition all_hits :: "dispatch \<Rightarrow> (nat \<Rightarrow> 'v node) \<Rightarrow> nat \<Rightarrow> bool" where
  "all_hits p ns n \<longleftrightarrow> (\<forall>m. (m, n) \<in> (edges p)\<^sup>* \<longrightarrow> n_cache_hit (ns m))"

lemma cascade_promotes:
  assumes wf: "dispatch_wf p" and inv: "cascade_inv p c" and q: "c_queue c = []"
    and hits: "\<And>m. n_cache_hit (c_nodes c m) = n_cache_hit (ns m)"
  shows "n \<in> sub p \<Longrightarrow> all_hits p ns n \<Longrightarrow> status (c_nodes c n) = Success"
proof -
  have fin: "finite (sub p)" and "acyclic (edges p)" using wf by (simp_all add: dispatch_wf_def)
  moreover have "edges p \<subseteq> sub p \<times> sub p" by (auto simp: edges_def)
  ultimately have "wf (edges p)" using finite_acyclic_wf finite_subset by blast
  then have "n \<in> sub p \<longrightarrow> all_hits p ns n \<longrightarrow> status (c_nodes c n) = Success" for n
  proof (induction n rule: wf_induct_rule)
    case (less n)
    show ?case
    proof (intro impI)
      assume n: "n \<in> sub p" "all_hits p ns n"
      have "m \<in> promoted p c" if "(m, n) \<in> edges p" for m
        using less [OF that] n that by (auto simp: all_hits_def edges_def intro: rtrancl_into_rtrancl)
      then have o: "open_edges p (promoted p c) n = 0"
        unfolding open_edges_0 [OF fin] using n(1) by (auto simp: edges_def)
      have "n_cache_hit (c_nodes c n)" using n(2) hits by (auto simp: all_hits_def)
      moreover have "n \<in> set (c_ready c) \<or> n \<in> promoted p c" using inv q n(1) o by (auto simp: cascade_inv_def)
      ultimately show "status (c_nodes c n) = Success" using inv by (auto simp: cascade_inv_def)
    qed
  qed
  then show "n \<in> sub p \<Longrightarrow> all_hits p ns n \<Longrightarrow> status (c_nodes c n) = Success" by blast
qed

section \<open>Two examples\<close>

text \<open>A chain of three nodes, the middle one a cache hit, with one worker.\<close>

definition chain :: dispatch where
  "chain = \<lparr>kids = (\<lambda>n. if n < 2 then [Suc n] else []), sub = {0, 1, 2},
     template = [0 \<mapsto> 0, 1 \<mapsto> 1, 2 \<mapsto> 1], batch = 1, known = (\<lambda>_. True), may_panic = (\<lambda>_. False)\<rparr>"

definition example_node :: "bool \<Rightarrow> nat \<Rightarrow> nat node" where
  "example_node hit n = \<lparr>n_addr = Addr [''p'', ''t''], n_status = status_byte Pending,
     n_id = Some (Id (Name ''t'') None None None ''h''), n_cache_hit = hit\<rparr>"

text \<open>A single node whose lifecycle may panic, with two workers.\<close>

definition fragile :: dispatch where
  "fragile = \<lparr>kids = (\<lambda>_. []), sub = {0}, template = [0 \<mapsto> 0], batch = 2, known = (\<lambda>_. True), may_panic = (\<lambda>_. True)\<rparr>"

lemma example_node_simps [simp]:
  "status (example_node h n) = Pending" "n_cache_hit (example_node h n) = h"
  "n_id (example_node h n) = Some (Id (Name ''t'') None None None ''h'')"
  by (simp_all add: example_node_def status_def del: status_byte.simps)

lemma chain_wf: "dispatch_wf chain"
proof -
  have "edges chain \<subseteq> less_than" by (auto simp: edges_def chain_def)
  then have "acyclic (edges chain)" by (meson acyclic_subset wf_acyclic wf_less_than)
  moreover have "sub chain - {} = {0, 1, 2}" by (simp add: chain_def)
  then have "open_edges chain {} c = (if c = 1 \<or> c = 2 then 1 else 0)" for c
    unfolding open_edges_def by (simp add: chain_def)
  ultimately show ?thesis unfolding dispatch_wf_def by (auto simp: chain_def)
qed

lemma fragile_wf: "dispatch_wf fragile"
  by (auto simp: dispatch_wf_def fragile_def edges_def open_edges_def acyclic_def)

lemma chain_pre: "run_pre (chain, \<lambda>n. example_node (n = 1) n, [0, 1, 2])"
  by (auto simp: run_pre_def chain_wf) (simp_all add: chain_def)

lemma fragile_pre: "run_pre (fragile, \<lambda>n. example_node False n, [0])"
  by (simp add: run_pre_def fragile_wf) (simp add: fragile_def)

text \<open>A run by one worker in which every step is determined: what the states look like from
  the start of the driver loop on.\<close>

lemma run_trans: "reachable_from i (run_step p) s \<Longrightarrow> run_step p s t \<Longrightarrow> reachable_from i (run_step p) t"
  by (rule reach_step)

lemma chain_starts:
  "run_begin (chain, \<lambda>n. example_node (n = 1) n, [0, 1, 2])
     (run_init chain \<lparr>c_queue = [], c_ready = [0], c_ind = template chain, c_nodes = \<lambda>n. example_node (n = 1) n\<rparr> False)"
  unfolding run_begin_def prod.case
  by (rule run_starts.intros [of 1]) (simp add: cascade_init_def chain_def)

lemma chain_reaches_hit:
  "\<exists>s. reachable_from (run_begin (chain, \<lambda>n. example_node (n = 1) n, [0, 1, 2])) (run_step chain) s
     \<and> work_q s = [1] \<and> n_cache_hit (nodes s 1)"
proof -
  let ?R = "reachable_from (run_begin (chain, \<lambda>n. example_node (n = 1) n, [0, 1, 2])) (run_step chain)"
  define s0 where "s0 = run_init chain \<lparr>c_queue = [], c_ready = [0], c_ind = template chain,
    c_nodes = \<lambda>n. example_node (n = 1) n\<rparr> False"
  define s1 where "s1 = upd_node 0 set_running s0\<lparr>ready := [], work_q := [0], inflight := 1\<rparr>"
  define s2 where "s2 = s1\<lparr>phase := Waiting\<rparr>"
  define s3 where "s3 = s2\<lparr>work_q := [], executing := [0]\<rparr>"
  define s4 where "s4 = s3\<lparr>executing := [], done_q := [(0, Inr ())]\<rparr>"
  define s5 where "s5 = on_done chain 0 (Inr ()) (s4\<lparr>done_q := []\<rparr>)"
  define s6 where "s6 = s5\<lparr>ready := (if cancelled s5 then [] else ready s5), phase := Driving\<rparr>"
  define s7 where "s7 = upd_node 1 set_running s6\<lparr>ready := [], work_q := [1], inflight := 1\<rparr>"
  note S = s1_def s2_def s3_def s4_def s0_def run_init_def
  have R0: "?R s0" unfolding s0_def by (rule reach_init, rule chain_starts)
  have R1: "run_step chain s0 s1"
    using run_step.dispatch [of s0 chain] by (simp add: S can_dispatch_def chain_def)
  have R2: "run_step chain s1 s2"
    using run_step.wait [of s1 chain] by (simp add: S can_dispatch_def)
  have R3: "run_step chain s2 s3"
    using run_step.take [of s2 0 "[]" chain] by (simp add: S active_def chain_def)
  have R4: "run_step chain s3 s4"
    using run_step.report [of s3 "[]" 0 "[]" chain "Inr ()"] by (simp add: S active_def chain_def)
  have R5: "run_step chain s4 s5"
    using run_step.receive [of s4 0 "Inr ()" "[]" chain] by (simp add: S s5_def)
  have 5: "phase s5 = Received" "ready s5 = [1]" "work_q s5 = []" "inflight s5 = 0" "\<not> failed s5" "\<not> cancelled s5"
    "n_cache_hit (nodes s5 1)"
    by (simp_all add: s5_def on_done_def S chain_def Let_def)
  have R6: "run_step chain s5 s6" unfolding s6_def by (rule run_step.received) (rule 5(1))
  have R7: "run_step chain s6 s7"
    using run_step.dispatch [of s6 chain] 5 by (simp add: s7_def s6_def can_dispatch_def chain_def)
  have "?R s7" by (rule run_trans [OF run_trans [OF run_trans [OF run_trans [OF run_trans [OF run_trans [OF run_trans [OF R0 R1] R2] R3] R4] R5] R6] R7])
  moreover have "work_q s7 = [1]" "n_cache_hit (nodes s7 1)" using 5 by (simp_all add: s7_def s6_def)
  ultimately show ?thesis by blast
qed

lemma fragile_hangs:
  "\<exists>s. reachable_from (run_begin (fragile, \<lambda>n. example_node False n, [0])) (run_step fragile) s
     \<and> worker_errs s = [Join] \<and> (\<nexists>t. run_step fragile s t)"
proof -
  let ?R = "reachable_from (run_begin (fragile, \<lambda>n. example_node False n, [0])) (run_step fragile)"
  define s0 where "s0 = run_init fragile \<lparr>c_queue = [], c_ready = [0], c_ind = template fragile,
    c_nodes = \<lambda>n. example_node False n\<rparr> False"
  define s1 where "s1 = upd_node 0 set_running s0\<lparr>ready := [], work_q := [0], inflight := 1\<rparr>"
  define s2 where "s2 = s1\<lparr>phase := Waiting\<rparr>"
  define s3 where "s3 = s2\<lparr>work_q := [], executing := [0]\<rparr>"
  define s4 where "s4 = s3\<lparr>executing := [], workers := 1, worker_errs := [Join]\<rparr>"
  define s5 where "s5 = s4\<lparr>cancelled := True\<rparr>"
  note S = s1_def s2_def s3_def s4_def s5_def s0_def run_init_def
  have "run_begin (fragile, \<lambda>n. example_node False n, [0]) s0"
    unfolding run_begin_def prod.case s0_def
    by (rule run_starts.intros [of 1]) (simp add: cascade_init_def fragile_def)
  then have R0: "?R s0" by (rule reach_init)
  have R1: "run_step fragile s0 s1"
    using run_step.dispatch [of s0 fragile] by (simp add: S can_dispatch_def fragile_def)
  have R2: "run_step fragile s1 s2"
    using run_step.wait [of s1 fragile] by (simp add: S can_dispatch_def)
  have R3: "run_step fragile s2 s3"
    using run_step.take [of s2 0 "[]" fragile] by (simp add: S active_def fragile_def)
  have R4: "run_step fragile s3 s4"
    using run_step.panic [of s3 "[]" 0 "[]" fragile] by (simp add: S active_def fragile_def)
  have R5: "run_step fragile s4 s5"
    using run_step.cancel [of s4 fragile] by (simp add: S active_def)
  have "?R s5" by (rule run_trans [OF run_trans [OF run_trans [OF run_trans [OF run_trans [OF R0 R1] R2] R3] R4] R5])
  moreover have "worker_errs s5 = [Join]" and "\<nexists>t. run_step fragile s5 t"
    by (auto simp: S elim!: run_step.cases)
  ultimately show ?thesis by blast
qed

text \<open>The first states of the chain, not cancelled and cancelled, and of the chain whose
  first node is a hit.\<close>

abbreviation chain_nodes :: "nat \<Rightarrow> nat node" where
  "chain_nodes \<equiv> \<lambda>n. example_node (n = 1) n"

definition chain_start :: "bool \<Rightarrow> nat run_state" where
  "chain_start canc = run_init chain \<lparr>c_queue = [], c_ready = [0], c_ind = template chain, c_nodes = chain_nodes\<rparr> canc"

lemma chain_start_reachable:
  "reachable_from (run_begin (chain, chain_nodes, [0, 1, 2])) (run_step chain) (chain_start canc)"
  unfolding chain_start_def run_begin_def prod.case
  by (rule reach_init, rule run_starts.intros [of 1]) (simp add: cascade_init_def chain_def)

lemma chain_first_dispatch:
  "run_step chain (chain_start False) (upd_node 0 set_running (chain_start False)\<lparr>ready := [], work_q := [0], inflight := 1\<rparr>)"
  using run_step.dispatch [of "chain_start False" chain]
  by (simp add: chain_start_def run_init_def can_dispatch_def chain_def)

lemma chain_cancelled_returns:
  "reachable_from (run_begin (chain, chain_nodes, [0, 1, 2])) (run_step chain)
     (chain_start True\<lparr>phase := Returned (Fail Cancelled)\<rparr>)"
proof -
  have "run_step chain (chain_start True) (chain_start True\<lparr>phase := Draining\<rparr>)"
    by (rule run_step.drain) (simp_all add: chain_start_def run_init_def can_dispatch_def)
  moreover have "run_step chain (chain_start True\<lparr>phase := Draining\<rparr>) (chain_start True\<lparr>phase := Returned (Fail Cancelled)\<rparr>)"
    using run_step.finish [of "chain_start True\<lparr>phase := Draining\<rparr>" chain]
    by (simp add: chain_start_def run_init_def final_result_def)
  ultimately show ?thesis by (rule run_trans [OF run_trans [OF chain_start_reachable]])
qed

lemma chain_quiet: "quiet_pre (chain, chain_nodes, [0, 1, 2])"
  unfolding quiet_pre_def by (rule conjI [OF chain_pre]) (simp add: chain_def)

section \<open>Properties\<close>

text \<open>C8: a node is handed to the workers only when every dependency of it in the subgraph
  has succeeded, and at most once: before the hand-over it is pending, and in no later state
  is it pending again. The concurrency cap is respected.\<close>

theorem dispatch_in_order:
  assumes "run_pre (p, ns, order)" and "reachable_from (run_begin (p, ns, order)) (run_step p) s"
    and "run_step p s t" and "work_q t = work_q s @ [n]"
  shows "n \<in> sub p \<and> (\<forall>m. (m, n) \<in> edges p \<longrightarrow> status (nodes s m) = Success)
    \<and> status (nodes s n) = Pending \<and> inflight t \<le> batch p
    \<and> (\<forall>u. reachable_from (\<lambda>x. x = t) (run_step p) u \<longrightarrow> status (nodes u n) \<noteq> Pending)"
proof -
  have wf: "dispatch_wf p" using assms(1) by (simp add: run_pre_def)
  have inv: "run_inv p s" using scheduler.reachable_inv [OF assms(1)] assms(2) by simp
  then obtain C L where i: "counted p C s" "queued p C L s" by (rule run_invE)
  note d = sends_dispatch [OF assms(3,4)]
  have n: "n \<in> set (ready s)" using d(2,3) by (simp add: can_dispatch_def)
  then have "n \<in> in_status p s Pending" using i(2) by (auto simp: queued_def)
  moreover have "status (nodes u n) \<noteq> Pending" if "reachable_from (\<lambda>x. x = t) (run_step p) u" for u
    using forward_from [OF wf that step_inv [OF wf inv assms(3)], of n] calculation d(4) by simp
  moreover have "inflight t \<le> batch p" using d(2,4) by (simp add: can_dispatch_def)
  ultimately show ?thesis using ready_deps [OF wf i n] by blast
qed

theorem dispatch_in_order_witness:
  "status (nodes (chain_start False) 0) = Pending
   \<and> inflight (upd_node 0 set_running (chain_start False)\<lparr>ready := [], work_q := [0], inflight := 1\<rparr>) \<le> batch chain"
  using dispatch_in_order [OF chain_pre chain_start_reachable chain_first_dispatch, of 0]
  by (simp add: chain_start_def run_init_def)

text \<open>C12: channel capacities and counters: what is in flight never exceeds the batch size,
  neither do the two channels, so a send by the driver never fails; a positive counter is
  decremented each time a dependency succeeds, so the subtraction never saturates: before
  any failure or cancellation a node's counter is the number of edges from dependencies that
  have not yet succeeded.\<close>

theorem dispatch_bounds:
  assumes "run_pre (p, ns, order)" and "reachable_from (run_begin (p, ns, order)) (run_step p) s"
  shows "inflight s \<le> batch p \<and> length (work_q s) \<le> batch p \<and> length (done_q s) \<le> batch p
    \<and> length (executing s) \<le> workers s
    \<and> (phase s = Driving \<and> can_dispatch p s \<longrightarrow> length (work_q s) < batch p)
    \<and> (\<not> failed s \<and> \<not> cancelled s \<longrightarrow>
         (\<forall>c \<in> sub p. indegree s c = Some (open_edges p {n \<in> sub p. status (nodes s n) = Success} c)))"
proof -
  have wf: "dispatch_wf p" using assms(1) by (simp add: run_pre_def)
  have inv: "run_inv p s" using scheduler.reachable_inv [OF assms(1)] assms(2) by simp
  then obtain C L where i: "counted p C s" "bounded p L s" by (rule run_invE)
  from i(2) have "inflight s \<le> batch p \<and> length (work_q s) \<le> batch p \<and> length (done_q s) \<le> batch p
    \<and> length (executing s) \<le> workers s" by (auto simp: bounded_def flight_def)
  moreover have "phase s = Driving \<and> can_dispatch p s \<longrightarrow> length (work_q s) < batch p"
    using step_dispatch(2) [OF wf inv] by blast
  ultimately show ?thesis using i(1) unfolding counted_def by auto
qed

theorem dispatch_bounds_witness: "indegree (chain_start False) 1 = Some (open_edges chain {} 1)"
proof -
  have "\<not> failed (chain_start False) \<and> \<not> cancelled (chain_start False)" and "1 \<in> sub chain"
    and "{n \<in> sub chain. status (nodes (chain_start False) n) = Success} = {}"
    by (simp_all add: chain_start_def run_init_def chain_def)
  with dispatch_bounds [OF chain_pre chain_start_reachable, of False] show ?thesis by metis
qed

text \<open>C11: fail fast: while a node is failed, or has merely not succeeded, nothing that
  depends on it, directly or not, has left the pending state.\<close>

theorem failure_blocks_dependents:
  assumes "run_pre (p, ns, order)" and "reachable_from (run_begin (p, ns, order)) (run_step p) s"
    and "(n, c) \<in> (edges p)\<^sup>+" and "status (nodes s n) \<noteq> Success"
  shows "status (nodes s c) = Pending"
  using failed_descendants assms scheduler.reachable_inv [OF assms(1)] by fastforce

theorem failure_blocks_dependents_witness: "status (nodes (chain_start False) 2) = Pending"
proof (rule failure_blocks_dependents [OF chain_pre chain_start_reachable])
  show "(1, 2) \<in> (edges chain)\<^sup>+" by (rule r_into_trancl) (simp add: edges_def chain_def)
qed (simp add: chain_start_def run_init_def)

text \<open>C10: the result: \<open>Ok\<close> is returned only when every node of the subgraph has succeeded;
  an error is the first error a worker reported, or a cancellation without any reported
  error, or the loss of every worker; it is never the join error of a worker.\<close>

theorem run_result:
  assumes "run_pre (p, ns, order)" and "reachable_from (run_begin (p, ns, order)) (run_step p) s"
    and "phase s = Returned r"
  shows "case r of
      Inr _ \<Rightarrow> (\<forall>n \<in> sub p. status (nodes s n) = Success)
    | Inl (Err e) \<Rightarrow> first_error s = Some e \<or> (e = Cancelled \<and> cancelled s \<and> first_error s = None)
        \<or> (e = Infallable \<and> workers s = 0)
    | Inl Panic \<Rightarrow> False"
proof -
  have "run_inv p s" using scheduler.reachable_inv [OF assms(1)] assms(2) by simp
  then have "phase_ok p s" by (rule run_invE)
  then have "result_ok p s r" using assms(3) by (simp add: phase_ok_def)
  then show ?thesis by (auto simp: result_ok_def split: sum.splits fault.splits)
qed

theorem run_result_witness:
  "cancelled (chain_start True\<lparr>phase := Returned (Fail Cancelled)\<rparr>)"
  using run_result [OF chain_pre chain_cancelled_returns, of "Fail Cancelled"]
  by (simp add: chain_start_def run_init_def)

text \<open>C9: a run in which every node has its identifier and no lifecycle panics always comes
  to an end: in every reachable state \<open>run\<close> has returned or some step is possible, and no
  schedule goes on forever, whatever the interleaving of driver, workers and canceller.\<close>

theorem run_terminates:
  assumes "quiet_pre (p, ns, order)" and "reachable_from (run_begin (p, ns, order)) (run_step p) s"
  shows "((\<exists>r. phase s = Returned r) \<or> (\<exists>t. run_step p s t))
    \<and> \<not> (\<exists>f. f 0 = s \<and> (\<forall>i :: nat. run_step p (f i) (f (Suc i))))"
proof
  have pre: "run_pre (p, ns, order)" and ids: "\<forall>n \<in> sub p. n_id (ns n) \<noteq> None"
    using assms(1) by (auto simp: quiet_pre_def)
  then have wf: "dispatch_wf p" by (simp add: run_pre_def)
  have q: "quiet_inv (p, ns, order) s" using quiet_scheduler.reachable_inv [OF assms(1)] assms(2) by simp
  then have inv: "run_inv p s" by (simp add: quiet_inv_def)
  show "(\<exists>r. phase s = Returned r) \<or> (\<exists>t. run_step p s t)"
    using not_stuck [OF wf inv] q ids by (auto simp: active_def quiet_inv_def)
  show "\<not> (\<exists>f. f 0 = s \<and> (\<forall>i :: nat. run_step p (f i) (f (Suc i))))" by (rule no_endless_schedule [OF wf inv])
qed

theorem run_terminates_witness:
  "\<not> (\<exists>f. f 0 = chain_start False \<and> (\<forall>i :: nat. run_step chain (f i) (f (Suc i))))"
  using run_terminates [OF chain_quiet chain_start_reachable] by blast

text \<open>a cached node all of whose dependencies are cached is never dispatched: it is
  marked successful by the cascade, before the driver loop starts, and stays so.\<close>

lemma cached_subtrees_skipped:
  assumes "run_pre (p, ns, order)" and "reachable_from (run_begin (p, ns, order)) (run_step p) s"
    and "n \<in> sub p" and "all_hits p ns n"
  shows "status (nodes s n) = Success"
  using assms(2)
proof induction
  case (reach_init s)
  then obtain f c canc where s: "s = run_init p c canc"
    and c: "cascade_loop f p (cascade_init p order ns) = Some (Ok c)"
    by (auto simp: run_begin_def elim!: run_starts.cases)
  from reach_init run_starts_cascade [of p ns order s] assms(1) obtain c' canc' where
    "s = run_init p c' canc'" "cascade_inv p c'" "c_queue c' = []" by (auto simp: run_pre_def run_begin_def)
  with cascade_promotes [of p c' ns n] cascade_ids [OF c] s assms show ?case
    by (simp add: run_pre_def run_init_def cascade_init_def)
next
  case (reach_step s t)
  have "run_inv p s" using scheduler.reachable_inv [OF assms(1)] reach_step.hyps(1) by simp
  from step_status [OF this reach_step.hyps(2) assms(3)] reach_step.IH show ?case by auto
qed

lemma cached_subtrees_skipped_witness:
  "status (nodes (run_init chain \<lparr>c_queue = [], c_ready = [1], c_ind = [0 \<mapsto> 0, 1 \<mapsto> 0, 2 \<mapsto> 1],
     c_nodes = (\<lambda>n. example_node (n = 0) n)(0 := set_success (example_node True 0))\<rparr> False) 0) = Success"
proof (rule cached_subtrees_skipped)
  show "run_pre (chain, \<lambda>n. example_node (n = 0) n, [0, 1, 2])"
    by (auto simp: run_pre_def chain_wf) (simp_all add: chain_def)
  show "reachable_from (run_begin (chain, \<lambda>n. example_node (n = 0) n, [0, 1, 2])) (run_step chain)
      (run_init chain \<lparr>c_queue = [], c_ready = [1], c_ind = [0 \<mapsto> 0, 1 \<mapsto> 0, 2 \<mapsto> 1],
       c_nodes = (\<lambda>n. example_node (n = 0) n)(0 := set_success (example_node True 0))\<rparr> False)"
    unfolding run_begin_def prod.case
    by (rule reach_init, rule run_starts.intros [of 2])
      (simp add: cascade_init_def chain_def numeral_2_eq_2 fun_upd_twist)
  show "0 \<in> sub chain" by (simp add: chain_def)
  have "(m, 0) \<notin> edges chain" for m by (simp add: edges_def chain_def)
  then show "all_hits chain (\<lambda>n. example_node (n = 0) n) 0"
    unfolding all_hits_def by (auto elim: rtranclE)
qed

text \<open>a cached node with a dependency that is not cached is nevertheless executed: once
  the dependency succeeds, the driver queues it without looking at its cache flag. In the
  example the middle node of a chain is a cache hit and is handed to a worker.\<close>

lemma cached_node_dispatched:
  "\<exists>s. reachable_from (run_begin (chain, \<lambda>n. example_node (n = 1) n, [0, 1, 2])) (run_step chain) s
     \<and> work_q s = [1] \<and> n_cache_hit (nodes s 1)"
  by (rule chain_reaches_hit)

text \<open>C17: a worker whose lifecycle panics never reports, and the driver waits for the
  report forever. In a run where fewer nodes may panic than the pool has workers, once one
  worker has ended \<open>run\<close> returns in no later state, whatever is scheduled; no schedule goes
  on forever, and a state without a next step has the driver waiting on an empty channel
  for a node it counts as in flight.\<close>

theorem panic_hangs_run:
  assumes "run_pre (p, ns, order)" and "\<forall>n \<in> sub p. n_id (ns n) \<noteq> None"
    and "card {n \<in> sub p. may_panic p n} < batch p"
    and "reachable_from (run_begin (p, ns, order)) (run_step p) s" and "worker_errs s \<noteq> []"
    and "reachable_from (\<lambda>x. x = s) (run_step p) t"
  shows "(\<forall>r. phase t \<noteq> Returned r)
    \<and> ((\<nexists>u. run_step p t u) \<longrightarrow> phase t = Waiting \<and> 0 < inflight t \<and> done_q t = [])
    \<and> \<not> (\<exists>f. f 0 = t \<and> (\<forall>i :: nat. run_step p (f i) (f (Suc i))))"
proof -
  have pre: "lossy_pre (p, ns, order)" using assms(1,2) by (simp add: lossy_pre_def)
  have wf: "dispatch_wf p" using assms(1) by (simp add: run_pre_def)
  have t: "lossy_inv (p, ns, order) t \<and> worker_errs t \<noteq> []" using assms(6)
  proof induction
    case (reach_init x)
    then show ?case using lossy_scheduler.reachable_inv [OF pre] assms(4,5) by simp
  next
    case (reach_step u v)
    then show ?case using lossy_scheduler.inv_step [OF pre, of u v] lost_forever [of p u v] by simp
  qed
  then have inv: "run_inv p t" and lost: "length (worker_errs t) < batch p"
    using assms(3) by (simp_all add: lossy_inv_def may_lose_def)
  from inv lost have "workers t \<noteq> 0" by (auto elim!: run_invE simp: bounded_def)
  with t have act: "active t" by (auto simp: lossy_inv_def active_def)
  with only_waiting_stuck [OF inv act] no_endless_schedule [OF wf inv] t show ?thesis by (auto simp: active_def)
qed

theorem panic_hangs_run_witness:
  "\<exists>s. reachable_from (run_begin (fragile, \<lambda>n. example_node False n, [0])) (run_step fragile) s
     \<and> worker_errs s = [Join] \<and> (\<nexists>t. run_step fragile s t) \<and> phase s = Waiting \<and> 0 < inflight s"
proof -
  from fragile_hangs obtain s where s: "reachable_from (run_begin (fragile, \<lambda>n. example_node False n, [0])) (run_step fragile) s"
    "worker_errs s = [Join]" "\<nexists>t. run_step fragile s t" by blast
  have "card {n \<in> sub fragile. may_panic fragile n} < batch fragile" by (simp add: fragile_def)
  moreover have "reachable_from (\<lambda>x. x = s) (run_step fragile) s" by (rule reach_init) simp
  ultimately show ?thesis using panic_hangs_run [OF fragile_pre _ _ s(1), of s] s by auto
qed

end
