(* ===== verification/Graph_Build.thy ===== *)
theory Graph_Build
  imports Dispatch
begin

text \<open>
  Construction of the execution graph (\<open>Graph::new\<close>, \<open>add_recursive\<close>, \<open>add\<close> in
  \<open>crates/edo/src/scheduler/graph.rs\<close>): one node per transform, one edge per declared
  dependency, the subgraph of a root by breadth-first search over parents, and the indegree
  template. The \<open>daggy\<close> crate is a parameter: a record of the operations the code calls, and
  \<open>daggy_ok\<close> for what its documentation promises of them.
\<close>

section \<open>The graph library\<close>

record 'g daggy =
  dag_new :: 'g
  dag_add_node :: "'g \<Rightarrow> 'g \<times> nat"
  dag_add_edge :: "'g \<Rightarrow> nat \<Rightarrow> nat \<Rightarrow> 'g option"
  dag_parents :: "'g \<Rightarrow> nat \<Rightarrow> nat list"
  dag_children :: "'g \<Rightarrow> nat \<Rightarrow> nat list"
  dag_count :: "'g \<Rightarrow> nat"

definition dag_rel :: "'g daggy \<Rightarrow> 'g \<Rightarrow> (nat \<times> nat) set" where
  "dag_rel D g = {(m, n). m \<in> set (dag_parents D g n)}"

text \<open>
  Documented behaviour: a new graph is empty; a new node gets the next index and no edge; an
  edge between existing nodes is refused exactly when it would close a cycle, and is
  otherwise added, parallel to any other; walking parents and walking children visit the
  same edges.
\<close>

definition daggy_ok :: "'g daggy \<Rightarrow> bool" where
  "daggy_ok D \<longleftrightarrow>
     dag_count D (dag_new D) = 0 \<and> (\<forall>n. dag_parents D (dag_new D) n = [])
     \<and> (\<forall>g. snd (dag_add_node D g) = dag_count D g
            \<and> dag_count D (fst (dag_add_node D g)) = Suc (dag_count D g)
            \<and> dag_parents D (fst (dag_add_node D g)) = dag_parents D g)
     \<and> (\<forall>g a b. a < dag_count D g \<longrightarrow> b < dag_count D g \<longrightarrow>
          (case dag_add_edge D g a b of
             None \<Rightarrow> (b, a) \<in> (dag_rel D g)\<^sup>*
           | Some h \<Rightarrow> (b, a) \<notin> (dag_rel D g)\<^sup>* \<and> dag_count D h = dag_count D g
               \<and> (\<forall>n. mset (dag_parents D h n) = mset (dag_parents D g n) + (if n = b then {#a#} else {#}))))
     \<and> (\<forall>g m n. count_list (dag_children D g m) n = count_list (dag_parents D g n) m)"

section \<open>State and operations\<close>

record ('g, 'v) graph =
  g_dag :: 'g
  g_nodes :: "nat \<Rightarrow> 'v node"
  g_batch :: nat
  g_index :: "addr \<rightharpoonup> nat"
  g_subgraphs :: "addr \<rightharpoonup> nat set"
  g_indegrees :: "addr \<rightharpoonup> (nat \<rightharpoonup> nat)"

definition graph_new :: "'g daggy \<Rightarrow> nat \<Rightarrow> ('g, 'v) graph" where
  "graph_new D n = \<lparr>g_dag = dag_new D, g_nodes = (\<lambda>_. node_new addr_default), g_batch = n, g_index = Map.empty,
     g_subgraphs = Map.empty, g_indegrees = Map.empty\<rparr>"

text \<open>The node and its index entry, made before the dependencies are visited.\<close>

definition insert_node :: "'g daggy \<Rightarrow> addr \<Rightarrow> ('g, 'v) graph \<Rightarrow> nat \<times> ('g, 'v) graph" where
  "insert_node D a g =
     (let (dag, i) = dag_add_node D (g_dag g)
      in (i, g\<lparr>g_dag := dag, g_nodes := (g_nodes g)(i := node_new a), g_index := (g_index g)(a \<mapsto> i)\<rparr>))"

text \<open>
  \<open>add_recursive\<close> and its loop over the dependencies, with fuel for the depth of the
  recursion (\<open>None\<close> when it is used up). \<open>deps\<close> is what the context knows: no transform at
  an address, or the result of its \<open>depends()\<close>. What was added before an error stays.
\<close>

fun add_recursive :: "nat \<Rightarrow> 'g daggy \<Rightarrow> (addr \<Rightarrow> (sched_error, addr list) res option) \<Rightarrow> addr \<Rightarrow> ('g, 'v) graph
      \<Rightarrow> ((sched_error, nat) res \<times> ('g, 'v) graph) option"
  and add_deps :: "nat \<Rightarrow> 'g daggy \<Rightarrow> (addr \<Rightarrow> (sched_error, addr list) res option) \<Rightarrow> addr list \<Rightarrow> nat \<Rightarrow> ('g, 'v) graph
      \<Rightarrow> ((sched_error, unit) res \<times> ('g, 'v) graph) option" where
  "add_recursive 0 D deps a g = None"
| "add_recursive (Suc f) D deps a g =
     (case g_index g a of
        Some i \<Rightarrow> Some (Ok i, g)
      | None \<Rightarrow>
          (case deps a of
             None \<Rightarrow> Some (Fail (ProjectTransform a), g)
           | Some r \<Rightarrow>
               (let (i, g1) = insert_node D a g
                in case r of
                     Inl e \<Rightarrow> Some (Inl e, g1)
                   | Inr ds \<Rightarrow>
                       (case add_deps f D deps ds i g1 of
                          None \<Rightarrow> None
                        | Some (Inl e, g2) \<Rightarrow> Some (Inl e, g2)
                        | Some (Inr _, g2) \<Rightarrow> Some (Ok i, g2)))))"
| "add_deps f D deps [] i g = Some (Ok (), g)"
| "add_deps f D deps (d # ds) i g =
     (case add_recursive f D deps d g of
        None \<Rightarrow> None
      | Some (Inl e, g1) \<Rightarrow> Some (Inl e, g1)
      | Some (Inr j, g1) \<Rightarrow>
          (case dag_add_edge D (g_dag g1) j i of
             None \<Rightarrow> Some (Fail GraphCycle, g1)
           | Some dag \<Rightarrow> add_deps f D deps ds i (g1\<lparr>g_dag := dag\<rparr>)))"

text \<open>Step 2 of \<open>add\<close>: the search, with fuel for the number of dequeued nodes.\<close>

fun bfs :: "nat \<Rightarrow> 'g daggy \<Rightarrow> 'g \<Rightarrow> nat list \<Rightarrow> nat set \<Rightarrow> nat set option" where
  "bfs f D g [] S = Some S"
| "bfs 0 D g (n # q) S = None"
| "bfs (Suc f) D g (n # q) S =
     (if n \<in> S then bfs f D g q S else bfs f D g (q @ dag_parents D g n) (insert n S))"

text \<open>Step 3: the template.\<close>

definition indegree_template :: "'g daggy \<Rightarrow> 'g \<Rightarrow> nat set \<Rightarrow> (nat \<rightharpoonup> nat)" where
  "indegree_template D g S = (\<lambda>n. if n \<in> S then Some (length (filter (\<lambda>p. p \<in> S) (dag_parents D g n))) else None)"

text \<open>The number of dequeues that always suffices.\<close>

definition bfs_fuel :: "'g daggy \<Rightarrow> 'g \<Rightarrow> nat" where
  "bfs_fuel D g = Suc (\<Sum>n < dag_count D g. length (dag_parents D g n))"

definition graph_add :: "nat \<Rightarrow> 'g daggy \<Rightarrow> (addr \<Rightarrow> (sched_error, addr list) res option) \<Rightarrow> addr \<Rightarrow> ('g, 'v) graph
    \<Rightarrow> ((sched_error, nat) res \<times> ('g, 'v) graph) option" where
  "graph_add f D deps a g =
     (case add_recursive f D deps a g of
        None \<Rightarrow> None
      | Some (Inl e, g1) \<Rightarrow> Some (Inl e, g1)
      | Some (Inr i, g1) \<Rightarrow>
          (case bfs (bfs_fuel D (g_dag g1)) D (g_dag g1) [i] {} of
             None \<Rightarrow> None
           | Some S \<Rightarrow>
               Some (Ok i, g1\<lparr>g_subgraphs := (g_subgraphs g1)(a \<mapsto> S),
                 g_indegrees := (g_indegrees g1)(a \<mapsto> indegree_template D (g_dag g1) S)\<rparr>)))"

text \<open>The run of a root, as \<open>run\<close> reads it off the graph.\<close>

definition dispatch_of :: "'g daggy \<Rightarrow> ('g, 'v) graph \<Rightarrow> addr \<Rightarrow> (addr \<Rightarrow> bool) \<Rightarrow> (nat \<Rightarrow> bool) \<Rightarrow> dispatch" where
  "dispatch_of D g a registered panics =
     \<lparr>kids = dag_children D (g_dag g), sub = the (g_subgraphs g a), template = the (g_indegrees g a),
      batch = g_batch g, known = (\<lambda>n. registered (n_addr (g_nodes g n))), may_panic = panics\<rparr>"

section \<open>Invariant\<close>

text \<open>The index and the nodes correspond one to one, edges join existing nodes, there is no
  cycle, and the nodes are as they were created.\<close>

definition graph_ok :: "'g daggy \<Rightarrow> ('g, 'v) graph \<Rightarrow> bool" where
  "graph_ok D g \<longleftrightarrow>
     (\<forall>a i. g_index g a = Some i \<longleftrightarrow> i < dag_count D (g_dag g) \<and> n_addr (g_nodes g i) = a)
     \<and> dag_rel D (g_dag g) \<subseteq> {..< dag_count D (g_dag g)} \<times> {..< dag_count D (g_dag g)}
     \<and> acyclic (dag_rel D (g_dag g))
     \<and> (\<forall>i < dag_count D (g_dag g). status (g_nodes g i) = Pending \<and> n_id (g_nodes g i) = None
          \<and> \<not> n_cache_hit (g_nodes g i))"

section \<open>Building keeps the invariant\<close>

lemma daggy_node:
  assumes "daggy_ok D"
  shows "snd (dag_add_node D g) = dag_count D g" "dag_count D (fst (dag_add_node D g)) = Suc (dag_count D g)"
    "dag_parents D (fst (dag_add_node D g)) = dag_parents D g"
  using assms by (simp_all add: daggy_ok_def)

lemma daggy_edge:
  assumes "daggy_ok D" "a < dag_count D g" "b < dag_count D g" "dag_add_edge D g a b = Some h"
  shows "(b, a) \<notin> (dag_rel D g)\<^sup>*" "dag_count D h = dag_count D g"
    "mset (dag_parents D h n) = mset (dag_parents D g n) + (if n = b then {#a#} else {#})"
proof -
  from assms(1) have "a < dag_count D g \<longrightarrow> b < dag_count D g \<longrightarrow>
      (case dag_add_edge D g a b of
         None \<Rightarrow> (b, a) \<in> (dag_rel D g)\<^sup>*
       | Some h \<Rightarrow> (b, a) \<notin> (dag_rel D g)\<^sup>* \<and> dag_count D h = dag_count D g
           \<and> (\<forall>n. mset (dag_parents D h n) = mset (dag_parents D g n) + (if n = b then {#a#} else {#})))"
    unfolding daggy_ok_def by blast
  with assms(2-4) show "(b, a) \<notin> (dag_rel D g)\<^sup>*" "dag_count D h = dag_count D g"
    "mset (dag_parents D h n) = mset (dag_parents D g n) + (if n = b then {#a#} else {#})" by simp_all
qed

lemma daggy_edge_refused:
  assumes "daggy_ok D" "a < dag_count D g" "b < dag_count D g" "dag_add_edge D g a b = None"
  shows "(b, a) \<in> (dag_rel D g)\<^sup>*"
proof -
  from assms(1) have "a < dag_count D g \<longrightarrow> b < dag_count D g \<longrightarrow>
      (case dag_add_edge D g a b of
         None \<Rightarrow> (b, a) \<in> (dag_rel D g)\<^sup>*
       | Some h \<Rightarrow> (b, a) \<notin> (dag_rel D g)\<^sup>* \<and> dag_count D h = dag_count D g
           \<and> (\<forall>n. mset (dag_parents D h n) = mset (dag_parents D g n) + (if n = b then {#a#} else {#})))"
    unfolding daggy_ok_def by blast
  with assms(2-4) show ?thesis by simp
qed

lemma daggy_edge_rel:
  assumes "daggy_ok D" "a < dag_count D g" "b < dag_count D g" "dag_add_edge D g a b = Some h"
  shows "dag_rel D h = insert (a, b) (dag_rel D g)"
proof -
  have "set (dag_parents D h n) = set (dag_parents D g n) \<union> (if n = b then {a} else {})" for n
    using arg_cong [OF daggy_edge(3) [OF assms, of n], of set_mset] by (simp split: if_splits)
  then show ?thesis by (auto simp: dag_rel_def split: if_splits)
qed

text \<open>What construction does to the graph it starts from: only new nodes, and new incoming
  edges only at the nodes in \<open>I\<close>.\<close>

definition grows :: "'g daggy \<Rightarrow> nat set \<Rightarrow> ('g, 'v) graph \<Rightarrow> ('g, 'v) graph \<Rightarrow> bool" where
  "grows D I g h \<longleftrightarrow> dag_count D (g_dag g) \<le> dag_count D (g_dag h) \<and> g_index g \<subseteq>\<^sub>m g_index h
     \<and> (\<forall>k < dag_count D (g_dag g). g_nodes h k = g_nodes g k)
     \<and> (\<forall>k < dag_count D (g_dag g). k \<notin> I \<longrightarrow> mset (dag_parents D (g_dag h) k) = mset (dag_parents D (g_dag g) k))
     \<and> g_batch h = g_batch g \<and> g_subgraphs h = g_subgraphs g \<and> g_indegrees h = g_indegrees g"

lemma grows_refl: "grows D I g g"
  by (simp add: grows_def)

lemma grows_trans: "grows D I g h \<Longrightarrow> grows D J h k \<Longrightarrow> J \<inter> {..< dag_count D (g_dag g)} \<subseteq> I \<Longrightarrow> grows D I g k"
proof -
  assume g: "grows D I g h" and h: "grows D J h k" and J: "J \<inter> {..< dag_count D (g_dag g)} \<subseteq> I"
  have "g_index g \<subseteq>\<^sub>m g_index k" using g h by (auto simp: grows_def intro: map_le_trans)
  moreover have "mset (dag_parents D (g_dag k) n) = mset (dag_parents D (g_dag g) n)"
    if "n < dag_count D (g_dag g)" "n \<notin> I" for n
  proof -
    from that J have "n \<notin> J" by auto
    with that g h show ?thesis by (simp add: grows_def)
  qed
  ultimately show ?thesis using g h by (simp add: grows_def)
qed

lemma grows_mono: "grows D {} g h \<Longrightarrow> grows D I g h"
  by (simp add: grows_def)

text \<open>A node whose dependencies have all been entered.\<close>

definition node_done :: "'g daggy \<Rightarrow> (addr \<Rightarrow> (sched_error, addr list) res option) \<Rightarrow> ('g, 'v) graph \<Rightarrow> nat \<Rightarrow> bool" where
  "node_done D deps g k \<longleftrightarrow> (\<exists>ds. deps (n_addr (g_nodes g k)) = Some (Inr ds) \<and> set ds \<subseteq> dom (g_index g)
     \<and> mset (dag_parents D (g_dag g) k) = mset (map (\<lambda>d. the (g_index g d)) ds))"

lemma map_le_the: "m \<subseteq>\<^sub>m m' \<Longrightarrow> set ds \<subseteq> dom m \<Longrightarrow> map (\<lambda>d. the (m' d)) ds = map (\<lambda>d. the (m d)) ds"
  by (intro map_cong refl) (force simp: map_le_def)

lemma node_done_grows:
  assumes "node_done D deps g k" and "grows D I g h" and "k < dag_count D (g_dag g)" and "k \<notin> I"
  shows "node_done D deps h k"
proof -
  from assms(1) obtain ds where ds: "deps (n_addr (g_nodes g k)) = Some (Inr ds)" "set ds \<subseteq> dom (g_index g)"
    "mset (dag_parents D (g_dag g) k) = mset (map (\<lambda>d. the (g_index g d)) ds)" by (auto simp: node_done_def)
  from assms(2) have le: "g_index g \<subseteq>\<^sub>m g_index h" by (simp add: grows_def)
  with ds(2) have "set ds \<subseteq> dom (g_index h)" using map_le_implies_dom_le by blast
  moreover have "mset (dag_parents D (g_dag h) k) = mset (dag_parents D (g_dag g) k)"
    using assms(2-4) by (simp add: grows_def)
  then have "mset (dag_parents D (g_dag h) k) = mset (map (\<lambda>d. the (g_index h d)) ds)"
    unfolding map_le_the [OF le ds(2)] ds(3) .
  moreover have "g_nodes h k = g_nodes g k" using assms(2,3) by (simp add: grows_def)
  ultimately show ?thesis using ds(1) unfolding node_done_def by auto
qed

lemma insert_node_ok:
  assumes D: "daggy_ok D" and g: "graph_ok D g" and a: "g_index g a = None" and ins: "insert_node D a g = (i, h)"
  shows "graph_ok D h" "grows D {} g h" "i = dag_count D (g_dag g)" "dag_count D (g_dag h) = Suc i"
    "n_addr (g_nodes h i) = a" "dag_parents D (g_dag h) i = []" "g_index h a = Some i"
proof -
  let ?c = "dag_count D (g_dag g)"
  note N = daggy_node [OF D, of "g_dag g"]
  have h: "i = ?c" "h = g\<lparr>g_dag := fst (dag_add_node D (g_dag g)), g_nodes := (g_nodes g)(i := node_new a),
      g_index := (g_index g)(a \<mapsto> i)\<rparr>"
    using ins N(1) by (auto simp: insert_node_def split_def)
  have idx: "\<And>b j. g_index g b = Some j \<longleftrightarrow> j < ?c \<and> n_addr (g_nodes g j) = b"
    and rel: "dag_rel D (g_dag g) \<subseteq> {..< ?c} \<times> {..< ?c}" using g by (simp_all add: graph_ok_def)
  have R: "dag_rel D (g_dag h) = dag_rel D (g_dag g)" by (simp add: dag_rel_def h N(3))
  show "i = ?c" by (rule h(1))
  show "dag_count D (g_dag h) = Suc i" by (simp add: h N)
  show "n_addr (g_nodes h i) = a" "g_index h a = Some i" by (simp_all add: h)
  show "dag_parents D (g_dag h) i = []"
  proof (rule ccontr)
    assume "dag_parents D (g_dag h) i \<noteq> []"
    then obtain m where "m \<in> set (dag_parents D (g_dag g) ?c)" by (cases "dag_parents D (g_dag h) i") (auto simp: h N(3))
    then have "(m, ?c) \<in> dag_rel D (g_dag g)" by (simp add: dag_rel_def)
    with rel show False by auto
  qed
  have "g_index h b = Some j \<longleftrightarrow> j < Suc i \<and> n_addr (g_nodes h j) = b" for b j
    using idx [of b j] idx [of a j] a by (auto simp: h less_Suc_eq)
  then show "graph_ok D h" using g rel unfolding graph_ok_def R by (auto simp: h N less_Suc_eq)
  have "g_index g \<subseteq>\<^sub>m g_index h" using a by (auto simp: h map_le_def)
  then show "grows D {} g h" by (simp add: grows_def h N)
qed

lemma add_edge_ok:
  assumes D: "daggy_ok D" and g: "graph_ok D g" and e: "dag_add_edge D (g_dag g) j i = Some dag"
    and b: "j < dag_count D (g_dag g)" "i < dag_count D (g_dag g)"
  shows "graph_ok D (g\<lparr>g_dag := dag\<rparr>)" "grows D {i} g (g\<lparr>g_dag := dag\<rparr>)"
    "mset (dag_parents D dag i) = add_mset j (mset (dag_parents D (g_dag g) i))" "dag_count D dag = dag_count D (g_dag g)"
proof -
  note E = daggy_edge [OF D b e]
  have R: "dag_rel D dag = insert (j, i) (dag_rel D (g_dag g))" by (rule daggy_edge_rel [OF D b e])
  have "acyclic (dag_rel D dag)" using g E(1) unfolding R by (simp add: graph_ok_def acyclic_insert)
  then show "graph_ok D (g\<lparr>g_dag := dag\<rparr>)" using g b unfolding graph_ok_def by (auto simp: R E(2))
  show "grows D {i} g (g\<lparr>g_dag := dag\<rparr>)" by (simp add: grows_def E(2,3))
  show "mset (dag_parents D dag i) = add_mset j (mset (dag_parents D (g_dag g) i))" by (simp add: E(3))
  show "dag_count D dag = dag_count D (g_dag g)" by (rule E(2))
qed

definition built :: "'g daggy \<Rightarrow> (addr \<Rightarrow> (sched_error, addr list) res option) \<Rightarrow> ('g, 'v) graph \<Rightarrow> ('g, 'v) graph \<Rightarrow> bool" where
  "built D deps g h \<longleftrightarrow> (\<forall>k. dag_count D (g_dag g) \<le> k \<longrightarrow> k < dag_count D (g_dag h) \<longrightarrow> node_done D deps h k)"

lemma index_bound: "graph_ok D g \<Longrightarrow> g_index g a = Some i \<Longrightarrow> i < dag_count D (g_dag g)"
  by (simp add: graph_ok_def)

lemma built_trans:
  assumes "built D deps g h" and "grows D I h k" and "built D deps h k" and "\<forall>i \<in> I. i < dag_count D (g_dag g)"
  shows "built D deps g k"
  unfolding built_def
proof (intro allI impI)
  fix n assume n: "dag_count D (g_dag g) \<le> n" "n < dag_count D (g_dag k)"
  show "node_done D deps k n"
  proof (cases "n < dag_count D (g_dag h)")
    case True
    then have "n \<notin> I" using assms(4) n(1) by auto
    then show ?thesis using node_done_grows [OF _ assms(2) True] assms(1) n True by (simp add: built_def)
  qed (use assms(3) n in \<open>simp add: built_def\<close>)
qed

definition rec_spec :: "'g daggy \<Rightarrow> (addr \<Rightarrow> (sched_error, addr list) res option) \<Rightarrow> addr \<Rightarrow> ('g, 'v) graph
    \<Rightarrow> (sched_error, nat) res \<times> ('g, 'v) graph \<Rightarrow> bool" where
  "rec_spec D deps a g rh = (case rh of (r, h) \<Rightarrow> graph_ok D h \<and> grows D {} g h
     \<and> (\<forall>i. r = Inr i \<longrightarrow> g_index h a = Some i \<and> built D deps g h))"

definition deps_spec :: "'g daggy \<Rightarrow> (addr \<Rightarrow> (sched_error, addr list) res option) \<Rightarrow> addr list \<Rightarrow> nat \<Rightarrow> ('g, 'v) graph
    \<Rightarrow> (sched_error, unit) res \<times> ('g, 'v) graph \<Rightarrow> bool" where
  "deps_spec D deps ds i g rh = (case rh of (r, h) \<Rightarrow> graph_ok D h \<and> grows D {i} g h
     \<and> (r = Inr () \<longrightarrow> set ds \<subseteq> dom (g_index h) \<and> built D deps g h
          \<and> mset (dag_parents D (g_dag h) i) = mset (dag_parents D (g_dag g) i) + mset (map (\<lambda>d. the (g_index h d)) ds)))"

lemma deps_spec_Cons:
  assumes D: "daggy_ok D" and i: "i < dag_count D (g_dag g)" and r1: "rec_spec D deps d g (Inr j, g1)"
    and e: "dag_add_edge D (g_dag g1) j i = Some dag" and r2: "deps_spec D deps ds i (g1\<lparr>g_dag := dag\<rparr>) (r, h)"
  shows "deps_spec D deps (d # ds) i g (r, h)"
proof -
  let ?g2 = "g1\<lparr>g_dag := dag\<rparr>"
  from r1 have g1: "graph_ok D g1" "grows D {} g g1" "g_index g1 d = Some j" "built D deps g g1"
    by (simp_all add: rec_spec_def)
  have b: "j < dag_count D (g_dag g1)" "i < dag_count D (g_dag g1)"
    using index_bound [OF g1(1,3)] g1(2) i by (auto simp: grows_def)
  note E = add_edge_ok [OF D g1(1) e b]
  from r2 have h: "graph_ok D h" "grows D {i} ?g2 h" by (simp_all add: deps_spec_def)
  have gr: "grows D {i} g1 h" using grows_trans [OF E(2) h(2)] by simp
  have "grows D {i} g h" using grows_trans [OF grows_mono [OF g1(2)] gr] by simp
  moreover have "set (d # ds) \<subseteq> dom (g_index h) \<and> built D deps g h
      \<and> mset (dag_parents D (g_dag h) i) = mset (dag_parents D (g_dag g) i) + mset (map (\<lambda>d. the (g_index h d)) (d # ds))"
    if "r = Inr ()"
  proof -
    from r2 that have s: "set ds \<subseteq> dom (g_index h)" "built D deps ?g2 h"
      "mset (dag_parents D (g_dag h) i) = mset (dag_parents D dag i) + mset (map (\<lambda>d. the (g_index h d)) ds)"
      by (simp_all add: deps_spec_def)
    have "g_index h d = Some j" using gr g1(3) by (auto simp: grows_def map_le_def dom_def)
    moreover have "mset (dag_parents D (g_dag g1) i) = mset (dag_parents D (g_dag g) i)"
      using g1(2) i by (simp add: grows_def)
    moreover have "built D deps g1 h" using s(2) E(4) by (simp add: built_def)
    then have "built D deps g h" using built_trans [OF g1(4) gr] i by simp
    ultimately show ?thesis using s E(3) by auto
  qed
  ultimately show ?thesis using h(1) by (simp add: deps_spec_def)
qed

lemma rec_spec_new:
  assumes D: "daggy_ok D" and g: "graph_ok D g" and a: "g_index g a = None" "deps a = Some (Inr ds)"
    and ins: "insert_node D a g = (i, g1)" and d: "deps_spec D deps ds i g1 (r, h)"
  shows "rec_spec D deps a g (case r of Inl e \<Rightarrow> Inl e | Inr _ \<Rightarrow> Ok i, h)"
proof -
  note I = insert_node_ok [OF D g a(1) ins]
  from d have h: "graph_ok D h" "grows D {i} g1 h" by (simp_all add: deps_spec_def)
  have gr: "grows D {} g h" using grows_trans [OF I(2) h(2)] I(3) by simp
  moreover have "g_index h a = Some i" using h(2) I(7) by (auto simp: grows_def map_le_def dom_def)
  moreover have "built D deps g h" if "r = Inr ()"
  proof -
    from d that have s: "set ds \<subseteq> dom (g_index h)" "built D deps g1 h"
      "mset (dag_parents D (g_dag h) i) = mset (map (\<lambda>d. the (g_index h d)) ds)"
      by (simp_all add: deps_spec_def I(6))
    have "g_nodes h i = g_nodes g1 i" using h(2) I(4) by (simp add: grows_def)
    then have "node_done D deps h i" using a(2) s I(5) by (auto simp: node_done_def)
    then show ?thesis using s(2) I(3,4) unfolding built_def by (metis Suc_leI le_neq_implies_less)
  qed
  ultimately show ?thesis using h(1) by (auto simp: rec_spec_def split: sum.split)
qed

text \<open>One call of each, given what the calls it makes keep to.\<close>

lemma rec_step:
  assumes "daggy_ok D" and "graph_ok D g" and "add_recursive (Suc f) D deps a g = Some rh"
    and IH: "\<And>i g1 ds rh. g_index g a = None \<Longrightarrow> deps a = Some (Inr ds) \<Longrightarrow> insert_node D a g = (i, g1) \<Longrightarrow> graph_ok D g1 \<Longrightarrow>
      i < dag_count D (g_dag g1) \<Longrightarrow> add_deps f D deps ds i g1 = Some rh \<Longrightarrow> deps_spec D deps ds i g1 rh"
  shows "rec_spec D deps a g rh"
proof (cases "g_index g a")
  case (Some i)
  with assms(2,3) show ?thesis by (auto simp: rec_spec_def grows_refl built_def)
next
  case None
  show ?thesis
  proof (cases "deps a")
    case N: None
    with None assms(2,3) show ?thesis by (auto simp: rec_spec_def grows_refl)
  next
    case S: (Some r)
    obtain i g1 where ins: "insert_node D a g = (i, g1)" by (cases "insert_node D a g")
    note I = insert_node_ok [OF assms(1,2) None ins]
    show ?thesis
    proof (cases r)
      case (Inl e)
      with assms(3) None S ins I show ?thesis by (auto simp: rec_spec_def)
    next
      case (Inr ds)
      with assms(3) None S ins obtain q h where q: "add_deps f D deps ds i g1 = Some (q, h)"
        by (auto split: option.splits)
      have "deps_spec D deps ds i g1 (q, h)" by (rule IH [OF None _ ins I(1) _ q]) (simp_all add: I S Inr)
      from rec_spec_new [OF assms(1,2) None _ ins this] S Inr
      have "rec_spec D deps a g (case q of Inl e \<Rightarrow> Inl e | Inr _ \<Rightarrow> Ok i, h)" by simp
      with assms(3) None S Inr ins q show ?thesis by (auto split: sum.splits)
    qed
  qed
qed

lemma deps_step:
  assumes "daggy_ok D" and "i < dag_count D (g_dag g)" and "add_deps f D deps (d # ds) i g = Some rh"
    and R: "\<And>rh. add_recursive f D deps d g = Some rh \<Longrightarrow> rec_spec D deps d g rh"
    and IH: "\<And>j g1 dag rh. add_recursive f D deps d g = Some (Ok j, g1) \<Longrightarrow> dag_add_edge D (g_dag g1) j i = Some dag \<Longrightarrow>
      graph_ok D (g1\<lparr>g_dag := dag\<rparr>) \<Longrightarrow> i < dag_count D dag \<Longrightarrow> add_deps f D deps ds i (g1\<lparr>g_dag := dag\<rparr>) = Some rh \<Longrightarrow>
      deps_spec D deps ds i (g1\<lparr>g_dag := dag\<rparr>) rh"
  shows "deps_spec D deps (d # ds) i g rh"
proof -
  from assms(3) obtain q g1 where q: "add_recursive f D deps d g = Some (q, g1)" by (auto split: option.splits)
  note R = R [OF q]
  show ?thesis
  proof (cases q)
    case (Inl e)
    with assms(3) q R show ?thesis by (auto simp: deps_spec_def rec_spec_def grows_mono)
  next
    case (Inr j)
    show ?thesis
    proof (cases "dag_add_edge D (g_dag g1) j i")
      case None
      with assms(3) q R Inr show ?thesis by (auto simp: deps_spec_def rec_spec_def grows_mono)
    next
      case (Some dag)
      from R Inr have g1: "graph_ok D g1" "grows D {} g g1" "g_index g1 d = Some j" by (simp_all add: rec_spec_def)
      have i1: "i < dag_count D (g_dag g1)" using g1(2) assms(2) by (simp add: grows_def)
      note E = add_edge_ok [OF assms(1) g1(1) Some index_bound [OF g1(1,3)] i1]
      from assms(3) q Inr Some have a: "add_deps f D deps ds i (g1\<lparr>g_dag := dag\<rparr>) = Some rh" by simp
      have "deps_spec D deps ds i (g1\<lparr>g_dag := dag\<rparr>) rh"
        by (rule IH [OF q [unfolded Inr] Some E(1) _ a]) (use E(4) i1 in simp)
      with deps_spec_Cons [OF assms(1,2) _ Some] R Inr show ?thesis by (cases rh) simp
    qed
  qed
qed

lemma add_specs:
  shows "daggy_ok D \<Longrightarrow> graph_ok D g \<Longrightarrow> add_recursive f D deps a g = Some rh \<Longrightarrow> rec_spec D deps a g rh"
    and "daggy_ok D \<Longrightarrow> graph_ok D g \<Longrightarrow> i < dag_count D (g_dag g) \<Longrightarrow> add_deps f D deps ds i g = Some rh' \<Longrightarrow>
      deps_spec D deps ds i g rh'"
proof (induction f D deps a g and f D deps ds i g arbitrary: rh and rh' rule: add_recursive_add_deps.induct)
  case (2 f D deps a g)
  show ?case by (rule rec_step [OF "2.prems"]) (rule "2.IH" [OF _ _ sym refl refl "2.prems"(1)])
next
  case (4 f D deps d ds i g)
  show ?case
  proof (rule deps_step [OF "4.prems"(1,3,4)])
    show "rec_spec D deps d g r" if "add_recursive f D deps d g = Some r" for r by (rule "4.IH"(1) [OF "4.prems"(1,2) that])
    show "deps_spec D deps ds i (g1\<lparr>g_dag := dag\<rparr>) r"
      if q: "add_recursive f D deps d g = Some (Ok j, g1)" and e: "dag_add_edge D (g_dag g1) j i = Some dag"
        and ok: "graph_ok D (g1\<lparr>g_dag := dag\<rparr>)" and i: "i < dag_count D dag" and a: "add_deps f D deps ds i (g1\<lparr>g_dag := dag\<rparr>) = Some r"
      for j g1 dag r
      by (rule "4.IH"(2) [OF q refl refl e "4.prems"(1) ok _ a]) (simp add: i)
  qed
qed (auto simp: deps_spec_def grows_refl built_def)

section \<open>Enough fuel\<close>

lemma rest_mono:
  assumes "finite (dom deps)" and "grows D I g h"
  shows "card (dom deps - dom (g_index h)) \<le> card (dom deps - dom (g_index g))"
proof (rule card_mono)
  show "dom deps - dom (g_index h) \<subseteq> dom deps - dom (g_index g)"
    using assms(2) map_le_implies_dom_le by (auto simp: grows_def)
qed (use assms(1) in simp)

lemma add_fuel:
  shows "daggy_ok D \<Longrightarrow> graph_ok D g \<Longrightarrow> finite (dom deps) \<Longrightarrow> card (dom deps - dom (g_index g)) < f \<Longrightarrow>
      \<exists>rh. add_recursive f D deps a g = Some rh"
    and "daggy_ok D \<Longrightarrow> graph_ok D g \<Longrightarrow> i < dag_count D (g_dag g) \<Longrightarrow> finite (dom deps) \<Longrightarrow>
      card (dom deps - dom (g_index g)) < f \<Longrightarrow> \<exists>rh. add_deps f D deps ds i g = Some rh"
proof (induction f D deps a g and f D deps ds i g rule: add_recursive_add_deps.induct)
  case (2 f D deps a g)
  show ?case
  proof (cases "g_index g a")
    case None
    show ?thesis
    proof (cases "deps a")
      case S: (Some r)
      obtain i g1 where ins: "insert_node D a g = (i, g1)" by (cases "insert_node D a g")
      note I = insert_node_ok [OF "2.prems"(1,2) None ins]
      have "dom (g_index g1) = insert a (dom (g_index g))" using ins by (auto simp: insert_node_def split_def Let_def)
      then have e: "dom deps - dom (g_index g1) = dom deps - dom (g_index g) - {a}" by auto
      have "a \<in> dom deps - dom (g_index g)" using S None by auto
      from card_Diff1_less [OF _ this] "2.prems"(3,4) have c: "card (dom deps - dom (g_index g1)) < f"
        unfolding e by simp
      show ?thesis
      proof (cases r)
        case (Inr ds)
        have "\<exists>rh. add_deps f D deps ds i g1 = Some rh"
          by (rule "2.IH" [OF None S ins [symmetric] refl Inr "2.prems"(1) I(1) _ "2.prems"(3) c]) (simp add: I)
        with None S ins Inr show ?thesis by (auto split: sum.splits)
      qed (use None S ins in simp)
    qed (use None in simp)
  qed simp
next
  case (4 f D deps d ds i g)
  from "4.IH"(1) [OF "4.prems"(1,2,4,5)] obtain q g1 where q: "add_recursive f D deps d g = Some (q, g1)" by auto
  note R = add_specs(1) [OF "4.prems"(1,2) q]
  show ?case
  proof (cases q)
    case (Inr j)
    from R Inr have g1: "graph_ok D g1" "grows D {} g g1" "g_index g1 d = Some j" by (simp_all add: rec_spec_def)
    have i1: "i < dag_count D (g_dag g1)" using g1(2) "4.prems"(3) by (simp add: grows_def)
    show ?thesis
    proof (cases "dag_add_edge D (g_dag g1) j i")
      case (Some dag)
      note E = add_edge_ok [OF "4.prems"(1) g1(1) Some index_bound [OF g1(1,3)] i1]
      have "card (dom deps - dom (g_index (g1\<lparr>g_dag := dag\<rparr>))) < f"
        using rest_mono [OF "4.prems"(4) g1(2)] "4.prems"(5) by simp
      then have "\<exists>rh. add_deps f D deps ds i (g1\<lparr>g_dag := dag\<rparr>) = Some rh"
        by (intro "4.IH"(2) [OF q refl Inr Some "4.prems"(1) E(1) _ "4.prems"(4)]) (simp add: E(4) i1)
      with q Inr Some show ?thesis by simp
    qed (use q Inr in simp)
  qed (use q in simp)
qed simp_all

section \<open>The subgraph of a root\<close>

definition bfs_left :: "'g daggy \<Rightarrow> 'g \<Rightarrow> nat list \<Rightarrow> nat set \<Rightarrow> nat" where
  "bfs_left D g q S = length q + (\<Sum>n \<in> {..< dag_count D g} - S. length (dag_parents D g n))"

lemma bfs_left_visit:
  assumes "n < dag_count D g" and "n \<notin> S"
  shows "bfs_left D g (n # q) S = Suc (bfs_left D g (q @ dag_parents D g n) (insert n S))"
proof -
  have "{..< dag_count D g} - S = insert n ({..< dag_count D g} - insert n S)" using assms by auto
  moreover have "n \<notin> {..< dag_count D g} - insert n S" by simp
  ultimately have "(\<Sum>k \<in> {..< dag_count D g} - S. length (dag_parents D g k))
      = length (dag_parents D g n) + (\<Sum>k \<in> {..< dag_count D g} - insert n S. length (dag_parents D g k))"
    by (simp only: sum.insert finite_Diff finite_lessThan not_False_eq_True)
  then show ?thesis by (simp only: bfs_left_def length_Cons length_append)
qed

lemma bfs_spec:
  assumes rel: "dag_rel D g \<subseteq> {..< dag_count D g} \<times> {..< dag_count D g}"
  shows "bfs_left D g q S \<le> f \<Longrightarrow> set q \<subseteq> {..< dag_count D g} \<Longrightarrow>
     \<forall>(m, n) \<in> dag_rel D g. n \<in> S \<longrightarrow> m \<in> S \<union> set q \<Longrightarrow>
     \<exists>T. bfs f D g q S = Some T \<and> S \<union> set q \<subseteq> T \<and> (\<forall>(m, n) \<in> dag_rel D g. n \<in> T \<longrightarrow> m \<in> T)
       \<and> T \<subseteq> S \<union> {m. \<exists>n \<in> set q. (m, n) \<in> (dag_rel D g)\<^sup>*}"
proof (induction f arbitrary: q S)
  case 0
  then show ?case by (cases q) (auto simp: bfs_left_def)
next
  case (Suc f)
  show ?case
  proof (cases q)
    case Nil
    with Suc.prems(3) show ?thesis by auto
  next
    case (Cons n q')
    show ?thesis
    proof (cases "n \<in> S")
      case True
      have "bfs_left D g q' S \<le> f" "set q' \<subseteq> {..< dag_count D g}" using Suc.prems Cons by (auto simp: bfs_left_def)
      moreover have "\<forall>(m, n) \<in> dag_rel D g. n \<in> S \<longrightarrow> m \<in> S \<union> set q'" using Suc.prems(3) Cons True by auto
      ultimately show ?thesis using Suc.IH [of q' S] Cons True by auto
    next
      case False
      let ?q = "q' @ dag_parents D g n"
      have n: "n < dag_count D g" using Suc.prems(2) Cons by simp
      have ps: "set (dag_parents D g n) = {m. (m, n) \<in> dag_rel D g}" by (auto simp: dag_rel_def)
      have "bfs_left D g ?q (insert n S) \<le> f" using Suc.prems(1) bfs_left_visit [OF n False, of q'] Cons by simp
      moreover have "set ?q \<subseteq> {..< dag_count D g}" using Suc.prems(2) Cons ps rel by auto
      moreover have "\<forall>(m, k) \<in> dag_rel D g. k \<in> insert n S \<longrightarrow> m \<in> insert n S \<union> set ?q"
        using Suc.prems(3) Cons ps by auto
      ultimately obtain T where T: "bfs f D g ?q (insert n S) = Some T" "insert n S \<union> set ?q \<subseteq> T"
        "\<forall>(m, n) \<in> dag_rel D g. n \<in> T \<longrightarrow> m \<in> T"
        "T \<subseteq> insert n S \<union> {m. \<exists>n \<in> set ?q. (m, n) \<in> (dag_rel D g)\<^sup>*}" using Suc.IH by blast
      have "{m. \<exists>k \<in> set ?q. (m, k) \<in> (dag_rel D g)\<^sup>*} \<subseteq> {m. \<exists>k \<in> set q. (m, k) \<in> (dag_rel D g)\<^sup>*}"
        using Cons ps by (auto intro: rtrancl_into_rtrancl)
      with T Cons False show ?thesis by auto
    qed
  qed
qed

lemma bfs_ancestors:
  assumes rel: "dag_rel D g \<subseteq> {..< dag_count D g} \<times> {..< dag_count D g}" and i: "i < dag_count D g"
  shows "bfs (bfs_fuel D g) D g [i] {} = Some {m. (m, i) \<in> (dag_rel D g)\<^sup>*}"
proof -
  have "bfs_left D g [i] {} \<le> bfs_fuel D g" by (simp add: bfs_left_def bfs_fuel_def lessThan_def)
  from bfs_spec [OF rel this] i obtain T where T: "bfs (bfs_fuel D g) D g [i] {} = Some T" "i \<in> T"
    "\<forall>(m, n) \<in> dag_rel D g. n \<in> T \<longrightarrow> m \<in> T" "T \<subseteq> {m. (m, i) \<in> (dag_rel D g)\<^sup>*}" by auto
  have "m \<in> T" if "(m, i) \<in> (dag_rel D g)\<^sup>*" for m
    using that by (induction rule: converse_rtrancl_induct) (use T(2,3) in auto)
  with T show ?thesis by auto
qed

section \<open>The result of \<open>add\<close>\<close>

lemma sum_count_filter: "finite S \<Longrightarrow> (\<Sum>n \<in> S. count_list xs n) = length (filter (\<lambda>x. x \<in> S) xs)"
proof (induction xs)
  case (Cons x xs)
  have "(\<Sum>n \<in> S. count_list (x # xs) n) = (\<Sum>n \<in> S. count_list xs n + (if n = x then 1 else 0))"
    by (intro sum.cong) auto
  also have "\<dots> = (\<Sum>n \<in> S. count_list xs n) + (if x \<in> S then 1 else 0)"
    using Cons.prems by (simp add: sum.distrib)
  finally show ?case using Cons by simp
qed simp

lemma graph_new_ok: "daggy_ok D \<Longrightarrow> graph_ok D (graph_new D n)"
  by (simp add: graph_ok_def graph_new_def daggy_ok_def dag_rel_def acyclic_def)

lemma graph_add_ok:
  assumes D: "daggy_ok D" and g: "graph_ok D g" and add: "graph_add f D deps a g = Some (Inr i, h)"
  shows "graph_ok D h" "g_index h a = Some i" "g_batch h = g_batch g"
    "g_subgraphs h a = Some {m. (m, i) \<in> (dag_rel D (g_dag h))\<^sup>*}"
    "g_indegrees h a = Some (indegree_template D (g_dag h) {m. (m, i) \<in> (dag_rel D (g_dag h))\<^sup>*})"
    "\<forall>k. dag_count D (g_dag g) \<le> k \<and> k < dag_count D (g_dag h) \<longrightarrow> node_done D deps h k"
proof -
  from add obtain g1 where r: "add_recursive f D deps a g = Some (Inr i, g1)"
    by (auto simp: graph_add_def split: option.splits prod.splits sum.splits)
  from add_specs(1) [OF D g r] have g1: "graph_ok D g1" "grows D {} g g1" "g_index g1 a = Some i" "built D deps g g1"
    by (simp_all add: rec_spec_def)
  have rel: "dag_rel D (g_dag g1) \<subseteq> {..< dag_count D (g_dag g1)} \<times> {..< dag_count D (g_dag g1)}"
    using g1(1) by (simp add: graph_ok_def)
  let ?S = "{m. (m, i) \<in> (dag_rel D (g_dag g1))\<^sup>*}"
  have h: "h = g1\<lparr>g_subgraphs := (g_subgraphs g1)(a \<mapsto> ?S),
      g_indegrees := (g_indegrees g1)(a \<mapsto> indegree_template D (g_dag g1) ?S)\<rparr>"
    using add r bfs_ancestors [OF rel index_bound [OF g1(1,3)]] by (simp add: graph_add_def)
  show "graph_ok D h" using g1(1) by (simp add: graph_ok_def h)
  show "g_index h a = Some i" "g_batch h = g_batch g" using g1 by (simp_all add: h grows_def)
  show "g_subgraphs h a = Some {m. (m, i) \<in> (dag_rel D (g_dag h))\<^sup>*}"
    "g_indegrees h a = Some (indegree_template D (g_dag h) {m. (m, i) \<in> (dag_rel D (g_dag h))\<^sup>*})"
    by (simp_all add: h)
  show "\<forall>k. dag_count D (g_dag g) \<le> k \<and> k < dag_count D (g_dag h) \<longrightarrow> node_done D deps h k"
    using g1(4) by (simp add: built_def node_done_def h)
qed

lemma dispatch_of_wf:
  assumes D: "daggy_ok D" and g: "graph_ok D g" and add: "graph_add f D deps a g = Some (Inr i, h)" and b: "0 < g_batch g"
  shows "dispatch_wf (dispatch_of D h a registered panics)"
proof -
  note A = graph_add_ok [OF D g add]
  let ?R = "dag_rel D (g_dag h)" and ?p = "dispatch_of D h a registered panics"
  let ?S = "{m. (m, i) \<in> ?R\<^sup>*}"
  have p: "kids ?p = dag_children D (g_dag h)" "sub ?p = ?S" "template ?p = indegree_template D (g_dag h) ?S" "batch ?p = g_batch g"
    by (simp_all add: dispatch_of_def A)
  have rel: "?R \<subseteq> {..< dag_count D (g_dag h)} \<times> {..< dag_count D (g_dag h)}" using A(1) by (simp add: graph_ok_def)
  have "?S \<subseteq> {..< dag_count D (g_dag h)}"
    using rel index_bound [OF A(1,2)] by (auto elim: converse_rtranclE)
  then have fin: "finite ?S" using finite_subset by blast
  have dual: "count_list (dag_children D (g_dag h) m) n = count_list (dag_parents D (g_dag h) n) m" for m n
    using D by (simp add: daggy_ok_def)
  have "n \<in> set (dag_children D (g_dag h) m) \<longleftrightarrow> (m, n) \<in> ?R" for m n
    using dual [of m n] count_list_0_iff [of "dag_children D (g_dag h) m" n]
      count_list_0_iff [of "dag_parents D (g_dag h) n" m] by (auto simp: dag_rel_def)
  then have "edges ?p \<subseteq> ?R" by (auto simp: edges_def p)
  then have "acyclic (edges ?p)" using A(1) by (auto simp: graph_ok_def intro: acyclic_subset)
  moreover have "open_edges ?p {} c = length (filter (\<lambda>x. x \<in> ?S) (dag_parents D (g_dag h) c))" for c
    by (simp add: open_edges_def p dual sum_count_filter [OF fin])
  ultimately show ?thesis using fin b by (simp add: dispatch_wf_def p indegree_template_def)
qed

section \<open>Dependencies of addresses\<close>

definition dep_rel :: "(addr \<Rightarrow> (sched_error, addr list) res option) \<Rightarrow> (addr \<times> addr) set" where
  "dep_rel deps = {(d, b). \<exists>ds. deps b = Some (Inr ds) \<and> d \<in> set ds}"

lemma rel_of_deps:
  assumes g: "graph_ok D g" and dn: "\<forall>k < dag_count D (g_dag g). node_done D deps g k"
    and b: "g_index g b = Some n" and d: "(d, b) \<in> dep_rel deps"
  shows "\<exists>m. g_index g d = Some m \<and> (m, n) \<in> dag_rel D (g_dag g)"
proof -
  have n: "n < dag_count D (g_dag g)" "n_addr (g_nodes g n) = b" using g b by (simp_all add: graph_ok_def)
  with dn obtain ds where ds: "deps b = Some (Inr ds)" "set ds \<subseteq> dom (g_index g)"
    "mset (dag_parents D (g_dag g) n) = mset (map (\<lambda>d. the (g_index g d)) ds)" by (auto simp: node_done_def)
  from d ds(1) have "d \<in> set ds" by (auto simp: dep_rel_def)
  with ds(2) obtain m where m: "g_index g d = Some m" by blast
  have "set (dag_parents D (g_dag g) n) = (\<lambda>d. the (g_index g d)) ` set ds"
    using arg_cong [OF ds(3), of set_mset] by simp
  with \<open>d \<in> set ds\<close> m have "m \<in> set (dag_parents D (g_dag g) n)" by force
  with m show ?thesis by (auto simp: dag_rel_def)
qed

lemma deps_of_rel:
  assumes g: "graph_ok D g" and dn: "\<forall>k < dag_count D (g_dag g). node_done D deps g k"
    and mn: "(m, n) \<in> dag_rel D (g_dag g)"
  shows "(n_addr (g_nodes g m), n_addr (g_nodes g n)) \<in> dep_rel deps"
proof -
  have n: "n < dag_count D (g_dag g)" using g mn by (auto simp: graph_ok_def)
  with dn obtain ds where ds: "deps (n_addr (g_nodes g n)) = Some (Inr ds)" "set ds \<subseteq> dom (g_index g)"
    "mset (dag_parents D (g_dag g) n) = mset (map (\<lambda>d. the (g_index g d)) ds)" by (auto simp: node_done_def)
  have "set (dag_parents D (g_dag g) n) = (\<lambda>d. the (g_index g d)) ` set ds"
    using arg_cong [OF ds(3), of set_mset] by simp
  with mn obtain d where d: "d \<in> set ds" "m = the (g_index g d)" by (auto simp: dag_rel_def)
  with ds(2) have "g_index g d = Some m" by force
  then have "n_addr (g_nodes g m) = d" using g by (simp add: graph_ok_def)
  with d(1) ds(1) show ?thesis by (auto simp: dep_rel_def)
qed

lemma reach_index:
  assumes g: "graph_ok D g" and dn: "\<forall>k < dag_count D (g_dag g). node_done D deps g k"
    and a: "g_index g a = Some i" and b: "(b, a) \<in> (dep_rel deps)\<^sup>*"
  shows "\<exists>m. g_index g b = Some m \<and> (m, i) \<in> (dag_rel D (g_dag g))\<^sup>*"
  using b
proof (induction rule: converse_rtrancl_induct)
  case base
  then show ?case using a by blast
next
  case (step c d)
  then obtain m where m: "g_index g d = Some m" "(m, i) \<in> (dag_rel D (g_dag g))\<^sup>*" by blast
  from rel_of_deps [OF g dn m(1) step.hyps(1)] m(2) show ?case by (meson converse_rtrancl_into_rtrancl)
qed

lemma trancl_index:
  assumes g: "graph_ok D g" and dn: "\<forall>k < dag_count D (g_dag g). node_done D deps g k"
    and n: "g_index g b = Some n" and b: "(c, b) \<in> (dep_rel deps)\<^sup>+"
  shows "\<exists>m. g_index g c = Some m \<and> (m, n) \<in> (dag_rel D (g_dag g))\<^sup>+"
  using b
proof (induction rule: converse_trancl_induct)
  case (base c)
  then show ?case using rel_of_deps [OF g dn n] by blast
next
  case (step c d)
  then obtain m where m: "g_index g d = Some m" "(m, n) \<in> (dag_rel D (g_dag g))\<^sup>+" by blast
  from rel_of_deps [OF g dn m(1) step.hyps(1)] m(2) show ?case by (meson trancl_into_trancl2)
qed

lemma rel_reach:
  assumes g: "graph_ok D g" and dn: "\<forall>k < dag_count D (g_dag g). node_done D deps g k"
    and m: "(m, i) \<in> (dag_rel D (g_dag g))\<^sup>*"
  shows "(n_addr (g_nodes g m), n_addr (g_nodes g i)) \<in> (dep_rel deps)\<^sup>*"
  using m
proof (induction rule: converse_rtrancl_induct)
  case (step m n)
  with deps_of_rel [OF g dn step.hyps(1)] show ?case by (meson converse_rtrancl_into_rtrancl)
qed simp

lemma fresh_graph_add:
  assumes D: "daggy_ok D" and add: "graph_add f D deps a (graph_new D b) = Some (Inr i, h)"
  shows "graph_ok D h" "g_index h a = Some i" "g_batch h = b"
    "\<forall>k < dag_count D (g_dag h). node_done D deps h k"
    "g_subgraphs h a = Some {m. m < dag_count D (g_dag h) \<and> (n_addr (g_nodes h m), a) \<in> (dep_rel deps)\<^sup>*}"
proof -
  note A = graph_add_ok [OF D graph_new_ok [OF D] add]
  show "graph_ok D h" "g_index h a = Some i" by (rule A)+
  show "g_batch h = b" using A(3) by (simp add: graph_new_def)
  show dn: "\<forall>k < dag_count D (g_dag h). node_done D deps h k"
    using A(6) D by (simp add: graph_new_def daggy_ok_def)
  have ia: "i < dag_count D (g_dag h)" "n_addr (g_nodes h i) = a" using A(1,2) by (simp_all add: graph_ok_def)
  have "m < dag_count D (g_dag h) \<and> (n_addr (g_nodes h m), a) \<in> (dep_rel deps)\<^sup>*
      \<longleftrightarrow> (m, i) \<in> (dag_rel D (g_dag h))\<^sup>*" for m
  proof
    assume m: "(m, i) \<in> (dag_rel D (g_dag h))\<^sup>*"
    then have "m < dag_count D (g_dag h)" using A(1) ia(1) by (auto simp: graph_ok_def elim: converse_rtranclE)
    with rel_reach [OF A(1) dn m] ia(2)
    show "m < dag_count D (g_dag h) \<and> (n_addr (g_nodes h m), a) \<in> (dep_rel deps)\<^sup>*" by simp
  next
    assume m: "m < dag_count D (g_dag h) \<and> (n_addr (g_nodes h m), a) \<in> (dep_rel deps)\<^sup>*"
    then have "g_index h (n_addr (g_nodes h m)) = Some m" using A(1) by (simp add: graph_ok_def)
    with reach_index [OF A(1) dn A(2)] m show "(m, i) \<in> (dag_rel D (g_dag h))\<^sup>*" by fastforce
  qed
  then show "g_subgraphs h a = Some {m. m < dag_count D (g_dag h) \<and> (n_addr (g_nodes h m), a) \<in> (dep_rel deps)\<^sup>*}"
    using A(4) by simp
qed

section \<open>Projects whose graph can be built\<close>

text \<open>Every transitive dependency is a transform whose \<open>depends()\<close> succeeds, and none of them
  depends on itself.\<close>

definition buildable :: "(addr \<Rightarrow> (sched_error, addr list) res option) \<Rightarrow> addr \<Rightarrow> bool" where
  "buildable deps a \<longleftrightarrow> (\<forall>c. (c, a) \<in> (dep_rel deps)\<^sup>* \<longrightarrow>
     (\<exists>ds. deps c = Some (Inr ds)) \<and> (c, c) \<notin> (dep_rel deps)\<^sup>+)"

lemma buildable_dep: "buildable deps a \<Longrightarrow> (d, a) \<in> dep_rel deps \<Longrightarrow> buildable deps d"
  unfolding buildable_def by (meson rtrancl.rtrancl_into_rtrancl)

text \<open>Every edge of a graph under construction comes from a declared dependency.\<close>

definition edges_declared :: "'g daggy \<Rightarrow> (addr \<Rightarrow> (sched_error, addr list) res option) \<Rightarrow> ('g, 'v) graph \<Rightarrow> bool" where
  "edges_declared D deps g \<longleftrightarrow>
     (\<forall>(m, n) \<in> dag_rel D (g_dag g). (n_addr (g_nodes g m), n_addr (g_nodes g n)) \<in> dep_rel deps)"

lemma edges_declared_path:
  assumes "edges_declared D deps g" and "(m, n) \<in> (dag_rel D (g_dag g))\<^sup>*"
  shows "(n_addr (g_nodes g m), n_addr (g_nodes g n)) \<in> (dep_rel deps)\<^sup>*"
  using assms(2)
proof (induction rule: rtrancl_induct)
  case (step k n)
  then show ?case using assms(1) by (fastforce simp: edges_declared_def intro: rtrancl.rtrancl_into_rtrancl)
qed simp

lemma edges_declared_new:
  assumes "daggy_ok D" and "graph_ok D g" and "edges_declared D deps g" and "insert_node D a g = (i, h)"
  shows "edges_declared D deps h"
proof -
  have h: "g_dag h = fst (dag_add_node D (g_dag g))" "g_nodes h = (g_nodes g)(dag_count D (g_dag g) := node_new a)"
    using assms(4) daggy_node(1) [OF assms(1), of "g_dag g"] by (auto simp: insert_node_def split_def)
  have "dag_rel D (g_dag h) = dag_rel D (g_dag g)" by (simp add: dag_rel_def h daggy_node(3) [OF assms(1)])
  then show ?thesis using assms(2,3) unfolding edges_declared_def h(2) graph_ok_def by auto
qed

lemma declared_edge_accepted:
  assumes D: "daggy_ok D" and g: "graph_ok D g" "edges_declared D deps g"
    and j: "g_index g d = Some j" and i: "i < dag_count D (g_dag g)" "n_addr (g_nodes g i) = a"
    and d: "(d, a) \<in> dep_rel deps" "(a, a) \<notin> (dep_rel deps)\<^sup>+"
  shows "\<exists>dag. dag_add_edge D (g_dag g) j i = Some dag \<and> edges_declared D deps (g\<lparr>g_dag := dag\<rparr>)"
proof -
  have jd: "j < dag_count D (g_dag g)" "n_addr (g_nodes g j) = d" using g(1) j by (simp_all add: graph_ok_def)
  have "(i, j) \<notin> (dag_rel D (g_dag g))\<^sup>*"
  proof
    assume "(i, j) \<in> (dag_rel D (g_dag g))\<^sup>*"
    from edges_declared_path [OF g(2) this] have "(a, d) \<in> (dep_rel deps)\<^sup>*" by (simp add: jd i)
    with d show False by (meson rtrancl_into_trancl1)
  qed
  then obtain dag where e: "dag_add_edge D (g_dag g) j i = Some dag"
    using daggy_edge_refused [OF D jd(1) i(1)] by (cases "dag_add_edge D (g_dag g) j i") auto
  have "edges_declared D deps (g\<lparr>g_dag := dag\<rparr>)"
    using g(2) d(1) by (auto simp: edges_declared_def daggy_edge_rel [OF D jd(1) i(1) e] jd i)
  with e show ?thesis by blast
qed

lemma add_succeeds:
  shows "daggy_ok D \<Longrightarrow> graph_ok D g \<Longrightarrow> edges_declared D deps g \<Longrightarrow> buildable deps a \<Longrightarrow>
      add_recursive f D deps a g = Some (r, h) \<Longrightarrow> (\<exists>k. r = Inr k) \<and> edges_declared D deps h"
    and "daggy_ok D \<Longrightarrow> graph_ok D g \<Longrightarrow> edges_declared D deps g \<Longrightarrow> i < dag_count D (g_dag g) \<Longrightarrow>
      buildable deps (n_addr (g_nodes g i)) \<Longrightarrow> \<forall>d \<in> set ds. (d, n_addr (g_nodes g i)) \<in> dep_rel deps \<Longrightarrow>
      add_deps f D deps ds i g = Some (r', h') \<Longrightarrow> r' = Inr () \<and> edges_declared D deps h'"
proof (induction f D deps a g and f D deps ds i g arbitrary: r h and r' h' rule: add_recursive_add_deps.induct)
  case (2 f D deps a g)
  show ?case
  proof (cases "g_index g a")
    case None
    from "2.prems"(4) obtain ds where ds: "deps a = Some (Inr ds)" unfolding buildable_def by blast
    obtain i g1 where ins: "insert_node D a g = (i, g1)" by (cases "insert_node D a g")
    note I = insert_node_ok [OF "2.prems"(1,2) None ins]
    from "2.prems"(5) None ds ins obtain q g2 where q: "add_deps f D deps ds i g1 = Some (q, g2)"
      by (auto split: option.splits)
    have "q = Inr () \<and> edges_declared D deps g2"
      by (rule "2.IH" [OF None ds ins [symmetric] refl refl "2.prems"(1) I(1)
          edges_declared_new [OF "2.prems"(1-3) ins] _ _ _ q])
        (use ds "2.prems"(4) in \<open>auto simp: I(4,5) dep_rel_def\<close>)
    with "2.prems"(5) None ds ins q show ?thesis by auto
  qed (use "2.prems" in auto)
next
  case (4 f D deps d ds i g)
  let ?a = "n_addr (g_nodes g i)"
  from "4.prems"(7) obtain q g1 where q: "add_recursive f D deps d g = Some (q, g1)" by (auto split: option.splits)
  have da: "(d, ?a) \<in> dep_rel deps" using "4.prems"(6) by simp
  from "4.IH"(1) [OF "4.prems"(1-3) buildable_dep [OF "4.prems"(5) da] q] obtain j
    where j: "q = Inr j" and ed: "edges_declared D deps g1" by blast
  from add_specs(1) [OF "4.prems"(1,2) q] j
  have g1: "graph_ok D g1" "grows D {} g g1" "g_index g1 d = Some j" by (simp_all add: rec_spec_def)
  have i1: "i < dag_count D (g_dag g1)" "n_addr (g_nodes g1 i) = ?a" using g1(2) "4.prems"(4) by (simp_all add: grows_def)
  have "(?a, ?a) \<notin> (dep_rel deps)\<^sup>+" using "4.prems"(5) by (simp add: buildable_def)
  from declared_edge_accepted [OF "4.prems"(1) g1(1) ed g1(3) i1 da this] obtain dag
    where e: "dag_add_edge D (g_dag g1) j i = Some dag" "edges_declared D deps (g1\<lparr>g_dag := dag\<rparr>)" by blast
  note E = add_edge_ok [OF "4.prems"(1) g1(1) e(1) index_bound [OF g1(1,3)] i1(1)]
  from "4.prems"(7) q j e(1) have "add_deps f D deps ds i (g1\<lparr>g_dag := dag\<rparr>) = Some (r', h')" by simp
  then show ?case
    by (intro "4.IH"(2) [OF q refl j e(1) "4.prems"(1) E(1) e(2)])
      (use "4.prems"(5,6) i1 E(4) in simp_all)
qed auto

lemma fresh_graph_add_succeeds:
  fixes D :: "'g daggy"
  assumes D: "daggy_ok D" and fin: "finite (dom deps)" and b: "buildable deps a"
  shows "\<exists>i h. graph_add (Suc (card (dom deps))) D deps a (graph_new D n :: ('g, 'v) graph) = Some (Inr i, h)"
proof -
  let ?g = "graph_new D n :: ('g, 'v) graph" and ?f = "Suc (card (dom deps))"
  have "card (dom deps - dom (g_index ?g)) < ?f" by (simp add: graph_new_def)
  from add_fuel(1) [OF D graph_new_ok [OF D] fin this] obtain r g1
    where r: "add_recursive ?f D deps a ?g = Some (r, g1)" by (metis surj_pair)
  have "edges_declared D deps ?g" using D by (simp add: edges_declared_def graph_new_def dag_rel_def daggy_ok_def)
  from add_succeeds(1) [OF D graph_new_ok [OF D] this b r] obtain i where i: "r = Inr i" by blast
  from add_specs(1) [OF D graph_new_ok [OF D] r] i have g1: "graph_ok D g1" "g_index g1 a = Some i"
    by (simp_all add: rec_spec_def)
  then have "dag_rel D (g_dag g1) \<subseteq> {..< dag_count D (g_dag g1)} \<times> {..< dag_count D (g_dag g1)}"
    by (simp add: graph_ok_def)
  from bfs_ancestors [OF this index_bound [OF g1]] r i show ?thesis
    by (simp add: graph_add_def del: add_recursive.simps)
qed

lemma fresh_graph_add_buildable:
  assumes D: "daggy_ok D" and add: "graph_add f D deps a (graph_new D b) = Some (Inr i, h)"
  shows "buildable deps a"
  unfolding buildable_def
proof (intro allI impI conjI)
  note F = fresh_graph_add [OF D add]
  fix c assume "(c, a) \<in> (dep_rel deps)\<^sup>*"
  from reach_index [OF F(1,4,2) this] obtain m where m: "g_index h c = Some m" by blast
  then have "m < dag_count D (g_dag h)" "n_addr (g_nodes h m) = c" using F(1) by (simp_all add: graph_ok_def)
  then show "\<exists>ds. deps c = Some (Inr ds)" using F(4) by (auto simp: node_done_def)
  show "(c, c) \<notin> (dep_rel deps)\<^sup>+"
    using trancl_index [OF F(1,4) m, of c] m F(1) by (auto simp: graph_ok_def acyclic_def)
qed

section \<open>An instance of the graph library\<close>

text \<open>A graph as its number of nodes and its list of edges, to show that the documented
  behaviour can be had.\<close>

definition edge_list_dag :: "(nat \<times> (nat \<times> nat) list) daggy" where
  "edge_list_dag = \<lparr>dag_new = (0, []), dag_add_node = (\<lambda>(n, es). ((Suc n, es), n)),
     dag_add_edge = (\<lambda>(n, es) a b. if (b, a) \<in> (set es)\<^sup>* then None else Some (n, (a, b) # es)),
     dag_parents = (\<lambda>(n, es) k. map fst (filter (\<lambda>e. snd e = k) es)),
     dag_children = (\<lambda>(n, es) k. map snd (filter (\<lambda>e. fst e = k) es)),
     dag_count = fst\<rparr>"

lemma edge_list_rel: "dag_rel edge_list_dag (n, es) = set es"
  by (force simp: dag_rel_def edge_list_dag_def)

lemma edge_list_dual:
  "count_list (map snd (filter (\<lambda>e. fst e = m) es)) n = count_list (map fst (filter (\<lambda>e. snd e = n) es)) m"
  by (induction es) auto

lemma edge_list_simps:
  "dag_new edge_list_dag = (0, [])" "dag_add_node edge_list_dag (n, es) = ((Suc n, es), n)"
  "dag_add_edge edge_list_dag (n, es) a b = (if (b, a) \<in> (set es)\<^sup>* then None else Some (n, (a, b) # es))"
  "dag_parents edge_list_dag (n, es) k = map fst (filter (\<lambda>e. snd e = k) es)"
  "dag_children edge_list_dag (n, es) k = map snd (filter (\<lambda>e. fst e = k) es)"
  "dag_count edge_list_dag (n, es) = n"
  by (simp_all add: edge_list_dag_def)

lemma edge_list_ok: "daggy_ok edge_list_dag"
  unfolding daggy_ok_def by (auto simp: edge_list_simps edge_list_rel edge_list_dual fun_eq_iff)

section \<open>Properties\<close>

text \<open>C4: in a project with finitely many transforms, where every transitive dependency of a
  root is a transform whose \<open>depends()\<close> succeeds and none depends on itself, adding the root
  to a new graph returns its index, with a recursion no deeper than the number of
  transforms. In the graph it leaves, the index and the nodes correspond one to one, every
  node has exactly the edges its declared dependencies require, the subgraph of the root
  consists of the nodes of its transitive dependencies and itself, all of which are there,
  and the dispatcher's requirements on subgraph and template hold. Conversely, whatever the
  depth allowed, an addition that succeeds shows that the project has that form.\<close>

theorem graph_add_builds_dependencies:
  fixes D :: "'g daggy"
  assumes "daggy_ok D" and "finite (dom deps)" and "0 < b"
  shows "(buildable deps a \<longrightarrow>
       (\<exists>i h. graph_add (Suc (card (dom deps))) D deps a (graph_new D b :: ('g, 'v) graph) = Some (Inr i, h)
         \<and> graph_ok D h \<and> g_index h a = Some i
         \<and> (\<forall>k < dag_count D (g_dag h). node_done D deps h k)
         \<and> the (g_subgraphs h a) = {m. m < dag_count D (g_dag h) \<and> (n_addr (g_nodes h m), a) \<in> (dep_rel deps)\<^sup>*}
         \<and> (\<forall>c. (c, a) \<in> (dep_rel deps)\<^sup>* \<longrightarrow> c \<in> dom (g_index h))
         \<and> dispatch_wf (dispatch_of D h a registered panics)))
    \<and> (\<forall>f i h. graph_add f D deps a (graph_new D b :: ('g, 'v) graph) = Some (Inr i, h) \<longrightarrow> buildable deps a)"
proof (intro conjI allI impI)
  assume "buildable deps a"
  from fresh_graph_add_succeeds [OF assms(1,2) this] obtain i h
    where add: "graph_add (Suc (card (dom deps))) D deps a (graph_new D b :: ('g, 'v) graph) = Some (Inr i, h)" by blast
  note F = fresh_graph_add [OF assms(1) add]
  have "dispatch_wf (dispatch_of D h a registered panics)"
    by (rule dispatch_of_wf [OF assms(1) graph_new_ok [OF assms(1)] add]) (simp add: graph_new_def assms(3))
  moreover have "\<forall>c. (c, a) \<in> (dep_rel deps)\<^sup>* \<longrightarrow> c \<in> dom (g_index h)" using reach_index [OF F(1,4,2)] by blast
  ultimately show "\<exists>i h. graph_add (Suc (card (dom deps))) D deps a (graph_new D b :: ('g, 'v) graph) = Some (Inr i, h)
         \<and> graph_ok D h \<and> g_index h a = Some i
         \<and> (\<forall>k < dag_count D (g_dag h). node_done D deps h k)
         \<and> the (g_subgraphs h a) = {m. m < dag_count D (g_dag h) \<and> (n_addr (g_nodes h m), a) \<in> (dep_rel deps)\<^sup>*}
         \<and> (\<forall>c. (c, a) \<in> (dep_rel deps)\<^sup>* \<longrightarrow> c \<in> dom (g_index h))
         \<and> dispatch_wf (dispatch_of D h a registered panics)"
    using add F by (intro exI [of _ i] exI [of _ h] conjI) (simp_all only: option.sel)
next
  fix f i h assume add: "graph_add f D deps a (graph_new D b :: ('g, 'v) graph) = Some (Inr i, h)"
  show "buildable deps a" by (rule fresh_graph_add_buildable [OF assms(1) add])
qed

text \<open>A project of two transforms, \<open>app\<close> depending on \<open>lib\<close>.\<close>

definition example_deps :: "addr \<Rightarrow> (sched_error, addr list) res option" where
  "example_deps = [Addr [''app''] \<mapsto> Inr [Addr [''lib'']], Addr [''lib''] \<mapsto> Inr []]"

lemma example_add:
  "\<exists>h. graph_add 3 edge_list_dag example_deps (Addr [''app'']) (graph_new edge_list_dag 1 :: (nat \<times> (nat \<times> nat) list, nat) graph)
     = Some (Inr 0, h) \<and> (Addr [''lib'']) \<in> dom (g_index h)"
  by (simp add: graph_add_def numeral_3_eq_3 example_deps_def insert_node_def graph_new_def edge_list_simps
      bfs_fuel_def lessThan_Suc)

lemma example_deps_buildable: "buildable example_deps (Addr [''app''])"
proof -
  have d: "dep_rel example_deps = {(Addr [''lib''], Addr [''app''])}"
    by (auto simp: dep_rel_def example_deps_def)
  have "(c, Addr [''app'']) \<in> (dep_rel example_deps)\<^sup>* \<Longrightarrow> c = Addr [''app''] \<or> c = Addr [''lib'']" for c
    unfolding d by (auto elim: converse_rtranclE)
  moreover have "(dep_rel example_deps)\<^sup>+ = {(Addr [''lib''], Addr [''app''])}"
    unfolding d by (intro trancl_id) (simp add: trans_def)
  ultimately show ?thesis unfolding buildable_def by (auto simp: example_deps_def)
qed

theorem graph_add_builds_dependencies_witness:
  "\<exists>h. graph_add 3 edge_list_dag example_deps (Addr [''app'']) (graph_new edge_list_dag 1 :: (nat \<times> (nat \<times> nat) list, nat) graph)
     = Some (Inr 0, h) \<and> (Addr [''lib'']) \<in> dom (g_index h)
     \<and> dispatch_wf (dispatch_of edge_list_dag h (Addr [''app'']) (\<lambda>_. True) (\<lambda>_. False))"
proof -
  have "finite (dom example_deps)" "card (dom example_deps) = 2" by (simp_all add: example_deps_def)
  moreover obtain h where "graph_add 3 edge_list_dag example_deps (Addr [''app''])
      (graph_new edge_list_dag 1 :: (nat \<times> (nat \<times> nat) list, nat) graph) = Some (Inr 0, h)"
    "Addr [''lib''] \<in> dom (g_index h)" using example_add by blast
  ultimately show ?thesis
    using graph_add_builds_dependencies [OF edge_list_ok, where 'v = nat and deps = example_deps and b = 1
        and a = "Addr [''app'']" and registered = "\<lambda>_. True" and panics = "\<lambda>_. False"] example_deps_buildable
    by (simp add: eval_nat_numeral del: add_recursive.simps)
qed

text \<open>a graph that could be built so far stays usable when an addition fails: the
  invariant holds of what \<open>add_recursive\<close> leaves behind on every path, and the nodes, edges
  and index entries that were there before are unchanged.\<close>

lemma graph_add_failure_safe:
  assumes "daggy_ok D" and "graph_ok D g" and "add_recursive f D deps a g = Some (r, h)"
  shows "graph_ok D h \<and> grows D {} g h"
  using add_specs(1) [OF assms] by (simp add: rec_spec_def)

lemma graph_add_failure_safe_witness:
  "\<exists>h. add_recursive 1 edge_list_dag (\<lambda>_. None) (Addr [''app'']) (graph_new edge_list_dag 1 :: (nat \<times> (nat \<times> nat) list, nat) graph)
     = Some (Fail (ProjectTransform (Addr [''app''])), h) \<and> graph_ok edge_list_dag h"
proof -
  have "add_recursive 1 edge_list_dag (\<lambda>_. None) (Addr [''app'']) (graph_new edge_list_dag 1 :: (nat \<times> (nat \<times> nat) list, nat) graph)
     = Some (Fail (ProjectTransform (Addr [''app''])), graph_new edge_list_dag 1)"
    by (simp add: graph_new_def)
  from graph_add_failure_safe [OF edge_list_ok graph_new_ok [OF edge_list_ok] this] this show ?thesis by blast
qed

end
