(* ===== verification/Scheduler.thy ===== *)
theory Scheduler
  imports Graph_Build
begin

text \<open>
  The rest of the scheduler: \<open>Graph::fetch\<close>, \<open>run_transform_lifecycle\<close> and \<open>wait\<close>
  (\<open>crates/edo/src/scheduler/graph.rs\<close>), the interactive executor
  (\<open>crates/edo/src/scheduler/execute.rs\<close>), and \<open>Scheduler::new\<close> with \<open>Inner::run\<close>
  (\<open>crates/edo/src/scheduler/mod.rs\<close>). Transforms, environments, storage and the user are
  behind interfaces: what their calls return is an argument of the definitions.
\<close>

section \<open>Waiting for tasks\<close>

text \<open>\<open>wait\<close>: a panicked task makes it fail at once; the failures of the others are collected.\<close>

definition wait_tasks :: "(sched_error, 'r) res list \<Rightarrow> (sched_error, 'r list) res" where
  "wait_tasks rs =
     (if Inl Panic \<in> set rs then Fail Join
      else if task_errors rs \<noteq> [] then Fail (Child (task_errors rs))
      else Ok (task_values rs))"

section \<open>Fetch\<close>

text \<open>What the context, the transforms and the storage answer: is there a transform at the
  address, its \<open>get_unique_id\<close>, whether the build cache has the identifier
  (\<open>find_build(.., true)\<close>), and the outcome of the task that creates the log and runs
  \<open>prepare\<close>.\<close>

record 'v fetch_env =
  fe_known :: "addr \<Rightarrow> bool"
  fe_id :: "addr \<Rightarrow> (sched_error, 'v artifact_id) res"
  fe_built :: "'v artifact_id \<Rightarrow> (sched_error, bool) res"
  fe_prepare :: "addr \<Rightarrow> (sched_error, unit) res"

text \<open>
  The loop over \<open>node_references\<close>. \<open>tasks\<close> lists the addresses whose preparation has been
  spawned. A permit is acquired before each spawn: every task gives its permit back, so with
  at least one permit the loop goes on, and with none it waits forever (\<open>None\<close>).
\<close>

fun fetch_loop :: "'v fetch_env \<Rightarrow> nat \<Rightarrow> nat list \<Rightarrow> (nat \<Rightarrow> 'v node) \<Rightarrow> addr list
    \<Rightarrow> ((sched_error, addr list) res \<times> (nat \<Rightarrow> 'v node)) option" where
  "fetch_loop fe permits [] ns tasks = Some (Ok tasks, ns)"
| "fetch_loop fe permits (k # ks) ns tasks =
     (let a = n_addr (ns k)
      in if \<not> fe_known fe a then Some (Fail (ProjectTransform a), ns)
         else (case fe_id fe a of
                 Inl e \<Rightarrow> Some (Inl e, ns)
               | Inr i \<Rightarrow>
                   (let ns1 = ns(k := set_id i (ns k))
                    in case fe_built fe i of
                         Inl e \<Rightarrow> Some (Inl e, ns1)
                       | Inr hit \<Rightarrow>
                           if hit then fetch_loop fe permits ks (ns1(k := set_cache_hit True (ns1 k))) tasks
                           else if permits = 0 then None
                           else fetch_loop fe permits ks ns1 (tasks @ [a]))))"

definition graph_fetch :: "'g daggy \<Rightarrow> 'v fetch_env \<Rightarrow> ('g, 'v) graph \<Rightarrow> ((sched_error, unit) res \<times> ('g, 'v) graph) option" where
  "graph_fetch D fe g =
     (case fetch_loop fe (g_batch g) [0 ..< dag_count D (g_dag g)] (g_nodes g) [] of
        None \<Rightarrow> None
      | Some (Inl e, ns) \<Rightarrow> Some (Inl e, g\<lparr>g_nodes := ns\<rparr>)
      | Some (Inr tasks, ns) \<Rightarrow>
          Some (bindR (wait_tasks (map (fe_prepare fe) tasks)) (\<lambda>_. Ok ()), g\<lparr>g_nodes := ns\<rparr>))"

section \<open>The lifecycle of one transform\<close>

datatype env_event = EnvCreated | EnvSetup | EnvUp | Staged | Executed | EnvDown | EnvCleaned

text \<open>What each call of the lifecycle returns. \<open>lc_prelude\<close> is the creation of the temporary
  directory and the log and the look-up of the environment's address; the token is looked at
  four times.\<close>

record 'a lifecycle_env =
  lc_prelude :: "(sched_error, unit) res"
  lc_create :: "(sched_error, unit) res"
  lc_setup :: "(sched_error, unit) res"
  lc_up :: "(sched_error, unit) res"
  lc_stage :: "(sched_error, unit) res"
  lc_execute :: "(sched_error, 'a) res"
  lc_token :: "nat \<Rightarrow> bool"

text \<open>A call, recorded when it returns normally.\<close>

definition call :: "env_event \<Rightarrow> ('e, 'b) res \<Rightarrow> ('b \<Rightarrow> env_event list \<Rightarrow> ('e, 'a) res \<times> env_event list)
    \<Rightarrow> env_event list \<Rightarrow> ('e, 'a) res \<times> env_event list" where
  "call ev r k tr = (case r of Inl e \<Rightarrow> (Inl e, tr) | Inr x \<Rightarrow> k x (tr @ [ev]))"

definition check_token :: "bool \<Rightarrow> (env_event list \<Rightarrow> (sched_error, 'a) res \<times> env_event list)
    \<Rightarrow> env_event list \<Rightarrow> (sched_error, 'a) res \<times> env_event list" where
  "check_token c k tr = (if c then (Fail Cancelled, tr) else k tr)"

text \<open>The inner block between \<open>up\<close> and the teardown.\<close>

definition lifecycle_body :: "'a lifecycle_env \<Rightarrow> env_event list \<Rightarrow> (sched_error, 'a) res \<times> env_event list" where
  "lifecycle_body l =
     check_token (lc_token l 2)
       (call Staged (lc_stage l) (\<lambda>_.
          check_token (lc_token l 3)
            (call Executed (lc_execute l) (\<lambda>a tr. (Ok a, tr)))))"

text \<open>The teardown runs on every path out of the block but a panic; its own errors are
  dropped. A panic inside of \<open>down\<close> or \<open>clean\<close>, which ends the worker there, is left out.\<close>

definition lifecycle_teardown :: "(sched_error, 'a) res \<times> env_event list \<Rightarrow> (sched_error, 'a) res \<times> env_event list" where
  "lifecycle_teardown out =
     (case out of (Inl Panic, tr) \<Rightarrow> (Inl Panic, tr) | (r, tr) \<Rightarrow> (r, tr @ [EnvDown, EnvCleaned]))"

definition run_transform_lifecycle :: "'a lifecycle_env \<Rightarrow> (sched_error, 'a) res \<times> env_event list" where
  "run_transform_lifecycle l =
     (case lc_prelude l of
        Inl e \<Rightarrow> (Inl e, [])
      | Inr _ \<Rightarrow>
          call EnvCreated (lc_create l) (\<lambda>_.
            check_token (lc_token l 0)
              (call EnvSetup (lc_setup l) (\<lambda>_.
                 check_token (lc_token l 1)
                   (call EnvUp (lc_up l) (\<lambda>_ tr. lifecycle_teardown (lifecycle_body l tr)))))) [])"

section \<open>The interactive executor\<close>

datatype 'a attempt = TSuccess 'a | TRetryable "string option" string | TFailed "string option" string

definition prompt_options :: "bool \<Rightarrow> 'a attempt \<Rightarrow> string list" where
  "prompt_options can_shell t =
     (case t of TSuccess _ \<Rightarrow> []
      | TRetryable lf _ \<Rightarrow> (if lf \<noteq> None then [''view log''] else []) @ [''retry'']
          @ (if can_shell then [''shell''] else []) @ [''quit'']
      | TFailed lf _ \<Rightarrow> (if lf \<noteq> None then [''view log''] else [])
          @ (if can_shell then [''shell''] else []) @ [''quit''])"

text \<open>One answer of the user: the dialog fails, or an index is chosen, and the action behind
  it (showing the log, opening the shell) succeeds or fails.\<close>

type_synonym answer = "sched_error + nat \<times> (sched_error + unit)"

text \<open>The prompt loop: \<open>None\<close> while it waits for more answers; otherwise the answers left and
  whether to quit. The token is cancelled exactly when the result is to quit.\<close>

fun prompt_loop :: "string list \<Rightarrow> answer list \<Rightarrow> ((sched_error, bool) res \<times> answer list) option" where
  "prompt_loop opts [] = None"
| "prompt_loop opts (Inl e # as) = Some (Fail e, as)"
| "prompt_loop opts (Inr (i, act) # as) =
     (if i \<ge> length opts then Some (Inl Panic, as)
      else if opts ! i = ''view log'' \<or> opts ! i = ''shell''
      then (case act of Inl e \<Rightarrow> Some (Fail e, as) | Inr _ \<Rightarrow> prompt_loop opts as)
      else if opts ! i = ''quit'' then Some (Ok True, as)
      else Some (Ok False, as))"

definition failure_text :: "'a attempt \<Rightarrow> string" where
  "failure_text t = (case t of TSuccess _ \<Rightarrow> [] | TRetryable _ m \<Rightarrow> m | TFailed _ m \<Rightarrow> m)"

text \<open>The attempts, in turn; the result with whether the token was cancelled and the number
  of attempts made. \<open>upload\<close> is the outcome of \<open>upload_build\<close>.\<close>

fun execute_loop :: "bool \<Rightarrow> (sched_error, unit) res \<Rightarrow> 'a attempt list \<Rightarrow> answer list \<Rightarrow> nat
    \<Rightarrow> ((sched_error, 'a) res \<times> bool \<times> nat) option" where
  "execute_loop sh upload [] as n = None"
| "execute_loop sh upload (t # ts) as n =
     (case t of
        TSuccess a \<Rightarrow> Some (bindR upload (\<lambda>_. Ok a), False, Suc n)
      | _ \<Rightarrow>
          (case prompt_loop (prompt_options sh t) as of
             None \<Rightarrow> None
           | Some (Inl e, _) \<Rightarrow> Some (Inl e, False, Suc n)
           | Some (Inr True, _) \<Rightarrow> Some (Fail (Passthrough (failure_text t)), True, Suc n)
           | Some (Inr False, as') \<Rightarrow> execute_loop sh upload ts as' (Suc n)))"

section \<open>The scheduler\<close>

text \<open>\<open>workers as u64\<close> of the configured \<open>i64\<close>, or the default.\<close>

definition scheduler_workers :: "int option \<Rightarrow> nat" where
  "scheduler_workers w = (case w of Some i \<Rightarrow> nat (i mod 2 ^ 64) | None \<Rightarrow> 8)"

text \<open>\<open>Graph::run\<close> from the look-up of the target on: its possible results, with the nodes at
  the end.\<close>

inductive graph_run :: "'g daggy \<Rightarrow> ('g, 'v) graph \<Rightarrow> addr \<Rightarrow> (addr \<Rightarrow> bool) \<Rightarrow> (nat \<Rightarrow> bool)
    \<Rightarrow> (sched_error, unit) res \<Rightarrow> (nat \<Rightarrow> 'v node) \<Rightarrow> bool" for D g a registered panics where
  no_node: "g_index g a = None \<Longrightarrow> graph_run D g a registered panics (Fail (NodeErr a)) (g_nodes g)"
| already_built: "g_index g a = Some i \<Longrightarrow> n_cache_hit (g_nodes g i) \<Longrightarrow>
    graph_run D g a registered panics (Ok ()) (g_nodes g)"
| no_subgraph: "g_index g a = Some i \<Longrightarrow> \<not> n_cache_hit (g_nodes g i) \<Longrightarrow> g_subgraphs g a = None \<or> g_indegrees g a = None \<Longrightarrow>
    graph_run D g a registered panics (Fail (NodeErr a)) (g_nodes g)"
| cascade_fails: "g_index g a = Some i \<Longrightarrow> \<not> n_cache_hit (g_nodes g i) \<Longrightarrow> g_subgraphs g a = Some S \<Longrightarrow>
    g_indegrees g a = Some ind \<Longrightarrow> distinct order \<Longrightarrow> set order = dom ind \<Longrightarrow>
    cascade_loop f (dispatch_of D g a registered panics) (cascade_init (dispatch_of D g a registered panics) order (g_nodes g))
      = Some (Inl e) \<Longrightarrow> graph_run D g a registered panics (Inl e) ns"
| returns: "g_index g a = Some i \<Longrightarrow> \<not> n_cache_hit (g_nodes g i) \<Longrightarrow> g_subgraphs g a = Some S \<Longrightarrow>
    g_indegrees g a = Some ind \<Longrightarrow> distinct order \<Longrightarrow> set order = dom ind \<Longrightarrow>
    reachable_from (run_begin (dispatch_of D g a registered panics, g_nodes g, order))
      (run_step (dispatch_of D g a registered panics)) s \<Longrightarrow>
    phase s = Returned r \<Longrightarrow> graph_run D g a registered panics r (nodes s)"

text \<open>\<open>Inner::run\<close>: build, fetch, run; the first failure is the result.\<close>

inductive scheduler_run :: "'g daggy \<Rightarrow> (addr \<Rightarrow> (sched_error, addr list) res option) \<Rightarrow> 'v fetch_env \<Rightarrow> (nat \<Rightarrow> bool)
    \<Rightarrow> nat \<Rightarrow> addr \<Rightarrow> (sched_error, unit) res \<Rightarrow> ('g, 'v) graph \<Rightarrow> (nat \<Rightarrow> 'v node) \<Rightarrow> bool"
    for D deps fe panics workers a where
  add_fails: "graph_add f D deps a (graph_new D workers) = Some (Inl e, g) \<Longrightarrow>
    scheduler_run D deps fe panics workers a (Inl e) g (g_nodes g)"
| fetch_fails: "graph_add f D deps a (graph_new D workers) = Some (Inr i, g) \<Longrightarrow>
    graph_fetch D fe g = Some (Inl e, h) \<Longrightarrow> scheduler_run D deps fe panics workers a (Inl e) h (g_nodes h)"
| runs: "graph_add f D deps a (graph_new D workers) = Some (Inr i, g) \<Longrightarrow>
    graph_fetch D fe g = Some (Inr (), h) \<Longrightarrow> graph_run D h a (fe_known fe) panics r ns \<Longrightarrow>
    scheduler_run D deps fe panics workers a r h ns"

section \<open>Laws of waiting and fetching\<close>

lemma wait_tasks_Ok: "(\<exists>xs. wait_tasks rs = Inr xs) \<longleftrightarrow> (\<forall>r \<in> set rs. \<exists>x. r = Inr x)"
proof -
  have "(\<exists>xs. wait_tasks rs = Inr xs) \<longleftrightarrow> Inl Panic \<notin> set rs \<and> (\<forall>e. Inl (Err e) \<notin> set rs)"
    by (simp add: wait_tasks_def task_errors_Nil [symmetric])
  also have "\<dots> \<longleftrightarrow> (\<forall>r \<in> set rs. \<exists>x. r = Inr x)" by (rule tasks_all_Ok)
  finally show ?thesis .
qed

text \<open>What a completed loop says of each node it visited.\<close>

definition fetched :: "'v fetch_env \<Rightarrow> 'v node \<Rightarrow> bool" where
  "fetched fe n \<longleftrightarrow> (\<exists>i. fe_id fe (n_addr n) = Inr i \<and> n_id n = Some i \<and> fe_built fe i = Inr (n_cache_hit n))"

lemma fetch_loop_frame:
  assumes "fetch_loop fe p ks ns tasks = Some (r, ns')"
  shows "n_addr (ns' k) = n_addr (ns k) \<and> status (ns' k) = status (ns k) \<and> (k \<notin> set ks \<longrightarrow> ns' k = ns k)"
  using assms
proof (induction ks arbitrary: ns tasks)
  case (Cons j ks)
  from Cons.prems consider (stop) "ns' = ns \<or> (\<exists>i. ns' = ns(j := set_id i (ns j)))"
    | (hit) i where "fetch_loop fe p ks (ns(j := set_cache_hit True (set_id i (ns j)))) tasks = Some (r, ns')"
    | (task) i where "fetch_loop fe p ks (ns(j := set_id i (ns j))) (tasks @ [n_addr (ns j)]) = Some (r, ns')"
    by (auto simp: Let_def split: if_splits sum.splits)
  then show ?case
  proof cases
    case (hit i)
    from Cons.IH [OF hit] show ?thesis by (auto split: if_splits)
  next
    case (task i)
    from Cons.IH [OF task] show ?thesis by (auto split: if_splits)
  qed auto
qed simp

lemma fetch_loop_Ok:
  assumes "fetch_loop fe p ks ns tasks = Some (Inr tasks', ns')" and "distinct ks"
    and "\<forall>k \<in> set ks. n_id (ns k) = None \<and> \<not> n_cache_hit (ns k)"
  shows "(\<forall>k \<in> set ks. fetched fe (ns' k))
    \<and> tasks' = tasks @ map (\<lambda>k. n_addr (ns k)) (filter (\<lambda>k. \<not> n_cache_hit (ns' k)) ks)"
  using assms
proof (induction ks arbitrary: ns tasks)
  case (Cons j ks)
  from Cons.prems(1) obtain i hit where i: "fe_id fe (n_addr (ns j)) = Inr i" "fe_built fe i = Inr hit"
    and l: "fetch_loop fe p ks (ns(j := set_cache_hit hit (set_id i (ns j))))
      (if hit then tasks else tasks @ [n_addr (ns j)]) = Some (Inr tasks', ns')"
  proof (atomize_elim, goal_cases)
    case 1
    have "set_cache_hit False (set_id x (ns j)) = set_id x (ns j)" for x
      using Cons.prems(3) by (simp add: set_cache_hit_def set_id_def)
    with Cons.prems(1) show ?case by (auto simp: Let_def split: if_splits sum.splits)
  qed
  let ?ns = "ns(j := set_cache_hit hit (set_id i (ns j)))"
  have j: "ns' j = ?ns j" using fetch_loop_frame [OF l, of j] Cons.prems(2) by simp
  have ad: "map (\<lambda>k. n_addr (?ns k)) (filter P ks) = map (\<lambda>k. n_addr (ns k)) (filter P ks)" for P
    using Cons.prems(2) by (intro map_cong) auto
  have "\<forall>k \<in> set ks. n_id (?ns k) = None \<and> \<not> n_cache_hit (?ns k)" using Cons.prems(2,3) by auto
  from Cons.IH [OF l _ this] Cons.prems(2)
  have "\<forall>k \<in> set ks. fetched fe (ns' k)" and "tasks' = (if hit then tasks else tasks @ [n_addr (ns j)])
      @ map (\<lambda>k. n_addr (ns k)) (filter (\<lambda>k. \<not> n_cache_hit (ns' k)) ks)" by (simp_all add: ad)
  moreover have "fetched fe (ns' j)" "n_cache_hit (ns' j) = hit"
    using i Cons.prems(3) by (simp_all add: j fetched_def)
  ultimately show ?case by auto
qed simp

lemma fetch_loop_blocked:
  assumes "\<forall>k \<in> set ks. fe_known fe (n_addr (ns k)) \<and> (\<exists>i h. fe_id fe (n_addr (ns k)) = Inr i \<and> fe_built fe i = Inr h)"
    and "k \<in> set ks" and "fe_id fe (n_addr (ns k)) = Inr i" and "fe_built fe i = Inr False" and "distinct ks"
  shows "fetch_loop fe 0 ks ns tasks = None"
  using assms
proof (induction ks arbitrary: ns tasks)
  case (Cons j ks)
  from Cons.prems(1) obtain x h where x: "fe_known fe (n_addr (ns j))" "fe_id fe (n_addr (ns j)) = Inr x" "fe_built fe x = Inr h"
    by auto
  show ?case
  proof (cases h)
    case True
    let ?ns = "(ns(j := set_id x (ns j)))(j := set_cache_hit True ((ns(j := set_id x (ns j))) j))"
    have "k \<noteq> j" using True x Cons.prems(3,4) by auto
    with Cons.prems have "fetch_loop fe 0 ks ?ns tasks = None" by (intro Cons.IH) auto
    with x True show ?thesis by (simp add: Let_def)
  qed (use x in \<open>simp add: Let_def\<close>)
qed simp

lemma graph_fetch_Ok:
  assumes g: "graph_ok D g" and f: "graph_fetch D fe g = Some (Inr u, h)"
  shows "\<forall>k < dag_count D (g_dag g). fetched fe (g_nodes h k) \<and> status (g_nodes h k) = Pending
      \<and> n_addr (g_nodes h k) = n_addr (g_nodes g k)
      \<and> (\<not> n_cache_hit (g_nodes h k) \<longrightarrow> fe_prepare fe (n_addr (g_nodes h k)) = Inr ())"
    "h = g\<lparr>g_nodes := g_nodes h\<rparr>"
proof -
  let ?ks = "[0 ..< dag_count D (g_dag g)]"
  from f obtain tasks ns where l: "fetch_loop fe (g_batch g) ?ks (g_nodes g) [] = Some (Inr tasks, ns)"
    and h: "h = g\<lparr>g_nodes := ns\<rparr>" and w: "\<exists>xs. wait_tasks (map (fe_prepare fe) tasks) = Inr xs"
    by (auto simp: graph_fetch_def bindR_eq_Ok split: option.splits sum.splits)
  have "\<forall>k \<in> set ?ks. n_id (g_nodes g k) = None \<and> \<not> n_cache_hit (g_nodes g k)" using g by (simp add: graph_ok_def)
  from fetch_loop_Ok [OF l _ this] have ft: "\<forall>k \<in> set ?ks. fetched fe (ns k)"
    and t: "tasks = map (\<lambda>k. n_addr (g_nodes g k)) (filter (\<lambda>k. \<not> n_cache_hit (ns k)) ?ks)" by simp_all
  have "fe_prepare fe (n_addr (g_nodes g k)) = Inr ()" if "k < dag_count D (g_dag g)" "\<not> n_cache_hit (ns k)" for k
    using w that unfolding wait_tasks_Ok t by auto
  then show "\<forall>k < dag_count D (g_dag g). fetched fe (g_nodes h k) \<and> status (g_nodes h k) = Pending
      \<and> n_addr (g_nodes h k) = n_addr (g_nodes g k)
      \<and> (\<not> n_cache_hit (g_nodes h k) \<longrightarrow> fe_prepare fe (n_addr (g_nodes h k)) = Inr ())"
    using ft g fetch_loop_frame [OF l] by (simp add: h graph_ok_def)
  show "h = g\<lparr>g_nodes := g_nodes h\<rparr>" by (simp add: h)
qed

section \<open>Laws of the lifecycle and the executor\<close>

lemma lifecycle_body_eq:
  "lifecycle_body l tr =
     (if lc_token l 2 then (Fail Cancelled, tr)
      else case lc_stage l of
             Inl e \<Rightarrow> (Inl e, tr)
           | Inr _ \<Rightarrow>
               if lc_token l 3 then (Fail Cancelled, tr @ [Staged])
               else case lc_execute l of
                      Inl e \<Rightarrow> (Inl e, tr @ [Staged])
                    | Inr a \<Rightarrow> (Ok a, tr @ [Staged, Executed]))"
  by (cases "lc_stage l"; cases "lc_execute l") (simp_all add: lifecycle_body_def check_token_def call_def)

lemma body_events:
  assumes "lifecycle_body l tr = (r, t)"
  shows "t \<in> {tr, tr @ [Staged], tr @ [Staged, Executed]}"
    and "r = Inr a \<longleftrightarrow> t = tr @ [Staged, Executed] \<and> lc_execute l = Inr a"
  using assms by (auto simp: lifecycle_body_eq split: if_splits sum.splits)

text \<open>The traces of the lifecycle: before the environment is up there is nothing to tear
  down, afterwards the teardown closes every trace but that of a panic.\<close>

lemma lifecycle_cases:
  assumes "run_transform_lifecycle l = (r, t)"
  shows "(t \<in> {[], [EnvCreated], [EnvCreated, EnvSetup]} \<and> (\<exists>e. r = Inl e))
    \<or> (\<exists>b. lifecycle_body l [EnvCreated, EnvSetup, EnvUp] = (r, b) \<and> t = (if r = Inl Panic then b else b @ [EnvDown, EnvCleaned]))"
proof -
  have td: "lifecycle_teardown (q, b) = (q, if q = Inl Panic then b else b @ [EnvDown, EnvCleaned])"
    for q :: "(sched_error, 'a) res" and b
    by (cases q) (auto simp: lifecycle_teardown_def split: fault.split)
  obtain q b where qb: "lifecycle_body l [EnvCreated, EnvSetup, EnvUp] = (q, b)"
    by (cases "lifecycle_body l [EnvCreated, EnvSetup, EnvUp]")
  show ?thesis
    using assms by (auto simp: run_transform_lifecycle_def check_token_def call_def qb td split: sum.splits if_splits)
qed

lemma prompt_retry:
  "prompt_loop opts as = Some (Inr False, as') \<Longrightarrow> \<exists>x \<in> set opts. x \<notin> {''view log'', ''shell'', ''quit''}"
proof (induction opts as rule: prompt_loop.induct)
  case (3 opts i act as)
  let ?x = "opts ! i"
  consider (out) "i \<ge> length opts" | (stay) "i < length opts" "?x = ''view log'' \<or> ?x = ''shell''"
    | (quit) "i < length opts" "\<not> (?x = ''view log'' \<or> ?x = ''shell'')" "?x = ''quit''"
    | (retry) "i < length opts" "\<not> (?x = ''view log'' \<or> ?x = ''shell'')" "?x \<noteq> ''quit''" by linarith
  then show ?case
  proof cases
    case out
    with "3.prems" show ?thesis by simp
  next
    case stay
    then have n: "\<not> length opts \<le> i" by simp
    note e = "3.prems" [unfolded prompt_loop.simps if_not_P [OF n] if_P [OF stay(2)]]
    show ?thesis
    proof (cases act)
      case (Inr u)
      from "3.IH" [OF n stay(2) Inr] e Inr show ?thesis by simp
    qed (use e in simp)
  next
    case quit
    then have n: "\<not> length opts \<le> i" by simp
    from "3.prems" [unfolded prompt_loop.simps if_not_P [OF n] if_not_P [OF quit(2)] if_P [OF quit(3)]]
    show ?thesis by simp
  next
    case retry
    then have "?x \<in> set opts" and "?x \<notin> {''view log'', ''shell'', ''quit''}" by (auto simp only: nth_mem insert_iff empty_iff)
    then show ?thesis by blast
  qed
qed simp_all

lemma retry_only_retryable:
  "prompt_loop (prompt_options sh t) as = Some (Inr False, as') \<Longrightarrow> \<exists>lf m. t = TRetryable lf m"
  by (drule prompt_retry) (auto simp: prompt_options_def split: attempt.splits if_splits)

lemma execute_spec:
  "execute_loop sh up ts as n = Some (r, c, m) \<Longrightarrow>
     \<exists>k < length ts. m = n + Suc k \<and> (\<forall>j < k. \<exists>lf msg. ts ! j = TRetryable lf msg)
       \<and> (\<forall>a. r = Inr a \<longrightarrow> ts ! k = TSuccess a \<and> up = Inr () \<and> \<not> c)
       \<and> (c \<longrightarrow> r = Fail (Passthrough (failure_text (ts ! k))) \<and> (\<forall>a. ts ! k \<noteq> TSuccess a))"
proof (induction ts arbitrary: as n)
  case (Cons t ts)
  show ?case
  proof (cases "\<exists>a. t = TSuccess a")
    case True
    with Cons.prems show ?thesis by (intro exI [of _ 0]) (auto simp: bindR_eq_Ok)
  next
    case False
    then have e: "execute_loop sh up (t # ts) as n =
        (case prompt_loop (prompt_options sh t) as of
             None \<Rightarrow> None
           | Some (Inl e, _) \<Rightarrow> Some (Inl e, False, Suc n)
           | Some (Inr True, _) \<Rightarrow> Some (Fail (Passthrough (failure_text t)), True, Suc n)
           | Some (Inr False, as') \<Rightarrow> execute_loop sh up ts as' (Suc n))"
      by (cases t) auto
    from Cons.prems [unfolded e] consider
        (err) x where "r = Inl x" "\<not> c" "m = Suc n"
      | (quit) "r = Fail (Passthrough (failure_text t))" "m = Suc n"
      | (retry) as' where "prompt_loop (prompt_options sh t) as = Some (Inr False, as')"
          "execute_loop sh up ts as' (Suc n) = Some (r, c, m)"
      by (auto split: option.splits sum.splits bool.splits)
    then show ?thesis
    proof cases
      case (retry as')
      from retry_only_retryable [OF retry(1)] have "\<exists>lf msg. t = TRetryable lf msg" .
      moreover obtain k where "k < length ts" "m = Suc n + Suc k" "\<forall>j < k. \<exists>lf msg. ts ! j = TRetryable lf msg"
        "\<forall>a. r = Inr a \<longrightarrow> ts ! k = TSuccess a \<and> up = Inr () \<and> \<not> c"
        "c \<longrightarrow> r = Fail (Passthrough (failure_text (ts ! k))) \<and> (\<forall>a. ts ! k \<noteq> TSuccess a)"
        using Cons.IH [OF retry(2)] by blast
      ultimately show ?thesis
        by (intro exI [of _ "Suc k"]) (auto simp: nth_Cons split: nat.splits)
    qed (use False in auto)
  qed
qed simp

section \<open>From the build to the run\<close>

lemma fetched_run_pre:
  assumes D: "daggy_ok D" and add: "graph_add f D deps a (graph_new D w) = Some (Inr i, g)" and w: "0 < w"
    and ft: "graph_fetch D fe g = Some (Inr u, h)" and ord: "distinct order" "set order = dom (the (g_indegrees h a))"
  shows "run_pre (dispatch_of D h a registered panics, g_nodes h, order)"
    and "\<forall>n \<in> the (g_subgraphs h a). n_id (g_nodes h n) \<noteq> None"
proof -
  note F = fresh_graph_add [OF D add] and A = graph_add_ok [OF D graph_new_ok [OF D] add]
  note G = graph_fetch_Ok [OF F(1) ft]
  have sub: "the (g_subgraphs h a) \<subseteq> {..< dag_count D (g_dag g)}"
    using F(5) by (subst G(2)) auto
  have eq: "dispatch_of D h a registered panics =
      dispatch_of D g a (\<lambda>x. registered x) panics\<lparr>known := \<lambda>n. registered (n_addr (g_nodes h n))\<rparr>"
    by (subst G(2)) (simp add: dispatch_of_def)
  have "dispatch_wf (dispatch_of D g a registered panics)"
    by (rule dispatch_of_wf [OF D graph_new_ok [OF D] add]) (simp add: graph_new_def w)
  then have "dispatch_wf (dispatch_of D h a registered panics)"
    unfolding eq by (simp add: dispatch_wf_def edges_def open_edges_def)
  moreover have "sub (dispatch_of D h a registered panics) = the (g_subgraphs h a)" by (simp add: dispatch_of_def)
  moreover have "\<forall>n \<in> the (g_subgraphs h a). status (g_nodes h n) = Pending" using G(1) sub by auto
  moreover have "dom (the (g_indegrees h a)) = the (g_subgraphs h a)"
    using A(4,5) by (subst G(2), subst (2) G(2)) (auto simp: indegree_template_def dom_def split: if_splits)
  ultimately show "run_pre (dispatch_of D h a registered panics, g_nodes h, order)"
    using ord by (simp add: run_pre_def)
  show "\<forall>n \<in> the (g_subgraphs h a). n_id (g_nodes h n) \<noteq> None"
    using G(1) sub by (auto simp: fetched_def)
qed

section \<open>A project with one transform\<close>

definition one_deps :: "addr \<Rightarrow> (sched_error, addr list) res option" where
  "one_deps = [Addr [''app''] \<mapsto> Inr []]"

definition one_fetch :: "bool \<Rightarrow> nat fetch_env" where
  "one_fetch hit = \<lparr>fe_known = (\<lambda>_. True), fe_id = (\<lambda>_. Inr (Id (Name ''app'') None None None ''h'')),
     fe_built = (\<lambda>_. Inr hit), fe_prepare = (\<lambda>_. Inr ())\<rparr>"

definition one_graph :: "nat \<Rightarrow> (nat \<times> (nat \<times> nat) list, nat) graph" where
  "one_graph w = \<lparr>g_dag = (1, []), g_nodes = (\<lambda>_. node_new addr_default)(0 := node_new (Addr [''app''])), g_batch = w,
     g_index = [Addr [''app''] \<mapsto> 0], g_subgraphs = [Addr [''app''] \<mapsto> {0}],
     g_indegrees = [Addr [''app''] \<mapsto> [0 \<mapsto> 0]]\<rparr>"

definition one_fetched :: "bool \<Rightarrow> nat \<Rightarrow> (nat \<times> (nat \<times> nat) list, nat) graph" where
  "one_fetched hit w = one_graph w\<lparr>g_nodes := (\<lambda>_. node_new addr_default)
     (0 := (if hit then set_cache_hit True else (\<lambda>n. n)) (set_id (Id (Name ''app'') None None None ''h'') (node_new (Addr [''app'']))))\<rparr>"

lemma one_add: "graph_add 2 edge_list_dag one_deps (Addr [''app'']) (graph_new edge_list_dag w) = Some (Inr 0, one_graph w)"
proof -
  have "indegree_template edge_list_dag (Suc 0, []) {0} = [0 \<mapsto> 0]"
    by (auto simp: indegree_template_def edge_list_simps fun_eq_iff)
  then show ?thesis
    by (simp add: graph_add_def numeral_2_eq_2 one_deps_def insert_node_def graph_new_def edge_list_simps
        bfs_fuel_def one_graph_def)
qed

lemma one_fetch_ok: "graph_fetch edge_list_dag (one_fetch hit) (one_graph 1) = Some (Inr (), one_fetched hit 1)"
  by (simp add: graph_fetch_def one_fetch_def one_graph_def one_fetched_def edge_list_simps wait_tasks_def
      task_errors_def task_values_def Let_def)

section \<open>Properties\<close>

text \<open>What a run that returns \<open>Ok\<close> has done.\<close>

lemma scheduler_run_success:
  assumes "daggy_ok D" and "0 < w" and "scheduler_run D deps fe panics w a (Inr u) h ns"
  shows "(\<exists>i. g_index h a = Some i \<and> n_cache_hit (g_nodes h i))
    \<or> (\<forall>c. (c, a) \<in> (dep_rel deps)\<^sup>* \<longrightarrow> (\<exists>m. g_index h c = Some m \<and> status (ns m) = Success))"
  using assms(3)
proof cases
  case (runs f i g)
  note F = fresh_graph_add [OF assms(1) runs(1)]
  note G = graph_fetch_Ok [OF F(1) runs(2)]
  from runs(3) show ?thesis
  proof cases
    case (returns j S ind order s)
    have pre: "run_pre (dispatch_of D h a (fe_known fe) panics, g_nodes h, order)"
      by (rule fetched_run_pre(1) [OF assms(1) runs(1) assms(2) runs(2)]) (use returns in simp_all)
    have "\<forall>n \<in> the (g_subgraphs h a). status (ns n) = Success"
    proof -
      have "run_inv (dispatch_of D h a (fe_known fe) panics) s"
        using scheduler.reachable_inv [OF pre] returns(8) by simp
      then have "phase_ok (dispatch_of D h a (fe_known fe) panics) s" by (rule run_invE)
      then have "in_status (dispatch_of D h a (fe_known fe) panics) s Success = the (g_subgraphs h a)"
        using returns(9) by (simp add: phase_ok_def result_ok_def dispatch_of_def)
      then show ?thesis using returns(1) by (auto simp: dispatch_of_def)
    qed
    moreover have "\<exists>m. g_index h c = Some m \<and> m \<in> the (g_subgraphs h a)" if "(c, a) \<in> (dep_rel deps)\<^sup>*" for c
    proof -
      from reach_index [OF F(1,4,2) that] obtain m where m: "g_index g c = Some m" by blast
      then have "m < dag_count D (g_dag g)" "n_addr (g_nodes g m) = c" using F(1) by (simp_all add: graph_ok_def)
      with that have "m \<in> the (g_subgraphs g a)" by (simp add: F(5))
      with m show ?thesis by (subst G(2), subst (2) G(2)) simp
    qed
    ultimately show ?thesis by blast
  qed auto
qed

text \<open>after a fetch that succeeds every node carries the identifier its transform
  computed and the cache flag the storage answered, preparation ran without error for
  exactly the nodes that are not cached, and the graph is otherwise as it was built; with
  at least one worker the run then starts from a state that meets its requirements.\<close>

lemma fetch_prepares_run:
  assumes "daggy_ok D" and "0 < w" and "graph_add f D deps a (graph_new D w) = Some (Inr i, g)"
    and "graph_fetch D fe g = Some (Inr (), h)"
    and "distinct order" and "set order = dom (the (g_indegrees h a))"
  shows "(\<forall>k < dag_count D (g_dag g). fetched fe (g_nodes h k)
        \<and> (\<not> n_cache_hit (g_nodes h k) \<longrightarrow> fe_prepare fe (n_addr (g_nodes h k)) = Ok ()))
    \<and> h = g\<lparr>g_nodes := g_nodes h\<rparr>
    \<and> quiet_pre (dispatch_of D h a registered (\<lambda>_. False), g_nodes h, order)"
proof -
  note F = fresh_graph_add [OF assms(1,3)]
  note P = fetched_run_pre [OF assms(1,3,2,4,5,6)]
  have "sub (dispatch_of D h a registered (\<lambda>_. False)) = the (g_subgraphs h a)" by (simp add: dispatch_of_def)
  then have "quiet_pre (dispatch_of D h a registered (\<lambda>_. False), g_nodes h, order)"
    using P(1) [of registered "\<lambda>_. False"] P(2) by (simp add: quiet_pre_def) (simp add: dispatch_of_def)
  with graph_fetch_Ok [OF F(1) assms(4)] show ?thesis by blast
qed

lemma fetch_prepares_run_witness:
  "fetched (one_fetch False) (g_nodes (one_fetched False 1) 0)
   \<and> quiet_pre (dispatch_of edge_list_dag (one_fetched False 1) (Addr [''app'']) (\<lambda>_. True) (\<lambda>_. False), g_nodes (one_fetched False 1), [0])"
proof -
  have "set [0] = dom (the (g_indegrees (one_fetched False 1) (Addr [''app''])))"
    by (auto simp: one_fetched_def one_graph_def)
  from fetch_prepares_run [OF edge_list_ok zero_less_one one_add one_fetch_ok _ this, of "\<lambda>_. True"]
  show ?thesis by (simp add: edge_list_simps one_graph_def del: One_nat_def)
qed

text \<open>with zero workers, which the configuration accepts, a fetch that has something to
  prepare never returns.\<close>

lemma fetch_without_workers_blocks:
  assumes "scheduler_workers (Some w) = 0" and "g_batch g = scheduler_workers (Some w)"
    and "\<forall>k < dag_count D (g_dag g). fe_known fe (n_addr (g_nodes g k))
          \<and> (\<exists>i h. fe_id fe (n_addr (g_nodes g k)) = Inr i \<and> fe_built fe i = Inr h)"
    and "k < dag_count D (g_dag g)" and "fe_id fe (n_addr (g_nodes g k)) = Inr i" and "fe_built fe i = Inr False"
  shows "graph_fetch D fe g = None"
  using fetch_loop_blocked [of "[0 ..< dag_count D (g_dag g)]" fe "g_nodes g" k i "[]"] assms
  by (simp add: graph_fetch_def)

lemma fetch_without_workers_blocks_witness: "graph_fetch edge_list_dag (one_fetch False) (one_graph 0) = None"
  by (rule fetch_without_workers_blocks [of 0 _ edge_list_dag _ 0 "Id (Name ''app'') None None None ''h''"])
    (auto simp: scheduler_workers_def one_graph_def one_fetch_def edge_list_simps)

text \<open>C7: the lifecycle of a transform tears its environment down exactly when it brought
  it up: unless a call panics, \<open>down\<close> and \<open>clean\<close> are the last two events, each once, iff
  \<open>up\<close> succeeded; staging and execution happen only in between. It returns an artifact only
  when staging and execution succeeded, and then it is the one execution produced.\<close>

theorem lifecycle_tears_down:
  assumes "run_transform_lifecycle l = (r, t)"
  shows "(r \<noteq> Inl Panic \<longrightarrow> (EnvUp \<in> set t \<longleftrightarrow> (\<exists>b. t = b @ [EnvDown, EnvCleaned] \<and> EnvDown \<notin> set b \<and> EnvCleaned \<notin> set b)))
    \<and> (EnvDown \<in> set t \<or> EnvCleaned \<in> set t \<or> Staged \<in> set t \<or> Executed \<in> set t \<longrightarrow> EnvUp \<in> set t)
    \<and> distinct t
    \<and> (\<forall>a. r = Ok a \<longleftrightarrow> Executed \<in> set t \<and> lc_execute l = Ok a)"
proof -
  from lifecycle_cases [OF assms] consider
      (early) e where "t \<in> {[], [EnvCreated], [EnvCreated, EnvSetup]}" "r = Inl e"
    | (late) b where "lifecycle_body l [EnvCreated, EnvSetup, EnvUp] = (r, b)"
        "t = (if r = Inl Panic then b else b @ [EnvDown, EnvCleaned])" by blast
  then show ?thesis
  proof cases
    case early
    then show ?thesis by auto
  next
    case late
    have r: "r = Ok a \<longleftrightarrow> Executed \<in> set t \<and> lc_execute l = Ok a" for a
      using body_events(1) [OF late(1)] body_events(2) [OF late(1), of a] late(2) by (auto split: if_splits)
    from body_events(1) [OF late(1)] late(2) show ?thesis unfolding r by (auto split: if_splits)
  qed
qed

theorem lifecycle_tears_down_witness:
  "EnvUp \<in> set (snd (run_transform_lifecycle \<lparr>lc_prelude = Inr (), lc_create = Inr (), lc_setup = Inr (), lc_up = Inr (),
      lc_stage = Inl (Err NoRun), lc_execute = Inr (7 :: nat), lc_token = (\<lambda>_. False)\<rparr>))"
proof -
  let ?l = "\<lparr>lc_prelude = Inr (), lc_create = Inr (), lc_setup = Inr (), lc_up = Inr (),
      lc_stage = Inl (Err NoRun), lc_execute = Inr (7 :: nat), lc_token = (\<lambda>_. False)\<rparr>"
  have "run_transform_lifecycle ?l = (Fail NoRun, [EnvCreated, EnvSetup, EnvUp, EnvDown, EnvCleaned])"
    by (simp add: lifecycle_body_eq run_transform_lifecycle_def check_token_def call_def lifecycle_teardown_def)
  from lifecycle_tears_down [OF this] this show ?thesis by simp
qed

text \<open>the interactive executor retries only attempts that failed retryably, returns an
  artifact only when the last attempt produced it and the upload succeeded, and cancels the
  run only by the user's choice to quit, with the failure of that last attempt as the
  error.\<close>

lemma execute_retries:
  assumes "execute_loop sh upload ts as 0 = Some (r, c, m)"
  shows "1 \<le> m \<and> m \<le> length ts \<and> (\<forall>j < m - 1. \<exists>lf msg. ts ! j = TRetryable lf msg)
    \<and> (\<forall>a. r = Ok a \<longrightarrow> ts ! (m - 1) = TSuccess a \<and> upload = Ok () \<and> \<not> c)
    \<and> (c \<longrightarrow> r = Fail (Passthrough (failure_text (ts ! (m - 1)))) \<and> (\<forall>a. ts ! (m - 1) \<noteq> TSuccess a))"
  using execute_spec [OF assms] by auto

lemma execute_retries_witness:
  "execute_loop False (Inr ()) [TRetryable None ''flaky'', TSuccess (7 :: nat)] [Inr (0, Inr ())] 0 = Some (Ok 7, False, 2)
   \<and> [TRetryable None ''flaky'', TSuccess (7 :: nat)] ! 1 = TSuccess 7"
proof -
  have e: "execute_loop False (Inr ()) [TRetryable None ''flaky'', TSuccess (7 :: nat)] [Inr (0, Inr ())] 0 = Some (Ok 7, False, 2)"
    by (simp add: prompt_options_def)
  from execute_retries [OF e] e show ?thesis by simp
qed

text \<open>waiting for tasks succeeds exactly when every task did; otherwise the error lists
  the failures of all tasks in order, unless one of them panicked.\<close>

lemma wait_collects:
  "((\<exists>xs. wait_tasks rs = Ok xs) \<longleftrightarrow> (\<forall>r \<in> set rs. \<exists>x. r = Ok x))
   \<and> wait_tasks (map Ok xs) = Ok xs
   \<and> (Inl Panic \<notin> set rs \<and> (\<exists>e. Inl (Err e) \<in> set rs) \<longrightarrow> wait_tasks rs = Fail (Child (task_errors rs)))"
proof -
  have "wait_tasks (map Ok xs) = Ok xs"
    by (auto simp: wait_tasks_def task_errors_def task_values_def comp_def)
  moreover have "Inl Panic \<notin> set rs \<and> (\<exists>e. Inl (Err e) \<in> set rs) \<longrightarrow> wait_tasks rs = Fail (Child (task_errors rs))"
    by (auto simp: wait_tasks_def task_errors_Nil)
  ultimately show ?thesis using wait_tasks_Ok [of rs] by blast
qed

lemma wait_collects_witness:
  "wait_tasks [Inl (Err NoRun), Inr (3 :: nat), Inl (Err Cancelled)] = Fail (Child [NoRun, Cancelled])"
  using wait_collects [of "[Inl (Err NoRun), Inr (3 :: nat), Inl (Err Cancelled)]"]
  by (auto simp: task_errors_def)

end
