(* ===== verification/Storage.thy ===== *)
theory Storage
  imports Local_Backend
begin

text \<open>
  The layered artifact store (\<open>crates/edo/src/storage/mod.rs\<close>): a local cache, source caches
  in priority order, an optional build and an optional output cache, all behind the trait
  \<open>Backend\<close> (\<open>crates/edo/src/storage/backend.rs\<close>).

  A backend is a record of the trait's operations over its state; handles are shared
  (\<open>Arc\<close>), so the states live in a heap and the store holds references. Layers are
  transferred by one task each; the tasks write distinct temporary files and blobs named by
  their content, and are run here in the order they are spawned.
\<close>

section \<open>The backend trait\<close>

datatype 'i storage_error = AbsoluteErr | SChild "'i storage_error list" | SId string | SIo | Implementation 'i
  | SMediaType string | SJoin | SProject | SRegex | SSchema string | SSemver

record ('s, 'w, 'i, 'v) backend =
  bk_has :: "'v artifact_id \<Rightarrow> 's \<Rightarrow> ('i storage_error, bool) res"
  bk_open :: "'v artifact_id \<Rightarrow> 's \<Rightarrow> ('i storage_error, 'v artifact) res"
  bk_save :: "'v artifact \<Rightarrow> 's \<Rightarrow> ('i storage_error, unit) res \<times> 's"
  bk_read :: "layer \<Rightarrow> 's \<Rightarrow> ('i storage_error, string) res"
  bk_start :: "string \<Rightarrow> 's \<Rightarrow> ('i storage_error, 'w) res \<times> 's"
  bk_write :: "string \<Rightarrow> 'w \<Rightarrow> 's \<Rightarrow> ('i storage_error, 'w) res \<times> 's"
  bk_finish :: "media_type \<Rightarrow> string option \<Rightarrow> 'w \<Rightarrow> 's \<Rightarrow> ('i storage_error, layer) res \<times> 's"
  bk_prune :: "'v artifact_id \<Rightarrow> 's \<Rightarrow> ('i storage_error, unit) res \<times> 's"
  bk_prune_all :: "'s \<Rightarrow> ('i storage_error, unit) res \<times> 's"

section \<open>The store\<close>

record storage =
  st_local :: nat
  st_source :: "(string \<times> nat) list"
  st_build :: "nat option"
  st_output :: "nat option"

definition storage_init :: "nat \<Rightarrow> storage" where
  "storage_init b = \<lparr>st_local = b, st_source = [], st_build = None, st_output = None\<rparr>"

text \<open>\<open>IndexMap\<close>: an insertion keeps the position of a known key; \<open>insert_before(0, ..)\<close> moves it
  to the front; \<open>shift_remove\<close> keeps the order of the rest.\<close>

fun index_insert :: "'k \<Rightarrow> 'v \<Rightarrow> ('k \<times> 'v) list \<Rightarrow> ('k \<times> 'v) list" where
  "index_insert k v [] = [(k, v)]"
| "index_insert k v ((k', v') # m) = (if k' = k then (k, v) # m else (k', v') # index_insert k v m)"

definition add_source_cache :: "string \<Rightarrow> nat \<Rightarrow> storage \<Rightarrow> storage" where
  "add_source_cache name b st = st\<lparr>st_source := index_insert name b (st_source st)\<rparr>"

definition add_source_cache_front :: "string \<Rightarrow> nat \<Rightarrow> storage \<Rightarrow> storage" where
  "add_source_cache_front name b st = st\<lparr>st_source := (name, b) # filter (\<lambda>e. fst e \<noteq> name) (st_source st)\<rparr>"

definition remove_source_cache :: "string \<Rightarrow> storage \<Rightarrow> nat option \<times> storage" where
  "remove_source_cache name st =
     (map_of (st_source st) name, st\<lparr>st_source := filter (\<lambda>e. fst e \<noteq> name) (st_source st)\<rparr>)"

definition set_build_cache :: "nat \<Rightarrow> storage \<Rightarrow> storage" where
  "set_build_cache b st = st\<lparr>st_build := Some b\<rparr>"

definition set_output_cache :: "nat \<Rightarrow> storage \<Rightarrow> storage" where
  "set_output_cache b st = st\<lparr>st_output := Some b\<rparr>"

text \<open>Joining the tasks.\<close>

definition wait_storage :: "('i storage_error, 'r) res list \<Rightarrow> ('i storage_error, 'r list) res" where
  "wait_storage rs =
     (if Inl Panic \<in> set rs then Fail SJoin
      else if task_errors rs \<noteq> [] then Fail (SChild (task_errors rs))
      else Ok (task_values rs))"

text \<open>One task: read the layer at \<open>src\<close>, write it into a new layer (with the fresh name \<open>u\<close>) at
  \<open>dst\<close>. The layer that \<open>finish_layer\<close> returns is dropped.\<close>

definition store_bytes :: "('s, 'w, 'i, 'v) backend \<Rightarrow> string \<Rightarrow> media_type \<Rightarrow> string option \<Rightarrow> string \<Rightarrow> 's
    \<Rightarrow> ('i storage_error, layer) res \<times> 's" where
  "store_bytes B u media platform bytes s =
     (case bk_start B u s of
        (Inl e, s1) \<Rightarrow> (Inl e, s1)
      | (Inr w, s1) \<Rightarrow>
          (case bk_write B bytes w s1 of
             (Inl e, s2) \<Rightarrow> (Inl e, s2)
           | (Inr w2, s2) \<Rightarrow> bk_finish B media platform w2 s2))"

definition transfer_layer :: "(nat \<Rightarrow> ('s, 'w, 'i, 'v) backend) \<Rightarrow> nat \<Rightarrow> nat \<Rightarrow> string \<Rightarrow> layer \<Rightarrow> (nat \<Rightarrow> 's)
    \<Rightarrow> ('i storage_error, unit) res \<times> (nat \<Rightarrow> 's)" where
  "transfer_layer V src dst u l h =
     (case bk_read (V src) l (h src) of
        Inl e \<Rightarrow> (Inl e, h)
      | Inr bytes \<Rightarrow>
          (case store_bytes (V dst) u (layer_media l) (layer_platform l) bytes (h dst) of
             (Inl e, s) \<Rightarrow> (Inl e, h(dst := s))
           | (Inr _, s) \<Rightarrow> (Ok (), h(dst := s))))"

fun transfer_all :: "(nat \<Rightarrow> ('s, 'w, 'i, 'v) backend) \<Rightarrow> nat \<Rightarrow> nat \<Rightarrow> (string \<times> layer) list \<Rightarrow> (nat \<Rightarrow> 's)
    \<Rightarrow> ('i storage_error, unit) res list \<times> (nat \<Rightarrow> 's)" where
  "transfer_all V src dst [] h = ([], h)"
| "transfer_all V src dst ((u, l) # ls) h =
     (let (r, h1) = transfer_layer V src dst u l h; (rs, h2) = transfer_all V src dst ls h1
      in (r # rs, h2))"

text \<open>\<open>download\<close> and \<open>upload\<close>: all layers, then the manifest; \<open>us\<close> are the fresh names.\<close>

definition transfer :: "(nat \<Rightarrow> ('s, 'w, 'i, 'v) backend) \<Rightarrow> nat \<Rightarrow> nat \<Rightarrow> string list \<Rightarrow> 'v artifact \<Rightarrow> (nat \<Rightarrow> 's)
    \<Rightarrow> ('i storage_error, unit) res \<times> (nat \<Rightarrow> 's)" where
  "transfer V src dst us a h =
     (let (rs, h1) = transfer_all V src dst (zip us (art_layers a)) h
      in case wait_storage rs of
           Inl e \<Rightarrow> (Inl e, h1)
         | Inr _ \<Rightarrow> (let (r, s) = bk_save (V dst) a (h1 dst) in (r, h1(dst := s))))"

definition download :: "(nat \<Rightarrow> ('s, 'w, 'i, 'v) backend) \<Rightarrow> storage \<Rightarrow> string list \<Rightarrow> 'v artifact \<Rightarrow> nat \<Rightarrow> (nat \<Rightarrow> 's)
    \<Rightarrow> ('i storage_error, unit) res \<times> (nat \<Rightarrow> 's)" where
  "download V st us a b h = transfer V b (st_local st) us a h"

definition upload :: "(nat \<Rightarrow> ('s, 'w, 'i, 'v) backend) \<Rightarrow> storage \<Rightarrow> string list \<Rightarrow> 'v artifact \<Rightarrow> nat \<Rightarrow> (nat \<Rightarrow> 's)
    \<Rightarrow> ('i storage_error, unit) res \<times> (nat \<Rightarrow> 's)" where
  "upload V st us a b h = transfer V (st_local st) b us a h"

fun find_in :: "(nat \<Rightarrow> ('s, 'w, 'i, 'v) backend) \<Rightarrow> (string \<times> nat) list \<Rightarrow> 'v artifact_id \<Rightarrow> (nat \<Rightarrow> 's)
    \<Rightarrow> ('i storage_error, ('v artifact \<times> nat) option) res" where
  "find_in V [] i h = Ok None"
| "find_in V ((_, b) # cs) i h =
     bindR (bk_has (V b) i (h b)) (\<lambda>yes.
       if yes then bindR (bk_open (V b) i (h b)) (\<lambda>a. Ok (Some (a, b))) else find_in V cs i h)"

definition find_source :: "(nat \<Rightarrow> ('s, 'w, 'i, 'v) backend) \<Rightarrow> storage \<Rightarrow> 'v artifact_id \<Rightarrow> (nat \<Rightarrow> 's)
    \<Rightarrow> ('i storage_error, ('v artifact \<times> nat) option) res" where
  "find_source V st i h = find_in V (st_source st) i h"

definition fetch_source :: "(nat \<Rightarrow> ('s, 'w, 'i, 'v) backend) \<Rightarrow> storage \<Rightarrow> string list \<Rightarrow> 'v artifact_id \<Rightarrow> (nat \<Rightarrow> 's)
    \<Rightarrow> ('i storage_error, 'v artifact option) res \<times> (nat \<Rightarrow> 's)" where
  "fetch_source V st us i h =
     (let L = st_local st
      in case bk_has (V L) i (h L) of
           Inl e \<Rightarrow> (Inl e, h)
         | Inr True \<Rightarrow> (bindR (bk_open (V L) i (h L)) (\<lambda>a. Ok (Some a)), h)
         | Inr False \<Rightarrow>
             (case find_source V st i h of
                Inl e \<Rightarrow> (Inl e, h)
              | Inr None \<Rightarrow> (Ok None, h)
              | Inr (Some (a, b)) \<Rightarrow>
                  (case download V st us a b h of
                     (Inl e, h1) \<Rightarrow> (Inl e, h1)
                   | (Inr _, h1) \<Rightarrow> (Ok (Some a), h1))))"

definition find_build :: "(nat \<Rightarrow> ('s, 'w, 'i, 'v) backend) \<Rightarrow> storage \<Rightarrow> string list \<Rightarrow> 'v artifact_id \<Rightarrow> bool \<Rightarrow> (nat \<Rightarrow> 's)
    \<Rightarrow> ('i storage_error, 'v artifact option) res \<times> (nat \<Rightarrow> 's)" where
  "find_build V st us i sync h =
     (let L = st_local st
      in case bk_has (V L) i (h L) of
           Inl e \<Rightarrow> (Inl e, h)
         | Inr True \<Rightarrow> (bindR (bk_open (V L) i (h L)) (\<lambda>a. Ok (Some a)), h)
         | Inr False \<Rightarrow>
             (case st_build st of
                None \<Rightarrow> (Ok None, h)
              | Some b \<Rightarrow>
                  (case bk_has (V b) i (h b) of
                     Inl e \<Rightarrow> (Inl e, h)
                   | Inr False \<Rightarrow> (Ok None, h)
                   | Inr True \<Rightarrow>
                       (case bk_open (V b) i (h b) of
                          Inl e \<Rightarrow> (Inl e, h)
                        | Inr a \<Rightarrow>
                            if sync
                            then (case download V st us a b h of
                                    (Inl e, h1) \<Rightarrow> (Inl e, h1)
                                  | (Inr _, h1) \<Rightarrow> (Ok (Some a), h1))
                            else (Ok (Some a), h)))))"

definition upload_to :: "(nat \<Rightarrow> ('s, 'w, 'i, 'v) backend) \<Rightarrow> storage \<Rightarrow> nat option \<Rightarrow> string list \<Rightarrow> 'v artifact_id \<Rightarrow> (nat \<Rightarrow> 's)
    \<Rightarrow> ('i storage_error, unit) res \<times> (nat \<Rightarrow> 's)" where
  "upload_to V st target us i h =
     (case target of
        None \<Rightarrow> (Ok (), h)
      | Some b \<Rightarrow>
          (case bk_open (V (st_local st)) i (h (st_local st)) of
             Inl e \<Rightarrow> (Inl e, h)
           | Inr a \<Rightarrow> upload V st us a b h))"

definition upload_build :: "(nat \<Rightarrow> ('s, 'w, 'i, 'v) backend) \<Rightarrow> storage \<Rightarrow> string list \<Rightarrow> 'v artifact_id \<Rightarrow> (nat \<Rightarrow> 's)
    \<Rightarrow> ('i storage_error, unit) res \<times> (nat \<Rightarrow> 's)" where
  "upload_build V st us i h = upload_to V st (st_build st) us i h"

definition upload_output :: "(nat \<Rightarrow> ('s, 'w, 'i, 'v) backend) \<Rightarrow> storage \<Rightarrow> string list \<Rightarrow> 'v artifact_id \<Rightarrow> (nat \<Rightarrow> 's)
    \<Rightarrow> ('i storage_error, unit) res \<times> (nat \<Rightarrow> 's)" where
  "upload_output V st us i h = upload_to V st (st_output st) us i h"

text \<open>The operations that go straight to the local cache.\<close>

definition on_local :: "(('s, 'w, 'i, 'v) backend \<Rightarrow> 's \<Rightarrow> ('i storage_error, 'r) res \<times> 's) \<Rightarrow> (nat \<Rightarrow> ('s, 'w, 'i, 'v) backend)
    \<Rightarrow> storage \<Rightarrow> (nat \<Rightarrow> 's) \<Rightarrow> ('i storage_error, 'r) res \<times> (nat \<Rightarrow> 's)" where
  "on_local f V st h = (let (r, s) = f (V (st_local st)) (h (st_local st)) in (r, h(st_local st := s)))"

definition safe_open :: "(nat \<Rightarrow> ('s, 'w, 'i, 'v) backend) \<Rightarrow> storage \<Rightarrow> 'v artifact_id \<Rightarrow> (nat \<Rightarrow> 's)
    \<Rightarrow> ('i storage_error, 'v artifact) res" where
  "safe_open V st i h = bk_open (V (st_local st)) i (h (st_local st))"

definition safe_read :: "(nat \<Rightarrow> ('s, 'w, 'i, 'v) backend) \<Rightarrow> storage \<Rightarrow> layer \<Rightarrow> (nat \<Rightarrow> 's) \<Rightarrow> ('i storage_error, string) res" where
  "safe_read V st l h = bk_read (V (st_local st)) l (h (st_local st))"

definition safe_save :: "(nat \<Rightarrow> ('s, 'w, 'i, 'v) backend) \<Rightarrow> storage \<Rightarrow> 'v artifact \<Rightarrow> (nat \<Rightarrow> 's)
    \<Rightarrow> ('i storage_error, unit) res \<times> (nat \<Rightarrow> 's)" where
  "safe_save V st a h = on_local (\<lambda>B. bk_save B a) V st h"

definition safe_start_layer :: "(nat \<Rightarrow> ('s, 'w, 'i, 'v) backend) \<Rightarrow> storage \<Rightarrow> string \<Rightarrow> (nat \<Rightarrow> 's)
    \<Rightarrow> ('i storage_error, 'w) res \<times> (nat \<Rightarrow> 's)" where
  "safe_start_layer V st u h = on_local (\<lambda>B. bk_start B u) V st h"

definition safe_finish_layer :: "(nat \<Rightarrow> ('s, 'w, 'i, 'v) backend) \<Rightarrow> storage \<Rightarrow> media_type \<Rightarrow> string option \<Rightarrow> 'w \<Rightarrow> (nat \<Rightarrow> 's)
    \<Rightarrow> ('i storage_error, layer) res \<times> (nat \<Rightarrow> 's)" where
  "safe_finish_layer V st media platform w h = on_local (\<lambda>B. bk_finish B media platform w) V st h"

definition prune_local :: "(nat \<Rightarrow> ('s, 'w, 'i, 'v) backend) \<Rightarrow> storage \<Rightarrow> 'v artifact_id \<Rightarrow> (nat \<Rightarrow> 's)
    \<Rightarrow> ('i storage_error, unit) res \<times> (nat \<Rightarrow> 's)" where
  "prune_local V st i h = on_local (\<lambda>B. bk_prune B i) V st h"

definition prune_local_all :: "(nat \<Rightarrow> ('s, 'w, 'i, 'v) backend) \<Rightarrow> storage \<Rightarrow> (nat \<Rightarrow> 's)
    \<Rightarrow> ('i storage_error, unit) res \<times> (nat \<Rightarrow> 's)" where
  "prune_local_all V st h = on_local bk_prune_all V st h"

section \<open>What the store relies on\<close>

text \<open>
  A backend as a client sees it: manifests by identifier and bytes by digest. The blobs of a
  stored manifest are present and hash to their digests; storing bytes adds one blob named by
  their hash; saving a manifest that some backend of this kind holds, when its blobs are
  present, adds it and changes no blob.
\<close>

locale blob_store =
  fixes B :: "('s, 'w, 'i, 'v) backend"
    and hash :: "string \<Rightarrow> string"
    and inv :: "'s \<Rightarrow> bool"
    and lookup :: "'s \<Rightarrow> 'v artifact_id \<Rightarrow> 'v artifact option"
    and content :: "'s \<Rightarrow> string \<Rightarrow> string option"
  assumes has_ok: "inv s \<Longrightarrow> bk_has B i s = Ok (lookup s i \<noteq> None)"
    and open_ok: "inv s \<Longrightarrow> lookup s i = Some a \<Longrightarrow> bk_open B i s = Ok a"
    and id_ok: "inv s \<Longrightarrow> lookup s i = Some a \<Longrightarrow> art_id a = i"
    and blobs_ok: "inv s \<Longrightarrow> lookup s i = Some a \<Longrightarrow> d \<in> set (art_digests a) \<Longrightarrow>
      \<exists>x. content s d = Some x \<and> hash x = d"
    and read_ok: "inv s \<Longrightarrow> content s (layer_digest_text l) = Some x \<Longrightarrow> bk_read B l s = Ok x"
    and store_ok: "inv s \<Longrightarrow> \<exists>l s'. store_bytes B u m p x s = (Ok l, s') \<and> inv s' \<and> lookup s' = lookup s
      \<and> content s' = (content s)(hash x \<mapsto> x)"
    and put_ok: "inv s \<Longrightarrow> inv t \<Longrightarrow> lookup t j = Some a \<Longrightarrow> \<forall>d \<in> set (art_digests a). content s d \<noteq> None \<Longrightarrow>
      \<exists>s'. bk_save B a s = (Ok (), s') \<and> inv s' \<and> lookup s' = (lookup s)(art_id a \<mapsto> a) \<and> content s' = content s"
begin

lemma transfer_layers_ok:
  assumes "src \<noteq> dst" and "inv (h src)" and "inv (h dst)" and "length us = length ls"
    and "\<forall>l \<in> set ls. \<exists>x. content (h src) (layer_digest_text l) = Some x \<and> hash x = layer_digest_text l"
  shows "\<exists>rs h'. transfer_all (\<lambda>_. B) src dst (zip us ls) h = (rs, h') \<and> set rs \<subseteq> {Ok ()} \<and> inv (h' dst)
    \<and> lookup (h' dst) = lookup (h dst) \<and> (\<forall>k. k \<noteq> dst \<longrightarrow> h' k = h k)
    \<and> content (h' dst) = content (h dst) ++ (content (h src) |` (layer_digest_text ` set ls))"
  using assms
proof (induction ls arbitrary: us h)
  case Nil
  then show ?case by auto
next
  case (Cons l ls)
  obtain u us' where us: "us = u # us'" using Cons.prems(4) by (cases us) auto
  obtain x where x: "content (h src) (layer_digest_text l) = Some x" "hash x = layer_digest_text l"
    using Cons.prems(5) by auto
  obtain l' s1 where s1: "store_bytes B u (layer_media l) (layer_platform l) x (h dst) = (Ok l', s1)" "inv s1"
    "lookup s1 = lookup (h dst)" "content s1 = (content (h dst))(layer_digest_text l \<mapsto> x)"
    using store_ok [OF Cons.prems(3), of u "layer_media l" "layer_platform l" x] x(2) by auto
  let ?h = "h(dst := s1)"
  have t: "transfer_layer (\<lambda>_. B) src dst u l h = (Ok (), ?h)"
    by (simp add: transfer_layer_def read_ok [OF Cons.prems(2) x(1)] s1(1))
  have src: "?h src = h src" and dst: "?h dst = s1" using Cons.prems(1) by simp_all
  have ball: "\<forall>l \<in> set ls. \<exists>x. content (?h src) (layer_digest_text l) = Some x \<and> hash x = layer_digest_text l"
    using Cons.prems(5) by (simp only: src) simp
  have "inv (?h src)" "inv (?h dst)" using Cons.prems(2) s1(2) by (simp_all only: src dst)
  moreover have "length us' = length ls" using Cons.prems(4) us by simp
  ultimately obtain rs h' where r: "transfer_all (\<lambda>_. B) src dst (zip us' ls) ?h = (rs, h')" "set rs \<subseteq> {Ok ()}" "inv (h' dst)"
    "lookup (h' dst) = lookup s1" "\<forall>k. k \<noteq> dst \<longrightarrow> h' k = ?h k"
    "content (h' dst) = content s1 ++ (content (h src) |` (layer_digest_text ` set ls))"
    using Cons.IH [where h = ?h and us = us'] Cons.prems(1) ball by (simp only: src dst) blast
  have "content s1 ++ (content (h src) |` (layer_digest_text ` set ls))
      = content (h dst) ++ (content (h src) |` (layer_digest_text ` set (l # ls)))"
    using x(1) s1(4) by (auto simp: fun_eq_iff map_add_def restrict_map_def split: option.splits)
  moreover have "transfer_all (\<lambda>_. B) src dst (zip us (l # ls)) h = (Ok () # rs, h')" by (simp add: us t r(1))
  ultimately show ?case using r(2-6) s1(3) by auto
qed

lemma wait_ok: "set rs \<subseteq> {Ok ()} \<Longrightarrow> wait_storage rs = Ok (task_values rs)"
  using task_errors_Nil [of rs] by (auto simp: wait_storage_def)

lemma transfer_ok:
  assumes neq: "src \<noteq> dst" and inv: "inv (h src)" "inv (h dst)" and a: "lookup (h src) i = Some a"
    and us: "length us = length (art_layers a)"
  shows "\<exists>h'. transfer (\<lambda>_. B) src dst us a h = (Ok (), h') \<and> inv (h' dst)
    \<and> lookup (h' dst) = (lookup (h dst))(i \<mapsto> a) \<and> (\<forall>k. k \<noteq> dst \<longrightarrow> h' k = h k)
    \<and> (\<forall>d \<in> set (art_digests a). content (h' dst) d = content (h src) d)"
proof -
  have blobs: "\<exists>x. content (h src) d = Some x \<and> hash x = d" if "d \<in> set (art_digests a)" for d
    using blobs_ok [OF inv(1) a that] .
  then have "\<forall>l \<in> set (art_layers a). \<exists>x. content (h src) (layer_digest_text l) = Some x \<and> hash x = layer_digest_text l"
    by (auto simp: art_digests_def)
  from transfer_layers_ok [OF neq inv us this] obtain rs h1 where
    t: "transfer_all (\<lambda>_. B) src dst (zip us (art_layers a)) h = (rs, h1)" "set rs \<subseteq> {Ok ()}" "inv (h1 dst)"
    "lookup (h1 dst) = lookup (h dst)" "\<forall>k. k \<noteq> dst \<longrightarrow> h1 k = h k"
    "content (h1 dst) = content (h dst) ++ (content (h src) |` set (art_digests a))"
    by (auto simp: art_digests_def)
  have c: "\<forall>d \<in> set (art_digests a). content (h1 dst) d = content (h src) d"
    using blobs by (fastforce simp: t(6) map_add_def restrict_map_def split: option.splits)
  with blobs have "\<forall>d \<in> set (art_digests a). content (h1 dst) d \<noteq> None" by fastforce
  from put_ok [OF t(3) inv(1) a this] obtain s where s: "bk_save B a (h1 dst) = (Ok (), s)" "inv s"
    "lookup s = (lookup (h1 dst))(art_id a \<mapsto> a)" "content s = content (h1 dst)" by blast
  have "transfer (\<lambda>_. B) src dst us a h = (Ok (), h1(dst := s))"
    by (simp add: transfer_def t(1) wait_ok [OF t(2)] s(1))
  then show ?thesis using s t(4,5) c id_ok [OF inv(1) a] by auto
qed

lemma find_in_ok:
  assumes "\<forall>(n, b) \<in> set cs. inv (h b)"
  shows "find_in (\<lambda>_. B) cs i h =
    Ok (case filter (\<lambda>(n, b). lookup (h b) i \<noteq> None) cs of [] \<Rightarrow> None | (n, b) # _ \<Rightarrow> Some (the (lookup (h b) i), b))"
  using assms by (induction cs) (auto simp: has_ok open_ok)

text \<open>After a transfer into the local cache, the artifact and its blobs are there.\<close>

lemma find_build_ok:
  assumes inv: "inv (h (st_local st))" and b: "st_build st = Some b" "b \<noteq> st_local st" "inv (h b)"
    and a: "lookup (h (st_local st)) i = None" "lookup (h b) i = Some a" and us: "length us = length (art_layers a)"
  shows "\<exists>h'. find_build (\<lambda>_. B) st us i True h = (Ok (Some a), h') \<and> inv (h' (st_local st))
    \<and> lookup (h' (st_local st)) = (lookup (h (st_local st)))(i \<mapsto> a) \<and> (\<forall>k. k \<noteq> st_local st \<longrightarrow> h' k = h k)
    \<and> (\<forall>d \<in> set (art_digests a). content (h' (st_local st)) d = content (h b) d)"
proof -
  from transfer_ok [OF b(2,3) inv a(2) us] obtain h' where h': "transfer (\<lambda>_. B) b (st_local st) us a h = (Ok (), h')"
    "inv (h' (st_local st)) \<and> lookup (h' (st_local st)) = (lookup (h (st_local st)))(i \<mapsto> a)
     \<and> (\<forall>k. k \<noteq> st_local st \<longrightarrow> h' k = h k)
     \<and> (\<forall>d \<in> set (art_digests a). content (h' (st_local st)) d = content (h b) d)" by blast
  have "find_build (\<lambda>_. B) st us i True h = (Ok (Some a), h')"
    by (simp add: find_build_def Let_def has_ok [OF inv] has_ok [OF b(3)] open_ok [OF b(3) a(2)] a b(1) download_def h'(1))
  with h'(2) show ?thesis by blast
qed

lemma fetch_source_ok:
  assumes inv: "inv (h (st_local st))" "\<forall>(n, b) \<in> set (st_source st). b \<noteq> st_local st \<and> inv (h b)"
    and a: "lookup (h (st_local st)) i = None"
    and first: "filter (\<lambda>(n, b). lookup (h b) i \<noteq> None) (st_source st) = (n, b) # rest" "lookup (h b) i = Some a"
    and us: "length us = length (art_layers a)"
  shows "\<exists>h'. fetch_source (\<lambda>_. B) st us i h = (Ok (Some a), h') \<and> inv (h' (st_local st))
    \<and> lookup (h' (st_local st)) = (lookup (h (st_local st)))(i \<mapsto> a) \<and> (\<forall>k. k \<noteq> st_local st \<longrightarrow> h' k = h k)
    \<and> (\<forall>d \<in> set (art_digests a). content (h' (st_local st)) d = content (h b) d)"
proof -
  have "(n, b) \<in> set (st_source st)" using Cons_eq_filterD [OF first(1) [symmetric]] by auto
  with inv(2) have b: "b \<noteq> st_local st" "inv (h b)" by auto
  from transfer_ok [OF b inv(1) first(2) us] obtain h' where h': "transfer (\<lambda>_. B) b (st_local st) us a h = (Ok (), h')"
    "inv (h' (st_local st)) \<and> lookup (h' (st_local st)) = (lookup (h (st_local st)))(i \<mapsto> a)
     \<and> (\<forall>k. k \<noteq> st_local st \<longrightarrow> h' k = h k)
     \<and> (\<forall>d \<in> set (art_digests a). content (h' (st_local st)) d = content (h b) d)" by blast
  have "find_source (\<lambda>_. B) st i h = Ok (Some (a, b))"
    using inv(2) first by (simp add: find_source_def find_in_ok split_def)
  then have "fetch_source (\<lambda>_. B) st us i h = (Ok (Some a), h')"
    by (simp add: fetch_source_def Let_def has_ok [OF inv(1)] a download_def h'(1))
  with h'(2) show ?thesis by blast
qed

lemma upload_build_ok:
  assumes inv: "inv (h (st_local st))" and b: "st_build st = Some b" "b \<noteq> st_local st" "inv (h b)"
    and a: "lookup (h (st_local st)) i = Some a" and us: "length us = length (art_layers a)"
  shows "\<exists>h'. upload_build (\<lambda>_. B) st us i h = (Ok (), h') \<and> inv (h' b)
    \<and> lookup (h' b) = (lookup (h b))(i \<mapsto> a) \<and> (\<forall>k. k \<noteq> b \<longrightarrow> h' k = h k)
    \<and> (\<forall>d \<in> set (art_digests a). content (h' b) d = content (h (st_local st)) d)"
  using transfer_ok [OF b(2) [symmetric] inv b(3) a us]
  by (simp add: upload_build_def upload_to_def b(1) open_ok [OF inv a] upload_def)

end

section \<open>The local backend as a blob store\<close>

text \<open>The trait implementation of the local backend; its errors are wrapped by
  \<open>From<LocalBackendError> for StorageError\<close>. The bytes of a layer are written as by \<open>tokio::io::copy\<close> to
  a disk that takes them, which flushes at the end; any other division into accepted writes that is
  flushed leaves the same layer.\<close>

definition impl_err :: "('v local_error, 'r) res \<Rightarrow> ('v local_error storage_error, 'r) res" where
  "impl_err r = map_err Implementation r"

definition impl_step :: "('v local_error, 'r) res \<times> local_backend \<Rightarrow> ('v local_error storage_error, 'r) res \<times> local_backend" where
  "impl_step p = (impl_err (fst p), snd p)"

definition local_ops :: "(string \<Rightarrow> string) \<Rightarrow> ('v::linorder \<Rightarrow> string) \<Rightarrow> (string \<Rightarrow> 'v option)
    \<Rightarrow> (local_backend, writer, 'v local_error, 'v) backend" where
  "local_ops hash vshow vparse = \<lparr>
     bk_has = (\<lambda>i s. impl_err (local_has vparse i s)),
     bk_open = (\<lambda>i s. impl_err (local_open vparse i s)),
     bk_save = (\<lambda>a s. impl_step (local_save vshow vparse a s)),
     bk_read = (\<lambda>l s. impl_err (local_read l s)),
     bk_start = (\<lambda>u s. impl_step (start_layer u s)),
     bk_write = (\<lambda>x w s. let (w', d) = copy_in x (w, layer_dir s) in (Ok w', s\<lparr>layer_dir := d\<rparr>)),
     bk_finish = (\<lambda>m p w s. impl_step (finish_layer hash m p 0 w s)),
     bk_prune = (\<lambda>i s. impl_step (local_prune vshow vparse i s)),
     bk_prune_all = (\<lambda>s. impl_step (local_prune_all s))\<rparr>"

text \<open>The blobs proper: files whose names are hex text (temporary files are not).\<close>

definition content :: "local_backend \<Rightarrow> string \<Rightarrow> string option" where
  "content s d = (case layer_dir s of None \<Rightarrow> None | Some b \<Rightarrow> if hex_text d then b d else None)"

definition sound :: "(string \<Rightarrow> string) \<Rightarrow> ('v \<Rightarrow> string) \<Rightarrow> (string \<Rightarrow> 'v option) \<Rightarrow> local_backend \<Rightarrow> bool" where
  "sound hash vshow vparse s \<longleftrightarrow> (\<forall>x. hex_text (hash x)) \<and> local_inv vshow vparse s
     \<and> (\<forall>d x. content s d = Some x \<longrightarrow> hash x = d)
     \<and> (\<forall>i a. local_lookup vparse s i = Some a \<longrightarrow> (\<forall>d \<in> set (art_digests a). hex_text d))"

lemma soundD:
  assumes "sound hash vshow vparse s"
  shows "hex_text (hash x)" and "local_inv vshow vparse s" and "content s d = Some x \<Longrightarrow> hash x = d"
    and "local_lookup vparse s i = Some a \<Longrightarrow> d \<in> set (art_digests a) \<Longrightarrow> hex_text d"
  using assms by (auto simp: sound_def)

lemma lookup_stored:
  assumes "local_inv vshow vparse s" and "local_lookup vparse s i = Some a"
  shows "art_id a = i" and "id_prefix vshow i \<noteq> ''*''" and "art_plain a"
    and "d \<in> set (art_digests a) \<Longrightarrow> blob_exists s d"
proof -
  from assms(1) obtain c b where c: "load_at vparse s = Ok c" "layer_dir s = Some b" "catalog_wf vshow c"
    "catalog_plain c" "blobs_present c b" by (rule local_invE)
  from c(1) assms(2) have m: "manifests c i = Some a" by (simp add: local_lookup_def catalog_get_def)
  then have r: "a \<in> ran (manifests c)" by (auto simp: ran_def)
  show "art_id a = i" "id_prefix vshow i \<noteq> ''*''"
    using m c(3) index_wfD(1,2) [of vshow c i a] by (simp_all add: catalog_wf_def)
  show "art_plain a" using r c(4) by (simp add: catalog_plain_def)
  show "d \<in> set (art_digests a) \<Longrightarrow> blob_exists s d"
    using r c(2,5) by (auto simp: blobs_present_def blob_exists_def)
qed

lemma stored_blobs:
  assumes "sound hash vshow vparse s" and "local_lookup vparse s i = Some a" and "d \<in> set (art_digests a)"
  shows "\<exists>x. content s d = Some x \<and> hash x = d"
proof -
  from lookup_stored(4) [OF soundD(2) [OF assms(1)] assms(2,3)] obtain b x where
    "layer_dir s = Some b" "b d = Some x" by (auto simp: blob_exists_def split: option.splits)
  then have "content s d = Some x" using soundD(4) [OF assms] by (simp add: content_def)
  with soundD(3) [OF assms(1)] show ?thesis by blast
qed

lemma store_bytes_local:
  assumes "sound hash vshow vparse s" and "layer_dir s = Some b"
  shows "\<exists>l. store_bytes (local_ops hash vshow vparse) u m p x s
    = (Ok l, s\<lparr>layer_dir := Some (b(hash x \<mapsto> x, u @ ''.tmp'' := None))\<rparr>)"
proof -
  obtain w s1 where w: "(start_layer u s :: ('a local_error, writer) res \<times> local_backend) = (Inr w, s1)"
    using assms(2) by (auto simp: start_layer_def Let_def)
  obtain w2 d2 where cp: "copy_in x (w, layer_dir s1) = (w2, d2)" by (cases "copy_in x (w, layer_dir s1)")
  have hex: "hex_text (hash x)" using soundD(1) [OF assms(1)] by simp
  show ?thesis
    by (simp add: store_bytes_def local_ops_def w impl_step_def impl_err_def cp
        copy_in_written [where hash = hash, OF assms(2) hex w cp] del: fun_upd_apply)
qed

lemma store_local_ok:
  assumes "sound hash vshow vparse s"
  shows "\<exists>l s'. store_bytes (local_ops hash vshow vparse) u m p x s = (Ok l, s') \<and> sound hash vshow vparse s'
    \<and> local_lookup vparse s' = local_lookup vparse s \<and> content s' = (content s)(hash x \<mapsto> x)"
proof -
  from soundD(2) [OF assms] obtain c b where c: "load_at vparse s = Ok c" "layer_dir s = Some b" "catalog_wf vshow c"
    "catalog_plain c" "blobs_present c b" by (rule local_invE)
  let ?b = "b(hash x \<mapsto> x, u @ ''.tmp'' := None)"
  let ?s = "s\<lparr>layer_dir := Some ?b\<rparr>"
  have lk: "local_lookup vparse ?s = local_lookup vparse s" by (simp add: local_lookup_def fun_eq_iff)
  have ct: "content ?s = (content s)(hash x \<mapsto> x)"
    using hex_tmp [of "u @ ''.tmp''" u] soundD(1) [OF assms, of x] by (auto simp: content_def c(2) fun_eq_iff)
  have "blobs_present c ?b"
  proof -
    have "d \<in> dom ?b" if "a \<in> ran (manifests c)" "d \<in> set (art_digests a)" for a d
    proof -
      from that(1) obtain i where "local_lookup vparse s i = Some a"
        by (auto simp: ran_def local_lookup_def c(1) catalog_get_def)
      from soundD(4) [OF assms this that(2)] have "d \<noteq> u @ ''.tmp''" using hex_tmp by blast
      with that c(5) show ?thesis by (auto simp: blobs_present_def)
    qed
    then show ?thesis by (auto simp: blobs_present_def simp del: fun_upd_apply)
  qed
  then have "local_inv vshow vparse ?s" using c by (intro local_invI [of _ _ c ?b]) simp_all
  then have "sound hash vshow vparse ?s" using assms soundD(1) [OF assms]
    by (auto simp: sound_def lk ct split: if_splits)
  with store_bytes_local [OF assms c(2)] lk ct show ?thesis by blast
qed

lemma save_layer_dir: "snd (local_save vshow vparse a s) = s \<or> (\<exists>c. snd (local_save vshow vparse a s) = flush_at vshow c s)"
  by (auto simp: local_save_def save_commit_def split: sum.splits)

lemma put_local_ok:
  assumes "sound hash vshow vparse s" and "sound hash vshow vparse t" and a: "local_lookup vparse t j = Some a"
    and blobs: "\<forall>d \<in> set (art_digests a). content s d \<noteq> None"
  shows "\<exists>s'. bk_save (local_ops hash vshow vparse) a s = (Ok (), s') \<and> sound hash vshow vparse s'
    \<and> local_lookup vparse s' = (local_lookup vparse s)(art_id a \<mapsto> a) \<and> content s' = content s"
proof -
  note st = lookup_stored [OF soundD(2) [OF assms(2)] a]
  have "blob_exists s d" if "d \<in> set (art_digests a)" for d
    using that blobs by (auto simp: content_def blob_exists_def split: option.splits if_splits)
  with st have "save_valid vshow s a" by (simp add: save_valid_def)
  from backend_store.save_ok [OF soundD(2) [OF assms(1)] this] obtain s' where
    s': "local_save vshow vparse a s = (Ok (), s')" "local_inv vshow vparse s'"
      "local_lookup vparse s' = (local_lookup vparse s)(art_id a \<mapsto> a)" by blast
  have "content s' = content s"
    using save_layer_dir [of vshow vparse a s] s'(1) by (auto simp: content_def flush_at_def)
  moreover have "sound hash vshow vparse s'"
    using assms(1) s'(2,3) soundD(4) [OF assms(2) a] by (auto simp: sound_def \<open>content s' = content s\<close>)
  ultimately show ?thesis using s' by (simp add: local_ops_def impl_step_def impl_err_def)
qed

interpretation local_store: blob_store "local_ops hash vshow vparse" hash "sound hash vshow vparse"
    "local_lookup vparse" content
proof
  fix s i a l x
  assume s: "sound hash vshow vparse s"
  show "bk_has (local_ops hash vshow vparse) i s = Ok (local_lookup vparse s i \<noteq> None)"
    by (simp add: local_ops_def impl_err_def local_queries(1) [OF soundD(2) [OF s]])
  show "bk_open (local_ops hash vshow vparse) i s = Ok a" if "local_lookup vparse s i = Some a"
    by (simp add: local_ops_def impl_err_def local_queries(2) [OF soundD(2) [OF s]] that)
  show "art_id a = i" if "local_lookup vparse s i = Some a"
    by (rule lookup_stored(1) [OF soundD(2) [OF s] that])
  show "bk_read (local_ops hash vshow vparse) l s = Ok x" if "content s (layer_digest_text l) = Some x"
    using that by (auto simp: local_ops_def impl_err_def local_read_def content_def split: option.splits if_splits)
qed (rule stored_blobs store_local_ok put_local_ok; assumption)+

section \<open>An example store\<close>

text \<open>Cache 0 is the empty local cache; cache 1 is the example backend, registered as a source
  and as the build cache.\<close>

definition example_hash :: "string \<Rightarrow> string" where
  "example_hash x = (if x = ''x'' then ''d'' else ''e'')"

definition example_heap :: "nat \<Rightarrow> local_backend" where
  "example_heap k = (if k = 1 then example_backend else local_new \<lparr>catalog_file = None, layer_dir = None\<rparr>)"

definition example_store :: storage where
  "example_store = set_build_cache 1 (add_source_cache ''origin'' 1 (storage_init 0))"

abbreviation example_ops :: "(local_backend, writer, nat local_error, nat) backend" where
  "example_ops \<equiv> local_ops example_hash (\<lambda>_. []) (\<lambda>_. None)"

abbreviation example_id :: "nat artifact_id" where
  "example_id \<equiv> Id (Name ''gcc'') None None None ''h1''"

abbreviation example_art :: "nat artifact" where
  "example_art \<equiv> example_artifact ''gcc'' ''h1'' [''d'']"

lemma example_store_simps [simp]:
  "st_local example_store = 0" "st_build example_store = Some 1" "st_source example_store = [(''origin'', 1)]"
  by (simp_all add: example_store_def set_build_cache_def add_source_cache_def storage_init_def)

lemma example_sound:
  "sound example_hash (\<lambda>_ :: nat. []) (\<lambda>_. None) (example_heap 0)"
  "sound example_hash (\<lambda>_ :: nat. []) (\<lambda>_. None) (example_heap 1)"
proof -
  have hex: "\<forall>x. hex_text (example_hash x)" by (simp add: hex_text_def example_hash_def)
  show "sound example_hash (\<lambda>_ :: nat. []) (\<lambda>_. None) (example_heap 0)"
    using hex local_new_inv [of "\<lparr>catalog_file = None, layer_dir = None\<rparr>" "\<lambda>_ :: nat. []" "\<lambda>_. None"]
    by (simp add: sound_def example_heap_def)
      (simp add: content_def local_new_def local_lookup_def load_at_def catalog_default_def catalog_get_def)
  show "sound example_hash (\<lambda>_ :: nat. []) (\<lambda>_. None) (example_heap 1)"
    using hex example_inv
    by (auto simp: sound_def example_heap_def content_def example_dir local_lookup_def example_load catalog_get_def
        example_manifests example_hash_def hex_text_def split: if_splits)
qed

lemma example_lookups:
  "local_lookup (\<lambda>_. None) (example_heap 0) example_id = None"
  "local_lookup (\<lambda>_. None) (example_heap 1) example_id = Some example_art"
  by (simp_all add: example_heap_def example_lookup)
    (simp add: local_new_def local_lookup_def load_at_def catalog_default_def catalog_get_def)

section \<open>Properties\<close>

text \<open>C5: an artifact that only the build cache has is found with synchronisation: the call
  returns it, and afterwards the local cache is sound, holds the artifact with the very
  bytes of every blob, still holds everything it had, and no other cache changed.\<close>

theorem find_build_syncs:
  assumes "sound hash vshow vparse (h (st_local st))"
    and "st_build st = Some b" and "b \<noteq> st_local st" and "sound hash vshow vparse (h b)"
    and "local_lookup vparse (h (st_local st)) i = None" and "local_lookup vparse (h b) i = Some a"
    and "length us = length (art_layers a)"
  shows "\<exists>h'. find_build (\<lambda>_. local_ops hash vshow vparse) st us i True h = (Ok (Some a), h')
    \<and> sound hash vshow vparse (h' (st_local st))
    \<and> local_lookup vparse (h' (st_local st)) = (local_lookup vparse (h (st_local st)))(i \<mapsto> a)
    \<and> (\<forall>k. k \<noteq> st_local st \<longrightarrow> h' k = h k)
    \<and> (\<forall>d \<in> set (art_digests a). content (h' (st_local st)) d = content (h b) d)"
  using assms by (rule local_store.find_build_ok)

theorem find_build_syncs_witness:
  "\<exists>h'. find_build (\<lambda>_. example_ops) example_store [''u''] example_id True example_heap = (Ok (Some example_art), h')
    \<and> local_lookup (\<lambda>_. None) (h' 0) example_id = Some example_art"
  using find_build_syncs [where h = example_heap and st = example_store and b = 1 and us = "[''u'']", unfolded example_store_simps,
      OF example_sound(1) refl _ example_sound(2) example_lookups]
  by (auto simp: example_artifact_def)

text \<open>C6: a source that the local cache lacks is fetched from the first source cache, in
  priority order, that has it: the call returns that cache's artifact and the local cache
  afterwards is sound and holds it with the bytes of every blob.\<close>

theorem fetch_source_priority:
  assumes "sound hash vshow vparse (h (st_local st))"
    and "\<forall>(n, b) \<in> set (st_source st). b \<noteq> st_local st \<and> sound hash vshow vparse (h b)"
    and "local_lookup vparse (h (st_local st)) i = None"
    and "filter (\<lambda>(n, b). local_lookup vparse (h b) i \<noteq> None) (st_source st) = (n, b) # rest"
    and "local_lookup vparse (h b) i = Some a" and "length us = length (art_layers a)"
  shows "\<exists>h'. fetch_source (\<lambda>_. local_ops hash vshow vparse) st us i h = (Ok (Some a), h')
    \<and> sound hash vshow vparse (h' (st_local st))
    \<and> local_lookup vparse (h' (st_local st)) = (local_lookup vparse (h (st_local st)))(i \<mapsto> a)
    \<and> (\<forall>k. k \<noteq> st_local st \<longrightarrow> h' k = h k)
    \<and> (\<forall>d \<in> set (art_digests a). content (h' (st_local st)) d = content (h b) d)"
  using assms by (rule local_store.fetch_source_ok)

theorem fetch_source_priority_witness:
  "\<exists>h'. fetch_source (\<lambda>_. example_ops) example_store [''u''] example_id example_heap = (Ok (Some example_art), h')
    \<and> local_lookup (\<lambda>_. None) (h' 0) example_id = Some example_art"
  using fetch_source_priority [where h = example_heap and st = example_store and b = 1 and us = "[''u'']" and n = "''origin''"
      and rest = "[]", unfolded example_store_simps, OF example_sound(1) _ example_lookups(1) _ example_lookups(2)]
    example_sound(2) example_lookups(2)
  by (auto simp: example_artifact_def)

text \<open>uploading a locally stored artifact to the build cache makes the build cache hold it
  with the bytes of every blob, keeps what was there, and changes no other cache.\<close>

lemma upload_build_stores:
  assumes "sound hash vshow vparse (h (st_local st))"
    and "st_build st = Some b" and "b \<noteq> st_local st" and "sound hash vshow vparse (h b)"
    and "local_lookup vparse (h (st_local st)) i = Some a" and "length us = length (art_layers a)"
  shows "\<exists>h'. upload_build (\<lambda>_. local_ops hash vshow vparse) st us i h = (Ok (), h')
    \<and> sound hash vshow vparse (h' b)
    \<and> local_lookup vparse (h' b) = (local_lookup vparse (h b))(i \<mapsto> a)
    \<and> (\<forall>k. k \<noteq> b \<longrightarrow> h' k = h k)
    \<and> (\<forall>d \<in> set (art_digests a). content (h' b) d = content (h (st_local st)) d)"
  using assms by (rule local_store.upload_build_ok)

lemma upload_build_stores_witness:
  "\<exists>h'. upload_build (\<lambda>_. example_ops) (set_build_cache 0 (storage_init 1)) [''u''] example_id example_heap = (Ok (), h')
    \<and> local_lookup (\<lambda>_. None) (h' 0) example_id = Some example_art"
proof -
  have st: "st_local (set_build_cache 0 (storage_init 1)) = 1" "st_build (set_build_cache 0 (storage_init 1)) = Some 0"
    by (simp_all add: set_build_cache_def storage_init_def)
  show ?thesis
    using upload_build_stores [where h = example_heap and st = "set_build_cache 0 (storage_init 1)" and b = 0
        and us = "[''u'']", unfolded st, OF example_sound(2) refl _ example_sound(1) example_lookups(2)]
    by (auto simp: example_artifact_def)
qed

end
