(* ===== verification/Effects.thy ===== *)
theory Effects
  imports Prelude
begin

text \<open>
  Vocabulary for the project loader: fallible actions on a state, with \<open>?\<close> as
  \<open>bindS\<close>, and \<open>BTreeMap\<close> as an association list sorted by key, so that iteration is the
  list itself and equal maps are equal lists.
\<close>

named_theorems act_simps \<open>equations that run actions\<close>

section \<open>Actions\<close>

type_synonym ('s, 'e, 'a) action = "'s \<Rightarrow> ('e, 'a) res \<times> 's"

definition returnS :: "'a \<Rightarrow> ('s, 'e, 'a) action" where
  "returnS x s = (Ok x, s)"

definition bindS :: "('s, 'e, 'a) action \<Rightarrow> ('a \<Rightarrow> ('s, 'e, 'b) action) \<Rightarrow> ('s, 'e, 'b) action" where
  "bindS m f s = (case m s of (Inl e, s') \<Rightarrow> (Inl e, s') | (Inr x, s') \<Rightarrow> f x s')"

text \<open>A result of a pure call, a read of the state, an update of it.\<close>

definition liftS :: "('e, 'a) res \<Rightarrow> ('s, 'e, 'a) action" where
  "liftS r s = (r, s)"

definition getS :: "('s \<Rightarrow> 'a) \<Rightarrow> ('s, 'e, 'a) action" where
  "getS f s = (Ok (f s), s)"

definition modifyS :: "('s \<Rightarrow> 's) \<Rightarrow> ('s, 'e, unit) action" where
  "modifyS f s = (Ok (), f s)"

lemma action_simps [simp, act_simps]:
  "returnS x s = (Ok x, s)"
  "liftS r s = (r, s)"
  "getS f s = (Ok (f s), s)"
  "modifyS g s = (Ok (), g s)"
  by (simp_all add: returnS_def liftS_def getS_def modifyS_def)

lemma bindS_run [act_simps]:
  "m s = (Ok x, s') \<Longrightarrow> bindS m f s = f x s'"
  "m s = (Inl e, s') \<Longrightarrow> bindS m f s = (Inl e, s')"
  by (simp_all add: bindS_def)

lemma bindS_return [simp]:
  "bindS (returnS x) f s = f x s"
  "bindS (getS g) f s = f (g s) s"
  "bindS (modifyS k) f' s = f' () (k s)"
  "bindS (liftS (Inr x)) f s = f x s"
  "bindS (liftS (Inl e)) f s = (Inl e, s)"
  "bindS (Pair (Inr x)) f s = f x s"
  "bindS (Pair (Inl e)) f s = (Inl e, s)"
  by (simp_all add: bindS_def)

lemma bindS_Ok: "bindS m f s = (Inr y, s2) \<longleftrightarrow> (\<exists>x s1. m s = (Inr x, s1) \<and> f x s1 = (Inr y, s2))"
  by (auto simp: bindS_def split: prod.splits sum.splits)

lemma bindS_OkE:
  assumes "bindS m f s = (Inr y, s2)"
  obtains x s1 where "m s = (Inr x, s1)" and "f x s1 = (Inr y, s2)"
  using assms unfolding bindS_Ok by blast

lemma bindS_cong [fundef_cong]:
  assumes "m = m'" and "\<And>x. f x = g x"
  shows "bindS m f = bindS m' g"
  using assms by (metis ext)

text \<open>A loop that pushes the result of its body.\<close>

fun mapS :: "('a \<Rightarrow> ('s, 'e, 'b) action) \<Rightarrow> 'a list \<Rightarrow> ('s, 'e, 'b list) action" where
  "mapS f [] = returnS []"
| "mapS f (x # xs) = bindS (f x) (\<lambda>y. bindS (mapS f xs) (\<lambda>ys. returnS (y # ys)))"

text \<open>A loop over a mutable local value.\<close>

fun foldS :: "('a \<Rightarrow> 'b \<Rightarrow> ('s, 'e, 'b) action) \<Rightarrow> 'a list \<Rightarrow> 'b \<Rightarrow> ('s, 'e, 'b) action" where
  "foldS f [] b = returnS b"
| "foldS f (x # xs) b = bindS (f x b) (foldS f xs)"

text \<open>What a loop keeps.\<close>

lemma foldS_keeps:
  assumes "foldS f xs b s = (Inr b', s')" and "P s"
    and "\<And>x c t d t'. x \<in> set xs \<Longrightarrow> P t \<Longrightarrow> f x c t = (Inr d, t') \<Longrightarrow> P t'"
  shows "P s'"
  using assms
proof (induction xs arbitrary: b s)
  case (Cons x xs)
  from Cons.prems(1) obtain c t where ct: "f x b s = (Inr c, t)" "foldS f xs c t = (Inr b', s')"
    by (auto elim: bindS_OkE)
  from Cons.prems(3) [OF _ Cons.prems(2) ct(1)] have "P t" by simp
  then show ?case using Cons.IH [OF ct(2)] Cons.prems(3) by (meson list.set_intros(2))
qed simp

lemma foldS_value:
  assumes "foldS f xs b s = (Inr b', s')" and "P b"
    and "\<And>x c t d t'. x \<in> set xs \<Longrightarrow> P c \<Longrightarrow> f x c t = (Inr d, t') \<Longrightarrow> P d"
  shows "P b'"
  using assms
proof (induction xs arbitrary: b s)
  case (Cons x xs)
  from Cons.prems(1) obtain c t where ct: "f x b s = (Inr c, t)" "foldS f xs c t = (Inr b', s')"
    by (auto elim: bindS_OkE)
  from Cons.prems(3) [OF _ Cons.prems(2) ct(1)] have "P c" by simp
  then show ?case using Cons.IH [OF ct(2)] Cons.prems(3) by (meson list.set_intros(2))
qed simp

lemma foreachS_keeps:
  assumes "foreachS f xs s = (r, s')" and "P s" and "\<And>x t r t'. x \<in> set xs \<Longrightarrow> P t \<Longrightarrow> f x t = (r, t') \<Longrightarrow> P t'"
  shows "P s'"
  using assms
proof (induction xs arbitrary: s)
  case (Cons x xs)
  obtain r1 t where t: "f x s = (r1, t)" by (cases "f x s")
  have "P t" using Cons.prems(3) [OF _ Cons.prems(2) t] by simp
  show ?case
  proof (cases r1)
    case (Inl e)
    then show ?thesis using Cons.prems(1) t \<open>P t\<close> by simp
  next
    case (Inr u)
    then have "foreachS f xs t = (r, s')" using Cons.prems(1) t by simp
    from Cons.IH [OF this \<open>P t\<close>] Cons.prems(3) show ?thesis by (meson list.set_intros(2))
  qed
qed simp

section \<open>Sorted maps\<close>

fun bt_insert :: "'k::linorder \<Rightarrow> 'v \<Rightarrow> ('k \<times> 'v) list \<Rightarrow> ('k \<times> 'v) list" where
  "bt_insert k v [] = [(k, v)]"
| "bt_insert k v ((k', v') # m) =
     (if k < k' then (k, v) # (k', v') # m
      else if k = k' then (k, v) # m
      else (k', v') # bt_insert k v m)"

definition bt_remove :: "'k \<Rightarrow> ('k \<times> 'v) list \<Rightarrow> ('k \<times> 'v) list" where
  "bt_remove k m = filter (\<lambda>e. fst e \<noteq> k) m"

definition bt_extend :: "('k::linorder \<times> 'v) list \<Rightarrow> ('k \<times> 'v) list \<Rightarrow> ('k \<times> 'v) list" where
  "bt_extend es m = fold (\<lambda>(k, v). bt_insert k v) es m"

definition bt_ok :: "('k::linorder \<times> 'v) list \<Rightarrow> bool" where
  "bt_ok m \<longleftrightarrow> sorted (map fst m) \<and> distinct (map fst m)"

lemma map_of_bt_insert [simp]: "map_of (bt_insert k v m) = (map_of m)(k \<mapsto> v)"
  by (induction m) (auto simp: fun_eq_iff)

lemma map_of_bt_remove [simp]: "map_of (bt_remove k m) = (map_of m)(k := None)"
  unfolding bt_remove_def by (induction m) (auto simp: fun_eq_iff)

lemma fst_bt_insert: "fst ` set (bt_insert k v m) = insert k (fst ` set m)"
  by (induction k v m rule: bt_insert.induct) (simp_all add: insert_commute)

lemma bt_insert_ok: "bt_ok m \<Longrightarrow> bt_ok (bt_insert k v m)"
proof (induction m)
  case (Cons e m)
  obtain k' v' where e: "e = (k', v')" by (cases e)
  from Cons show ?case
    unfolding e bt_ok_def using fst_bt_insert [of k v m] by (auto simp: image_iff)
qed (simp add: bt_ok_def)

lemma bt_remove_ok: "bt_ok m \<Longrightarrow> bt_ok (bt_remove k m)"
  unfolding bt_ok_def bt_remove_def
  by (induction m) (auto simp: image_iff)

lemma bt_nil_ok [simp]: "bt_ok []"
  by (simp add: bt_ok_def)

lemma bt_extend_ok: "bt_ok m \<Longrightarrow> bt_ok (bt_extend es m)"
  unfolding bt_extend_def by (induction es arbitrary: m) (auto simp: bt_insert_ok)

lemma map_of_bt_extend: "map_of (bt_extend es m) = map_of m ++ map_of (rev es)"
  unfolding bt_extend_def
  by (induction es arbitrary: m) (auto simp: fun_eq_iff map_add_def split: option.splits)

text \<open>Sorted maps with the same lookups are the same.\<close>

lemma alist_by_keys: "distinct (map fst m) \<Longrightarrow> m = map (\<lambda>k. (k, the (map_of m k))) (map fst m)"
  unfolding map_map comp_def by (rule map_idI [symmetric]) auto

lemma bt_ext:
  assumes "bt_ok m" and "bt_ok n" and "map_of m = map_of n"
  shows "m = n"
proof -
  have "set (map fst m) = set (map fst n)"
    using assms(3) by (metis dom_map_of_conv_image_fst image_set)
  then have "map fst m = map fst n"
    using assms(1,2) sorted_distinct_set_unique unfolding bt_ok_def by blast
  then show ?thesis
    using assms alist_by_keys [of m] alist_by_keys [of n] unfolding bt_ok_def by simp
qed

end
