(* ===== verification/Config_Node.thy ===== *)
theory Config_Node
  imports Address Effects
begin

text \<open>
  Configuration nodes (\<open>crates/edo/src/context/node.rs\<close>) and the error types of the loader
  (\<open>crates/edo/src/context/error.rs\<close>, \<open>crates/edo/src/source/error.rs\<close>).

  A \<open>Node\<close> is a shared mutable cell (\<open>Arc<RwLock<Data>>\<close>) and dependency resolution writes
  through the sharing, so nodes are references into an explicit heap and the children of a
  list or table are references too. \<open>denotes\<close> relates a reference to the finite tree that a
  reader of the heap sees.

  The crates \<open>semver\<close> and \<open>serde_json\<close> are parameters, collected in the record \<open>crates\<close>;
  \<open>f64\<close> values are only stored, so their type is a parameter.
\<close>

section \<open>Errors\<close>

text \<open>A source error may carry a context error and the other way round: the error of sources is over the error it may carry.
  \<open>RNeverReturns\<close> is not an error of the source: it stands for a call that blocks forever, and nothing in the model
  handles it.\<close>

datatype ('v, 'q, 'c) source_error = REnvironment string | RImplementation string | RStorage string | RField string string
  | RIo | RNoVendor string | ROci | RNoRequire | RContext 'c | RRequirement string 'q
  | RResolution string | RVended string 'v | RUndefined | RVendorUndefined | RUnsupported string | RNeverReturns

datatype ('v, 'q) context_error = CField string string | CHome | CIo | CDependencyChange | CDeserialize | CLog
  | CMalformedLock addr | CNode | CNodeMissingKeys "string list" | CNodeNoKind | CNodeNoName | CNodeNoId
  | CNoBlockId | CNotEnvironment | CNoEnvironmentFound addr | CNoPlugin addr | CNoProvider string string
  | CNotTransform | CNotValidSource string | CNotVendor | CComponent string | CEnvironment string
  | CScheduler string | CSerialize | CStorage string | CTransform string | CSource "('v, 'q, ('v, 'q) context_error) source_error"

type_synonym ('v, 'q) src_error = "('v, 'q, ('v, 'q) context_error) source_error"

section \<open>Data\<close>

datatype component = StorageBackend | Environment | Source | Transform | Vendor

fun component_to_string :: "component \<Rightarrow> string" where
  "component_to_string StorageBackend = ''storage-backend''"
| "component_to_string Environment = ''environment''"
| "component_to_string Source = ''source''"
| "component_to_string Transform = ''transform''"
| "component_to_string Vendor = ''vendor''"

datatype ('v, 'q, 'f) data = DBool bool | DInt int | DFloat 'f | DString string | DRequire 'q | DVersion 'v
  | DList "nat list" | DDefinition string string string "(string \<times> nat) list" | DTable "(string \<times> nat) list"

text \<open>The accessors that the macros \<open>as_fn\<close> and \<open>get_field\<close> generate.\<close>

definition as_bool :: "('v, 'q, 'f) data \<Rightarrow> bool option" where
  "as_bool d = (case d of DBool x \<Rightarrow> Some x | _ \<Rightarrow> None)"

definition as_int :: "('v, 'q, 'f) data \<Rightarrow> int option" where
  "as_int d = (case d of DInt x \<Rightarrow> Some x | _ \<Rightarrow> None)"

definition as_float :: "('v, 'q, 'f) data \<Rightarrow> 'f option" where
  "as_float d = (case d of DFloat x \<Rightarrow> Some x | _ \<Rightarrow> None)"

definition as_string :: "('v, 'q, 'f) data \<Rightarrow> string option" where
  "as_string d = (case d of DString x \<Rightarrow> Some x | _ \<Rightarrow> None)"

definition as_version :: "('v, 'q, 'f) data \<Rightarrow> 'v option" where
  "as_version d = (case d of DVersion x \<Rightarrow> Some x | _ \<Rightarrow> None)"

definition as_require :: "('v, 'q, 'f) data \<Rightarrow> 'q option" where
  "as_require d = (case d of DRequire x \<Rightarrow> Some x | _ \<Rightarrow> None)"

definition as_list :: "('v, 'q, 'f) data \<Rightarrow> nat list option" where
  "as_list d = (case d of DList x \<Rightarrow> Some x | _ \<Rightarrow> None)"

definition as_table :: "('v, 'q, 'f) data \<Rightarrow> (string \<times> nat) list option" where
  "as_table d = (case d of DTable x \<Rightarrow> Some x | _ \<Rightarrow> None)"

definition get_id :: "('v, 'q, 'f) data \<Rightarrow> string option" where
  "get_id d = (case d of DDefinition i k n t \<Rightarrow> Some i | _ \<Rightarrow> None)"

definition get_kind :: "('v, 'q, 'f) data \<Rightarrow> string option" where
  "get_kind d = (case d of DDefinition i k n t \<Rightarrow> Some k | _ \<Rightarrow> None)"

definition get_name :: "('v, 'q, 'f) data \<Rightarrow> string option" where
  "get_name d = (case d of DDefinition i k n t \<Rightarrow> Some n | _ \<Rightarrow> None)"

definition get_table :: "('v, 'q, 'f) data \<Rightarrow> (string \<times> nat) list option" where
  "get_table d = (case d of DDefinition i k n t \<Rightarrow> Some t | _ \<Rightarrow> None)"

definition data_set_table :: "(string \<times> nat) list \<Rightarrow> ('v, 'q, 'f) data \<Rightarrow> ('v, 'q, 'f) data" where
  "data_set_table t d = (case d of DDefinition i k n _ \<Rightarrow> DDefinition i k n t | _ \<Rightarrow> d)"

definition data_set_id :: "string \<Rightarrow> ('v, 'q, 'f) data \<Rightarrow> ('v, 'q, 'f) data" where
  "data_set_id x d = (case d of DDefinition _ k n t \<Rightarrow> DDefinition x k n t | _ \<Rightarrow> d)"

definition data_set_kind :: "string \<Rightarrow> ('v, 'q, 'f) data \<Rightarrow> ('v, 'q, 'f) data" where
  "data_set_kind x d = (case d of DDefinition i _ n t \<Rightarrow> DDefinition i x n t | _ \<Rightarrow> d)"

definition data_set_name :: "string \<Rightarrow> ('v, 'q, 'f) data \<Rightarrow> ('v, 'q, 'f) data" where
  "data_set_name x d = (case d of DDefinition i k _ t \<Rightarrow> DDefinition i k x t | _ \<Rightarrow> d)"

definition data_append :: "nat \<Rightarrow> ('v, 'q, 'f) data \<Rightarrow> ('v, 'q, 'f) data" where
  "data_append r d = (case d of DList rs \<Rightarrow> DList (rs @ [r]) | _ \<Rightarrow> d)"

text \<open>The table of a table or of a definition: \<open>as_table().or(get_table())\<close>.\<close>

definition node_fields :: "('v, 'q, 'f) data \<Rightarrow> (string \<times> nat) list option" where
  "node_fields d = (case as_table d of Some t \<Rightarrow> Some t | None \<Rightarrow> get_table d)"

lemmas accessor_defs = as_bool_def as_int_def as_float_def as_string_def as_version_def as_require_def
  as_list_def as_table_def get_id_def get_kind_def get_name_def get_table_def node_fields_def

section \<open>The heap of nodes\<close>

record ('v, 'q, 'f) nheap =
  cell :: "nat \<Rightarrow> ('v, 'q, 'f) data"
  next_ref :: nat

definition heap_empty :: "('v, 'q, 'f) nheap" where
  "heap_empty = \<lparr>cell = (\<lambda>_. DBool False), next_ref = 0\<rparr>"

definition new_node :: "('v, 'q, 'f) data \<Rightarrow> (('v, 'q, 'f) nheap, 'e, nat) action" where
  "new_node d h = (Ok (next_ref h), h\<lparr>cell := (cell h)(next_ref h := d), next_ref := Suc (next_ref h)\<rparr>)"

definition new_definition :: "string \<Rightarrow> string \<Rightarrow> string \<Rightarrow> (string \<times> nat) list
    \<Rightarrow> (('v, 'q, 'f) nheap, 'e, nat) action" where
  "new_definition i k n t = new_node (DDefinition i k n t)"

definition set_data :: "nat \<Rightarrow> ('v, 'q, 'f) data \<Rightarrow> ('v, 'q, 'f) nheap \<Rightarrow> ('v, 'q, 'f) nheap" where
  "set_data r d h = h\<lparr>cell := (cell h)(r := d)\<rparr>"

definition node_set_table :: "nat \<Rightarrow> (string \<times> nat) list \<Rightarrow> ('v, 'q, 'f) nheap \<Rightarrow> ('v, 'q, 'f) nheap" where
  "node_set_table r t h = set_data r (data_set_table t (cell h r)) h"

definition node_append :: "nat \<Rightarrow> nat \<Rightarrow> ('v, 'q, 'f) nheap \<Rightarrow> ('v, 'q, 'f) nheap" where
  "node_append r item h = set_data r (data_append item (cell h r)) h"

definition validate_keys :: "string list \<Rightarrow> ('v, 'q, 'f) data \<Rightarrow> (('v, 'q) context_error, unit) res" where
  "validate_keys keys d =
     (case node_fields d of
        None \<Rightarrow> Ok ()
      | Some t \<Rightarrow>
          (let missing = filter (\<lambda>k. map_of t k = None) keys
           in if missing = [] then Ok () else Fail (CNodeMissingKeys missing)))"

definition node_lookup :: "nat \<Rightarrow> string \<Rightarrow> ('v, 'q, 'f) nheap \<Rightarrow> nat option" where
  "node_lookup r key h = (case node_fields (cell h r) of None \<Rightarrow> None | Some t \<Rightarrow> map_of t key)"

section \<open>From TOML and JSON\<close>

record ('v, 'q, 'f) crates =
  version_parse :: "string \<Rightarrow> 'v option"
  version_show :: "'v \<Rightarrow> string"
  req_parse :: "string \<Rightarrow> 'q option"
  req_show :: "'q \<Rightarrow> string"
  req_matches :: "'q \<Rightarrow> 'v \<Rightarrow> bool"
  float_finite :: "'f \<Rightarrow> bool"
  float_of_int :: "int \<Rightarrow> 'f"

datatype 'f toml = TString string | TInteger int | TFloat 'f | TBoolean bool | TDatetime string
  | TArray "'f toml list" | TTable "(string \<times> 'f toml) list"

datatype 'f json = JNull | JBool bool | JInt int | JFloat 'f | JString string
  | JArray "'f json list" | JObject "(string \<times> 'f json) list"

text \<open>A string that looks like a requirement or a \<open>v\<close>-version and parses as one becomes one.\<close>

definition string_data :: "('v, 'q, 'f) crates \<Rightarrow> string \<Rightarrow> ('v, 'q, 'f) data" where
  "string_data L s =
     (case (if s \<noteq> [] \<and> hd s \<in> set ''^>=<~'' then req_parse L s else None) of
        Some q \<Rightarrow> DRequire q
      | None \<Rightarrow>
          (case (if s \<noteq> [] \<and> hd s = CHR ''v'' then version_parse L (tl s) else None) of
             Some v \<Rightarrow> DVersion v
           | None \<Rightarrow> DString s))"

fun toml_node :: "('v, 'q, 'f) crates \<Rightarrow> 'f toml \<Rightarrow> (('v, 'q, 'f) nheap, ('v, 'q) context_error, nat) action"
  and toml_items :: "('v, 'q, 'f) crates \<Rightarrow> 'f toml list \<Rightarrow> (('v, 'q, 'f) nheap, ('v, 'q) context_error, nat list) action"
  and toml_entries :: "('v, 'q, 'f) crates \<Rightarrow> (string \<times> 'f toml) list \<Rightarrow> (string \<times> nat) list
      \<Rightarrow> (('v, 'q, 'f) nheap, ('v, 'q) context_error, (string \<times> nat) list) action" where
  "toml_node L (TBoolean b) = new_node (DBool b)"
| "toml_node L (TString s) = new_node (string_data L s)"
| "toml_node L (TFloat x) = new_node (DFloat x)"
| "toml_node L (TInteger n) = new_node (DInt n)"
| "toml_node L (TArray ts) = bindS (toml_items L ts) (\<lambda>rs. new_node (DList rs))"
| "toml_node L (TTable es) = bindS (toml_entries L es []) (\<lambda>t. new_node (DTable t))"
| "toml_node L (TDatetime _) = liftS (Fail CNode)"
| "toml_items L [] = returnS []"
| "toml_items L (t # ts) = bindS (toml_node L t) (\<lambda>r. bindS (toml_items L ts) (\<lambda>rs. returnS (r # rs)))"
| "toml_entries L [] acc = returnS acc"
| "toml_entries L ((k, t) # es) acc = bindS (toml_node L t) (\<lambda>r. toml_entries L es (bt_insert k r acc))"

text \<open>The conversion of a JSON value: an integer outside \<open>i64\<close> makes \<open>as_i64().unwrap()\<close> panic.\<close>

definition i64_range :: "int \<Rightarrow> bool" where
  "i64_range n \<longleftrightarrow> - (2 ^ 63) \<le> n \<and> n < 2 ^ 63"

fun json_node :: "'f json \<Rightarrow> (('v, 'q, 'f) nheap, ('v, 'q) context_error, nat) action"
  and json_items :: "'f json list \<Rightarrow> (('v, 'q, 'f) nheap, ('v, 'q) context_error, nat list) action"
  and json_entries :: "(string \<times> 'f json) list \<Rightarrow> (string \<times> nat) list
      \<Rightarrow> (('v, 'q, 'f) nheap, ('v, 'q) context_error, (string \<times> nat) list) action" where
  "json_node (JBool b) = new_node (DBool b)"
| "json_node (JString s) = new_node (DString s)"
| "json_node (JFloat x) = new_node (DFloat x)"
| "json_node (JInt n) = (if i64_range n then new_node (DInt n) else liftS (Inl Panic))"
| "json_node (JArray js) = bindS (json_items js) (\<lambda>rs. new_node (DList rs))"
| "json_node (JObject es) = bindS (json_entries es []) (\<lambda>t. new_node (DTable t))"
| "json_node JNull = liftS (Fail CNode)"
| "json_items [] = returnS []"
| "json_items (j # js) = bindS (json_node j) (\<lambda>r. bindS (json_items js) (\<lambda>rs. returnS (r # rs)))"
| "json_entries [] acc = returnS acc"
| "json_entries ((k, j) # es) acc = bindS (json_node j) (\<lambda>r. json_entries es (bt_insert k r acc))"

section \<open>Serialised nodes\<close>

text \<open>\<open>Serialize for Node\<close>, \<open>Data\<close> being untagged and the table of a definition flattened;
  \<open>n\<close> bounds the depth. A float that is not finite becomes null.\<close>

fun node_json :: "nat \<Rightarrow> ('v, 'q, 'f) crates \<Rightarrow> ('v, 'q, 'f) nheap \<Rightarrow> nat \<Rightarrow> 'f json option" where
  "node_json 0 L h r = None"
| "node_json (Suc n) L h r =
     (case cell h r of
        DBool b \<Rightarrow> Some (JBool b)
      | DInt i \<Rightarrow> Some (JInt i)
      | DFloat x \<Rightarrow> Some (if float_finite L x then JFloat x else JNull)
      | DString s \<Rightarrow> Some (JString s)
      | DRequire q \<Rightarrow> Some (JString (req_show L q))
      | DVersion v \<Rightarrow> Some (JString (version_show L v))
      | DList rs \<Rightarrow> map_option JArray (those (map (node_json n L h) rs))
      | DDefinition i k nm t \<Rightarrow>
          map_option (\<lambda>js. JObject ((''id'', JString i) # (''kind'', JString k) # (''name'', JString nm) # zip (map fst t) js))
            (those (map (node_json n L h) (map snd t)))
      | DTable t \<Rightarrow> map_option (\<lambda>js. JObject (zip (map fst t) js)) (those (map (node_json n L h) (map snd t))))"

text \<open>\<open>Deserialize for Node\<close>: the variants of \<open>Data\<close> are tried in order, so a string is always
  \<open>String\<close>, an integer outside \<open>i64\<close> is \<open>Float\<close>, and an object is a definition when it has
  exactly one \<open>id\<close>, \<open>kind\<close> and \<open>name\<close>, all strings, and a table otherwise.\<close>

definition single :: "string \<Rightarrow> (string \<times> 'j) list \<Rightarrow> 'j option" where
  "single key es = (case filter (\<lambda>e. fst e = key) es of [(_, j)] \<Rightarrow> Some j | _ \<Rightarrow> None)"

definition def_header :: "(string \<times> 'f json) list \<Rightarrow> (string \<times> string \<times> string) option" where
  "def_header es =
     (case (single ''id'' es, single ''kind'' es, single ''name'' es) of
        (Some (JString i), Some (JString k), Some (JString n)) \<Rightarrow> Some (i, k, n)
      | _ \<Rightarrow> None)"

definition def_key :: "string \<Rightarrow> bool" where
  "def_key k \<longleftrightarrow> k \<in> {''id'', ''kind'', ''name''}"

fun json_de :: "('v, 'q, 'f) crates \<Rightarrow> 'f json \<Rightarrow> (('v, 'q, 'f) nheap, ('v, 'q) context_error, nat) action"
  and json_de_items :: "('v, 'q, 'f) crates \<Rightarrow> 'f json list \<Rightarrow> (('v, 'q, 'f) nheap, ('v, 'q) context_error, nat list) action"
  and json_de_entries :: "('v, 'q, 'f) crates \<Rightarrow> (string \<Rightarrow> bool) \<Rightarrow> (string \<times> 'f json) list \<Rightarrow> (string \<times> nat) list
      \<Rightarrow> (('v, 'q, 'f) nheap, ('v, 'q) context_error, (string \<times> nat) list) action" where
  "json_de L JNull = liftS (Fail CSerialize)"
| "json_de L (JBool b) = new_node (DBool b)"
| "json_de L (JInt n) = new_node (if i64_range n then DInt n else DFloat (float_of_int L n))"
| "json_de L (JFloat x) = new_node (DFloat x)"
| "json_de L (JString s) = new_node (DString s)"
| "json_de L (JArray js) = bindS (json_de_items L js) (\<lambda>rs. new_node (DList rs))"
| "json_de L (JObject es) =
     (case def_header es of
        Some (i, k, n) \<Rightarrow> bindS (json_de_entries L def_key es []) (\<lambda>t. new_node (DDefinition i k n t))
      | None \<Rightarrow> bindS (json_de_entries L (\<lambda>_. False) es []) (\<lambda>t. new_node (DTable t)))"
| "json_de_items L [] = returnS []"
| "json_de_items L (j # js) = bindS (json_de L j) (\<lambda>r. bindS (json_de_items L js) (\<lambda>rs. returnS (r # rs)))"
| "json_de_entries L skip [] acc = returnS acc"
| "json_de_entries L skip ((k, j) # es) acc =
     (if skip k then json_de_entries L skip es acc
      else bindS (json_de L j) (\<lambda>r. json_de_entries L skip es (bt_insert k r acc)))"

section \<open>What a reader of the heap sees\<close>

text \<open>All cells of the tree are at least \<open>lo\<close>; with \<open>lo = 0\<close> this is no restriction.\<close>

datatype ('v, 'q, 'f) tree = Leaf "('v, 'q, 'f) data" | Items "('v, 'q, 'f) tree list"
  | Def string string string "(string \<times> ('v, 'q, 'f) tree) list" | Fields "(string \<times> ('v, 'q, 'f) tree) list"

definition scalar :: "('v, 'q, 'f) data \<Rightarrow> bool" where
  "scalar d \<longleftrightarrow> as_list d = None \<and> node_fields d = None"

fun denotes :: "nat \<Rightarrow> ('v, 'q, 'f) nheap \<Rightarrow> nat \<Rightarrow> ('v, 'q, 'f) tree \<Rightarrow> bool"
and denotes_items :: "nat \<Rightarrow> ('v, 'q, 'f) nheap \<Rightarrow> nat list \<Rightarrow> ('v, 'q, 'f) tree list \<Rightarrow> bool"
and denotes_fields :: "nat \<Rightarrow> ('v, 'q, 'f) nheap \<Rightarrow> (string \<times> nat) list \<Rightarrow> (string \<times> ('v, 'q, 'f) tree) list \<Rightarrow> bool" where
  "denotes lo h r (Leaf d) \<longleftrightarrow> lo \<le> r \<and> r < next_ref h \<and> cell h r = d \<and> scalar d"
| "denotes lo h r (Items ts) \<longleftrightarrow> lo \<le> r \<and> r < next_ref h \<and> (case cell h r of DList rs \<Rightarrow> denotes_items lo h rs ts | _ \<Rightarrow> False)"
| "denotes lo h r (Def i k n es) \<longleftrightarrow> lo \<le> r \<and> r < next_ref h \<and>
     (case cell h r of DDefinition i' k' n' t \<Rightarrow> i' = i \<and> k' = k \<and> n' = n \<and> denotes_fields lo h t es | _ \<Rightarrow> False)"
| "denotes lo h r (Fields es) \<longleftrightarrow> lo \<le> r \<and> r < next_ref h \<and> (case cell h r of DTable t \<Rightarrow> denotes_fields lo h t es | _ \<Rightarrow> False)"
| "denotes_items lo h rs [] \<longleftrightarrow> rs = []"
| "denotes_items lo h rs (t # ts) \<longleftrightarrow> (case rs of [] \<Rightarrow> False | r # rs' \<Rightarrow> denotes lo h r t \<and> denotes_items lo h rs' ts)"
| "denotes_fields lo h m [] \<longleftrightarrow> m = []"
| "denotes_fields lo h m ((k, t) # es) \<longleftrightarrow>
     (case m of [] \<Rightarrow> False | (k', r) # m' \<Rightarrow> k' = k \<and> denotes lo h r t \<and> denotes_fields lo h m' es)"

text \<open>A heap grows without changing what is there.\<close>

definition extends :: "('v, 'q, 'f) nheap \<Rightarrow> ('v, 'q, 'f) nheap \<Rightarrow> bool" where
  "extends h h' \<longleftrightarrow> next_ref h \<le> next_ref h' \<and> (\<forall>r < next_ref h. cell h' r = cell h r)"

lemma extends_refl [simp]: "extends h h"
  by (simp add: extends_def)

lemma extends_trans [trans]: "extends h h1 \<Longrightarrow> extends h1 h2 \<Longrightarrow> extends h h2"
  by (auto simp: extends_def)

text \<open>Only the cells at or above \<open>lo\<close> matter.\<close>

definition agree :: "nat \<Rightarrow> ('v, 'q, 'f) nheap \<Rightarrow> ('v, 'q, 'f) nheap \<Rightarrow> bool" where
  "agree lo h h' \<longleftrightarrow> next_ref h \<le> next_ref h' \<and> (\<forall>r. lo \<le> r \<and> r < next_ref h \<longrightarrow> cell h' r = cell h r)"

lemma denotes_agree:
  shows "denotes lo h r t \<Longrightarrow> agree lo h h' \<Longrightarrow> denotes lo h' r t"
    and "denotes_items lo h rs ts \<Longrightarrow> agree lo h h' \<Longrightarrow> denotes_items lo h' rs ts"
    and "denotes_fields lo h m es \<Longrightarrow> agree lo h h' \<Longrightarrow> denotes_fields lo h' m es"
  by (induction lo h r t and lo h rs ts and lo h m es rule: denotes_denotes_items_denotes_fields.induct)
    (auto simp: agree_def split: data.splits list.splits)

lemma extends_agree: "extends h h' \<Longrightarrow> agree lo h h'"
  by (auto simp: extends_def agree_def)

lemmas denotes_extends = denotes_agree [OF _ extends_agree]

lemma denotes_weaken:
  shows "denotes lo h r t \<Longrightarrow> lo' \<le> lo \<Longrightarrow> denotes lo' h r t"
    and "denotes_items lo h rs ts \<Longrightarrow> lo' \<le> lo \<Longrightarrow> denotes_items lo' h rs ts"
    and "denotes_fields lo h m es \<Longrightarrow> lo' \<le> lo \<Longrightarrow> denotes_fields lo' h m es"
  by (induction lo h r t and lo h rs ts and lo h m es rule: denotes_denotes_items_denotes_fields.induct)
    (auto split: data.splits list.splits)

text \<open>A cell that gets the data of another one denotes what that one does.\<close>

lemma denotes_copy:
  assumes "denotes lo h r t" and "agree lo h h'" and "cell h' r' = cell h r" and "r' < next_ref h'"
  shows "denotes 0 h' r' t"
proof (cases t)
  case (Items ts)
  then show ?thesis using assms denotes_weaken(2) [OF denotes_agree(2) [OF _ assms(2)], of _ ts 0] by (auto split: data.splits)
next
  case (Def i k n es)
  then show ?thesis using assms denotes_weaken(3) [OF denotes_agree(3) [OF _ assms(2)], of _ es 0] by (auto split: data.splits)
next
  case (Fields es)
  then show ?thesis using assms denotes_weaken(3) [OF denotes_agree(3) [OF _ assms(2)], of _ es 0] by (auto split: data.splits)
qed (use assms in auto)

lemma new_node_run:
  "new_node d h = (Ok (next_ref h), h\<lparr>cell := (cell h)(next_ref h := d), next_ref := Suc (next_ref h)\<rparr>)"
  "extends h (h\<lparr>cell := (cell h)(next_ref h := d), next_ref := Suc (next_ref h)\<rparr>)"
  by (auto simp: new_node_def extends_def)

lemma extends_le: "extends h h1 \<Longrightarrow> lo \<le> next_ref h \<Longrightarrow> lo \<le> next_ref h1"
  by (simp add: extends_def)

text \<open>An action that returns a node denoting a given tree, made of new cells only when \<open>lo\<close> is
  the end of the heap, and only adds to the heap.\<close>

definition builds :: "nat \<Rightarrow> (('v, 'q, 'f) nheap, 'e, nat) action \<Rightarrow> ('v, 'q, 'f) nheap \<Rightarrow> ('v, 'q, 'f) tree \<Rightarrow> bool" where
  "builds lo m h t \<longleftrightarrow> lo \<le> next_ref h \<longrightarrow> (\<exists>r h'. m h = (Ok r, h') \<and> extends h h' \<and> denotes lo h' r t)"

definition builds_items :: "nat \<Rightarrow> (('v, 'q, 'f) nheap, 'e, nat list) action \<Rightarrow> ('v, 'q, 'f) nheap \<Rightarrow> ('v, 'q, 'f) tree list \<Rightarrow> bool" where
  "builds_items lo m h ts \<longleftrightarrow> lo \<le> next_ref h \<longrightarrow> (\<exists>rs h'. m h = (Ok rs, h') \<and> extends h h' \<and> denotes_items lo h' rs ts)"

definition builds_fields :: "nat \<Rightarrow> (('v, 'q, 'f) nheap, 'e, (string \<times> nat) list) action \<Rightarrow> ('v, 'q, 'f) nheap
    \<Rightarrow> (string \<times> ('v, 'q, 'f) tree) list \<Rightarrow> bool" where
  "builds_fields lo m h es \<longleftrightarrow> lo \<le> next_ref h \<longrightarrow> (\<exists>t h'. m h = (Ok t, h') \<and> extends h h' \<and> denotes_fields lo h' t es)"

lemma builds_leaf [intro]: "scalar d \<Longrightarrow> builds lo (new_node d) h (Leaf d)"
  by (auto simp: builds_def new_node_run)

lemma builds_list:
  assumes "builds_items lo m h ts"
  shows "builds lo (bindS m (\<lambda>rs. new_node (DList rs))) h (Items ts)"
  unfolding builds_def
proof
  assume lo: "lo \<le> next_ref h"
  from assms lo obtain rs h1 where 1: "m h = (Ok rs, h1)" "extends h h1" "denotes_items lo h1 rs ts"
    by (auto simp: builds_items_def)
  from denotes_extends(2) [OF 1(3) new_node_run(2)] extends_trans [OF 1(2) new_node_run(2)] extends_le [OF 1(2) lo]
  show "\<exists>r h'. bindS m (\<lambda>rs. new_node (DList rs)) h = (Ok r, h') \<and> extends h h' \<and> denotes lo h' r (Items ts)"
    by (auto simp: bindS_def 1(1) new_node_run(1))
qed

lemma builds_table:
  assumes "builds_fields lo m h es"
  shows "builds lo (bindS m (\<lambda>t. new_node (DTable t))) h (Fields es)"
    and "builds lo (bindS m (\<lambda>t. new_node (DDefinition i k n t))) h (Def i k n es)"
proof -
  have "lo \<le> next_ref h \<longrightarrow> (\<exists>r h'. bindS m (\<lambda>t. new_node (DTable t)) h = (Ok r, h') \<and> extends h h' \<and> denotes lo h' r (Fields es))
    \<and> (\<exists>r h'. bindS m (\<lambda>t. new_node (DDefinition i k n t)) h = (Ok r, h') \<and> extends h h' \<and> denotes lo h' r (Def i k n es))"
  proof
    assume lo: "lo \<le> next_ref h"
    from assms lo obtain t h1 where 1: "m h = (Ok t, h1)" "extends h h1" "denotes_fields lo h1 t es"
      by (auto simp: builds_fields_def)
    from denotes_extends(3) [OF 1(3) new_node_run(2)] extends_trans [OF 1(2) new_node_run(2)] extends_le [OF 1(2) lo]
    show "(\<exists>r h'. bindS m (\<lambda>t. new_node (DTable t)) h = (Ok r, h') \<and> extends h h' \<and> denotes lo h' r (Fields es))
      \<and> (\<exists>r h'. bindS m (\<lambda>t. new_node (DDefinition i k n t)) h = (Ok r, h') \<and> extends h h' \<and> denotes lo h' r (Def i k n es))"
      by (auto simp: bindS_def 1(1) new_node_run(1))
  qed
  then show "builds lo (bindS m (\<lambda>t. new_node (DTable t))) h (Fields es)"
    and "builds lo (bindS m (\<lambda>t. new_node (DDefinition i k n t))) h (Def i k n es)"
    by (simp_all add: builds_def)
qed

lemma builds_items_nil: "builds_items lo (returnS []) h []"
  by (simp add: builds_items_def)

lemma builds_items_cons:
  assumes "builds lo m h t" and "\<And>h1. extends h h1 \<Longrightarrow> builds_items lo ms h1 ts"
  shows "builds_items lo (bindS m (\<lambda>r. bindS ms (\<lambda>rs. returnS (r # rs)))) h (t # ts)"
  unfolding builds_items_def
proof
  assume lo: "lo \<le> next_ref h"
  from assms(1) lo obtain r h1 where 1: "m h = (Ok r, h1)" "extends h h1" "denotes lo h1 r t"
    by (auto simp: builds_def)
  from assms(2) [OF 1(2)] extends_le [OF 1(2) lo] obtain rs h2 where
    2: "ms h1 = (Ok rs, h2)" "extends h1 h2" "denotes_items lo h2 rs ts" by (auto simp: builds_items_def)
  show "\<exists>rs h'. bindS m (\<lambda>r. bindS ms (\<lambda>rs. returnS (r # rs))) h = (Ok rs, h') \<and> extends h h' \<and> denotes_items lo h' rs (t # ts)"
    using extends_trans [OF 1(2) 2(2)] denotes_extends(1) [OF 1(3) 2(2)] 2(3)
    by (simp add: bindS_def 1(1) 2(1))
qed

lemma denotes_fields_keys: "denotes_fields lo h m n \<Longrightarrow> map fst m = map fst n"
  by (induction n arbitrary: m) (auto split: list.splits)

lemma denotes_insert:
  "denotes_fields lo h m n \<Longrightarrow> denotes lo h r t \<Longrightarrow> denotes_fields lo h (bt_insert k r m) (bt_insert k t n)"
proof (induction n arbitrary: m)
  case (Cons e n)
  obtain k' t' where e: "e = (k', t')" by (cases e)
  with Cons.prems(1) obtain r' m' where m: "m = (k', r') # m'" "denotes lo h r' t'" "denotes_fields lo h m' n"
    by (auto split: list.splits)
  from Cons.IH [OF m(3) Cons.prems(2)] m Cons.prems(2) show ?case by (simp add: e)
qed simp

lemma builds_fields_cons:
  assumes "builds lo m h t" and "denotes_fields lo h acc n"
    and "\<And>h1 r. extends h h1 \<Longrightarrow> denotes_fields lo h1 (bt_insert k r acc) (bt_insert k t n) \<Longrightarrow> builds_fields lo (ms r) h1 es"
  shows "builds_fields lo (bindS m ms) h es"
  unfolding builds_fields_def
proof
  assume lo: "lo \<le> next_ref h"
  from assms(1) lo obtain r h1 where 1: "m h = (Ok r, h1)" "extends h h1" "denotes lo h1 r t"
    by (auto simp: builds_def)
  have "denotes_fields lo h1 (bt_insert k r acc) (bt_insert k t n)"
    using denotes_insert [OF denotes_extends(3) [OF assms(2) 1(2)] 1(3)] .
  from assms(3) [OF 1(2) this] extends_trans [OF 1(2)] extends_le [OF 1(2) lo]
  show "\<exists>t h'. bindS m ms h = (Ok t, h') \<and> extends h h' \<and> denotes_fields lo h' t es"
    by (auto simp: builds_fields_def bindS_def 1(1))
qed

section \<open>TOML values\<close>

text \<open>The values a node can be made of (no date or time), and the tree they stand for.\<close>

fun toml_ok :: "'f toml \<Rightarrow> bool" where
  "toml_ok (TDatetime _) = False"
| "toml_ok (TArray ts) = list_all toml_ok ts"
| "toml_ok (TTable es) = list_all (\<lambda>e. toml_ok (snd e)) es"
| "toml_ok _ = True"

fun toml_tree :: "('v, 'q, 'f) crates \<Rightarrow> 'f toml \<Rightarrow> ('v, 'q, 'f) tree" where
  "toml_tree L (TBoolean b) = Leaf (DBool b)"
| "toml_tree L (TString s) = Leaf (string_data L s)"
| "toml_tree L (TFloat x) = Leaf (DFloat x)"
| "toml_tree L (TInteger n) = Leaf (DInt n)"
| "toml_tree L (TDatetime s) = Leaf (DString s)"
| "toml_tree L (TArray ts) = Items (map (toml_tree L) ts)"
| "toml_tree L (TTable es) = Fields (bt_extend (map (\<lambda>e. (fst e, toml_tree L (snd e))) es) [])"

lemma scalar_simps [simp]:
  "scalar (DBool b)" "scalar (DInt n)" "scalar (DFloat x)" "scalar (DString s)" "scalar (DRequire q)" "scalar (DVersion v)"
  "\<not> scalar (DList rs)" "\<not> scalar (DTable t)" "\<not> scalar (DDefinition i k nm t)"
  by (simp_all add: scalar_def accessor_defs)

lemma string_data_scalar [simp]: "scalar (string_data L s)"
  by (simp add: string_data_def split: option.splits)

lemma toml_builds:
  fixes L :: "('v, 'q, 'f) crates"
  shows "toml_ok t \<Longrightarrow> builds lo (toml_node L t) h (toml_tree L t)"
    and "list_all toml_ok ts \<Longrightarrow> builds_items lo (toml_items L ts) h (map (toml_tree L) ts)"
    and "list_all (\<lambda>e. toml_ok (snd e)) es \<Longrightarrow> denotes_fields lo h acc n \<Longrightarrow>
      builds_fields lo (toml_entries L es acc) h (bt_extend (map (\<lambda>e. (fst e, toml_tree L (snd e))) es) n)"
proof (induction L t and L ts and L es acc arbitrary: h and h and h n rule: toml_node_toml_items_toml_entries.induct)
  case (9 L t ts)
  then show ?case by (auto intro!: builds_items_cons)
next
  case (11 L k t es acc)
  have "builds lo (toml_node L t) h (toml_tree L t)" using 11 by simp
  then show ?case using 11
    by (auto simp: bt_extend_def intro!: builds_fields_cons [where acc = acc and n = n and k = k])
qed (auto intro!: builds_list builds_table simp: builds_items_nil builds_fields_def bt_extend_def)

lemma bindS_fails:
  "\<exists>h'. m h = (Inl e, h') \<Longrightarrow> \<exists>h'. bindS m f h = (Inl e, h')"
  by (auto simp: bindS_def)

lemma toml_fails:
  fixes L :: "('v, 'q, 'f) crates"
  shows "\<not> toml_ok t \<Longrightarrow> \<exists>h'. toml_node L t h = (Fail CNode, h')"
    and "\<not> list_all toml_ok ts \<Longrightarrow> \<exists>h'. toml_items L ts h = (Fail CNode, h')"
    and "\<not> list_all (\<lambda>e. toml_ok (snd e)) es \<Longrightarrow> \<exists>h'. toml_entries L es acc h = (Fail CNode, h')"
proof (induction L t and L ts and L es acc arbitrary: h and h and h rule: toml_node_toml_items_toml_entries.induct)
  case (9 L t ts)
  show ?case
  proof (cases "toml_ok t")
    case True
    with toml_builds(1) [of t "next_ref h" L h] obtain r h1 where "toml_node L t h = (Ok r, h1)" by (auto simp: builds_def)
    moreover have "\<exists>h'. toml_items L ts h1 = (Fail CNode, h')" using 9 True by simp
    ultimately show ?thesis by (auto simp: bindS_def)
  qed (use 9 in \<open>auto intro: bindS_fails\<close>)
next
  case (11 L k t es acc)
  show ?case
  proof (cases "toml_ok t")
    case True
    with toml_builds(1) [of t "next_ref h" L h] obtain r h1 where "toml_node L t h = (Ok r, h1)" by (auto simp: builds_def)
    moreover have "\<exists>h'. toml_entries L es (bt_insert k r acc) h1 = (Fail CNode, h')" using 11 True by simp
    ultimately show ?thesis by (auto simp: bindS_def)
  qed (use 11 in \<open>auto intro: bindS_fails\<close>)
qed (auto intro: bindS_fails)

section \<open>Storing nodes as JSON\<close>

fun scalar_json :: "('v, 'q, 'f) crates \<Rightarrow> ('v, 'q, 'f) data \<Rightarrow> 'f json" where
  "scalar_json L (DBool b) = JBool b"
| "scalar_json L (DInt n) = JInt n"
| "scalar_json L (DFloat x) = (if float_finite L x then JFloat x else JNull)"
| "scalar_json L (DString s) = JString s"
| "scalar_json L (DRequire q) = JString (req_show L q)"
| "scalar_json L (DVersion v) = JString (version_show L v)"
| "scalar_json L _ = JNull"

fun tree_json :: "('v, 'q, 'f) crates \<Rightarrow> ('v, 'q, 'f) tree \<Rightarrow> 'f json" where
  "tree_json L (Leaf d) = scalar_json L d"
| "tree_json L (Items ts) = JArray (map (tree_json L) ts)"
| "tree_json L (Def i k n es) = JObject ((''id'', JString i) # (''kind'', JString k) # (''name'', JString n)
     # map (\<lambda>e. (fst e, tree_json L (snd e))) es)"
| "tree_json L (Fields es) = JObject (map (\<lambda>e. (fst e, tree_json L (snd e))) es)"

fun height :: "('v, 'q, 'f) tree \<Rightarrow> nat" where
  "height (Leaf d) = 1"
| "height (Items ts) = Suc (foldr max (map height ts) 0)"
| "height (Def i k n es) = Suc (foldr max (map (\<lambda>e. height (snd e)) es) 0)"
| "height (Fields es) = Suc (foldr max (map (\<lambda>e. height (snd e)) es) 0)"

text \<open>What is read back: requirements and versions have become strings.\<close>

fun settle :: "('v, 'q, 'f) crates \<Rightarrow> ('v, 'q, 'f) tree \<Rightarrow> ('v, 'q, 'f) tree" where
  "settle L (Leaf d) = Leaf (case d of DRequire q \<Rightarrow> DString (req_show L q) | DVersion v \<Rightarrow> DString (version_show L v) | _ \<Rightarrow> d)"
| "settle L (Items ts) = Items (map (settle L) ts)"
| "settle L (Def i k n es) = Def i k n (map (\<lambda>e. (fst e, settle L (snd e))) es)"
| "settle L (Fields es) = Fields (map (\<lambda>e. (fst e, settle L (snd e))) es)"

fun storable :: "('v, 'q, 'f) crates \<Rightarrow> ('v, 'q, 'f) tree \<Rightarrow> bool" where
  "storable L (Leaf d) \<longleftrightarrow> scalar d \<and> (case d of DInt n \<Rightarrow> i64_range n | DFloat x \<Rightarrow> float_finite L x | _ \<Rightarrow> True)"
| "storable L (Items ts) \<longleftrightarrow> list_all (storable L) ts"
| "storable L (Def i k n es) \<longleftrightarrow> bt_ok es \<and> list_all (\<lambda>e. \<not> def_key (fst e)) es \<and> list_all (\<lambda>e. storable L (snd e)) es"
| "storable L (Fields es) \<longleftrightarrow> bt_ok es \<and> \<not> {''id'', ''kind'', ''name''} \<subseteq> fst ` set es \<and> list_all (\<lambda>e. storable L (snd e)) es"

lemma those_map: "(\<And>x. x \<in> set xs \<Longrightarrow> f x = Some (g x)) \<Longrightarrow> those (map f xs) = Some (map g xs)"
  by (induction xs) auto

lemma zip_entries: "map fst m = map fst es \<Longrightarrow> zip (map fst m) (map (\<lambda>e. f (snd e)) es) = map (\<lambda>e. (fst e, f (snd e))) es"
  by (simp add: zip_map1 zip_map2 zip_same_conv_map)

lemma node_json_tree:
  fixes h :: "('v, 'q, 'f) nheap"
  shows "denotes lo h r t \<Longrightarrow> height t \<le> n \<Longrightarrow> node_json n L h r = Some (tree_json L t)"
    and "denotes_items lo h rs ts \<Longrightarrow> foldr max (map height ts) 0 \<le> n \<Longrightarrow>
      those (map (node_json n L h) rs) = Some (map (tree_json L) ts)"
    and "denotes_fields lo h m es \<Longrightarrow> foldr max (map (\<lambda>e. height (snd e)) es) 0 \<le> n \<Longrightarrow>
      those (map (node_json n L h) (map snd m)) = Some (map (\<lambda>e. tree_json L (snd e)) es) \<and> map fst m = map fst es"
proof (induction lo h r t and lo h rs ts and lo h m es arbitrary: n and n and n rule: denotes_denotes_items_denotes_fields.induct)
  case (1 lo h r d)
  then show ?case by (cases n; cases d) auto
next
  case (2 lo h r ts)
  then show ?case by (cases n) (auto split: data.splits)
next
  case (3 lo h r i k nm es)
  then show ?case by (cases n) (auto split: data.splits simp: zip_entries simp del: map_map)
next
  case (4 lo h r es)
  then show ?case by (cases n) (auto split: data.splits simp: zip_entries simp del: map_map)
qed (auto split: list.splits)

text \<open>More fuel does not change the text, so whatever fuel gave a text gave that of the tree.\<close>

lemma those_more:
  "(\<And>x y. x \<in> set xs \<Longrightarrow> f x = Some y \<Longrightarrow> g x = Some y) \<Longrightarrow> those (map f xs) = Some ys \<Longrightarrow> those (map g xs) = Some ys"
  by (induction xs arbitrary: ys) (auto split: option.splits)

lemma node_json_more: "node_json n L h r = Some j \<Longrightarrow> n \<le> m \<Longrightarrow> node_json m L h r = Some j"
proof (induction n arbitrary: r j m)
  case (Suc n)
  then obtain m' where m: "m = Suc m'" "n \<le> m'" by (cases m) auto
  have more: "those (map (node_json n L h) rs) = Some js \<Longrightarrow> those (map (node_json m' L h) rs) = Some js" for rs js
    using those_more [of rs "node_json n L h" "node_json m' L h" js] Suc.IH [OF _ m(2)] by blast
  show ?case
  proof (cases "cell h r")
    case (DList rs)
    then show ?thesis using Suc.prems(1) more [of rs] by (auto simp: m(1))
  next
    case (DDefinition i k nm t)
    then show ?thesis using Suc.prems(1) more [of "map snd t"] by (auto simp: m(1) simp del: map_map)
  next
    case (DTable t)
    then show ?thesis using Suc.prems(1) more [of "map snd t"] by (auto simp: m(1) simp del: map_map)
  qed (use Suc.prems(1) in \<open>simp_all add: m(1)\<close>)
qed simp

lemma node_json_of_tree: "denotes lo h r t \<Longrightarrow> node_json n L h r = Some j \<Longrightarrow> j = tree_json L t"
  using node_json_tree(1) [of lo h r t "max n (height t)" L] node_json_more [of n L h r j "max n (height t)"]
  by (metis max.cobounded1 max.cobounded2 option.sel)

lemma bt_extend_id: "bt_ok es \<Longrightarrow> bt_extend es [] = es"
  by (rule bt_ext) (auto simp: bt_extend_ok map_of_bt_extend, auto simp: bt_ok_def map_of_inject_set rev_map [symmetric])

lemma de_items_build:
  assumes "\<And>t h. t \<in> set ts \<Longrightarrow> builds lo (json_de L (f t)) h (g t)"
  shows "builds_items lo (json_de_items L (map f ts)) h (map g ts)"
  using assms
proof (induction ts arbitrary: h)
  case (Cons t ts)
  then show ?case by (auto intro!: builds_items_cons)
qed (simp add: builds_items_nil)

lemma de_entries_build:
  assumes "\<And>e h. e \<in> set es \<Longrightarrow> builds lo (json_de L (f (snd e))) h (g (snd e))"
    and "\<And>e. e \<in> set es \<Longrightarrow> \<not> skip (fst e)" and "denotes_fields lo h acc n"
  shows "builds_fields lo (json_de_entries L skip (map (\<lambda>e. (fst e, f (snd e))) es) acc) h
    (bt_extend (map (\<lambda>e. (fst e, g (snd e))) es) n)"
  using assms
proof (induction es arbitrary: h acc n)
  case Nil
  then show ?case by (auto simp: builds_fields_def bt_extend_def)
next
  case (Cons e es)
  have b: "builds lo (json_de L (f (snd e))) h (g (snd e))" and "\<not> skip (fst e)" using Cons.prems(1,2) by simp_all
  have "builds_fields lo (bindS (json_de L (f (snd e))) (\<lambda>r. json_de_entries L skip (map (\<lambda>e. (fst e, f (snd e))) es)
      (bt_insert (fst e) r acc))) h (bt_extend (map (\<lambda>e. (fst e, g (snd e))) es) (bt_insert (fst e) (g (snd e)) n))"
    by (rule builds_fields_cons [OF b Cons.prems(3)], rule Cons.IH) (use Cons.prems in simp_all)
  then show ?case using \<open>\<not> skip (fst e)\<close> by (simp add: bt_extend_def)
qed

lemma bt_ok_map: "bt_ok (map (\<lambda>e. (fst e, f (snd e))) es) = bt_ok es"
  by (simp add: bt_ok_def comp_def)

lemma def_header_of_def:
  assumes "list_all (\<lambda>e. \<not> def_key (fst e)) es"
  shows "def_header ((''id'', JString i) # (''kind'', JString k) # (''name'', JString n) # map (\<lambda>e. (fst e, f (snd e))) es)
    = Some (i, k, n)"
proof -
  have "filter (\<lambda>e. fst e = key) (map (\<lambda>e. (fst e, f (snd e))) es) = []" if "def_key key" for key
    using assms that by (auto simp: filter_empty_conv list_all_iff)
  then show ?thesis by (simp add: def_header_def single_def def_key_def)
qed

lemma def_header_table:
  assumes "\<not> {''id'', ''kind'', ''name''} \<subseteq> fst ` set es"
  shows "def_header (map (\<lambda>e. (fst e, f (snd e))) es) = None"
proof -
  have "single key (map (\<lambda>e. (fst e, f (snd e))) es) = None" if "key \<notin> fst ` set es" for key
  proof -
    have "filter (\<lambda>e. fst e = key) (map (\<lambda>e. (fst e, f (snd e))) es) = []"
      using that by (auto simp: filter_empty_conv)
    then show ?thesis by (simp add: single_def)
  qed
  with assms show ?thesis by (auto simp: def_header_def split: option.splits json.splits)
qed

lemma json_de_tree: "storable L t \<Longrightarrow> builds lo (json_de L (tree_json L t)) h (settle L t)"
proof (induction t arbitrary: h)
  case (Leaf d)
  then show ?case by (cases d) auto
next
  case (Items ts)
  then show ?case by (auto simp: list_all_iff intro!: builds_list de_items_build)
next
  case (Def i k n es)
  have "builds_fields lo (json_de_entries L def_key (map (\<lambda>e. (fst e, tree_json L (snd e))) es) []) h
      (bt_extend (map (\<lambda>e. (fst e, settle L (snd e))) es) [])"
    using Def by (intro de_entries_build) (auto simp: list_all_iff snds.simps)
  moreover have "bt_extend (map (\<lambda>e. (fst e, settle L (snd e))) es) [] = map (\<lambda>e. (fst e, settle L (snd e))) es"
    using Def.prems by (intro bt_extend_id) (simp add: bt_ok_map)
  ultimately have "builds_fields lo (json_de_entries L def_key ((''id'', JString i) # (''kind'', JString k) # (''name'', JString n)
      # map (\<lambda>e. (fst e, tree_json L (snd e))) es) []) h (map (\<lambda>e. (fst e, settle L (snd e))) es)"
    by (simp add: def_key_def)
  from builds_table(2) [OF this] show ?case using Def.prems def_header_of_def [of es i k n "tree_json L"] by simp
next
  case (Fields es)
  have "builds_fields lo (json_de_entries L (\<lambda>_. False) (map (\<lambda>e. (fst e, tree_json L (snd e))) es) []) h
      (bt_extend (map (\<lambda>e. (fst e, settle L (snd e))) es) [])"
    using Fields by (intro de_entries_build) (auto simp: list_all_iff snds.simps)
  moreover have "bt_extend (map (\<lambda>e. (fst e, settle L (snd e))) es) [] = map (\<lambda>e. (fst e, settle L (snd e))) es"
    using Fields.prems by (intro bt_extend_id) (simp add: bt_ok_map)
  ultimately show ?case using Fields.prems def_header_table [of es "tree_json L"] builds_table(1) by simp
qed

section \<open>Properties\<close>

text \<open>What a string of the TOML file stands for: a requirement, when it starts with a comparison and
  parses as one; else a version, when it starts with \<open>v\<close> and the rest parses as one; else itself.\<close>

definition is_requirement :: "('v, 'q, 'f) crates \<Rightarrow> string \<Rightarrow> 'q \<Rightarrow> bool" where
  "is_requirement L s q \<longleftrightarrow> (\<exists>c r. s = c # r \<and> c \<in> set ''^>=<~'') \<and> req_parse L s = Some q"

definition is_version :: "('v, 'q, 'f) crates \<Rightarrow> string \<Rightarrow> 'v \<Rightarrow> bool" where
  "is_version L s v \<longleftrightarrow> (\<exists>r. s = ''v'' @ r \<and> version_parse L r = Some v)"

definition string_meaning :: "('v, 'q, 'f) crates \<Rightarrow> string \<Rightarrow> ('v, 'q, 'f) data \<Rightarrow> bool" where
  "string_meaning L s d \<longleftrightarrow>
     (\<exists>q. d = DRequire q \<and> is_requirement L s q)
   \<or> (\<exists>v. d = DVersion v \<and> is_version L s v \<and> (\<nexists>q. is_requirement L s q))
   \<or> (d = DString s \<and> (\<nexists>q. is_requirement L s q) \<and> (\<nexists>v. is_version L s v))"

text \<open>The tree a TOML value stands for. A table keeps the last value of each key, in the order of
  the keys; a date or time stands for nothing.\<close>

inductive toml_means :: "('v, 'q, 'f) crates \<Rightarrow> 'f toml \<Rightarrow> ('v, 'q, 'f) tree \<Rightarrow> bool" for L where
  means_bool: "toml_means L (TBoolean b) (Leaf (DBool b))"
| means_string: "string_meaning L s d \<Longrightarrow> toml_means L (TString s) (Leaf d)"
| means_float: "toml_means L (TFloat x) (Leaf (DFloat x))"
| means_int: "toml_means L (TInteger n) (Leaf (DInt n))"
| means_array: "list_all2 (toml_means L) ts us \<Longrightarrow> toml_means L (TArray ts) (Items us)"
| means_table: "bt_ok fs \<Longrightarrow> (\<And>k. rel_option (toml_means L) (map_of (rev es) k) (map_of fs k)) \<Longrightarrow>
    toml_means L (TTable es) (Fields fs)"

lemma string_data_means: "string_meaning L s (string_data L s)"
  by (cases s) (auto simp: string_data_def string_meaning_def is_requirement_def is_version_def split: option.splits)

lemma map_of_values: "map_of (map (\<lambda>e. (fst e, f (snd e))) es) k = map_option f (map_of es k)"
  by (induction es) auto

lemma toml_tree_means: "toml_ok t \<Longrightarrow> toml_means L t (toml_tree L t)"
proof (induction L t rule: toml_tree.induct)
  case (2 L s)
  then show ?case by (auto intro: means_string string_data_means)
next
  case (6 L ts)
  then show ?case by (auto simp: list_all_iff list_all2_conv_all_nth intro!: means_array)
next
  case (7 L es)
  let ?fs = "bt_extend (map (\<lambda>e. (fst e, toml_tree L (snd e))) es) []"
  have "rel_option (toml_means L) (map_of (rev es) k) (map_of ?fs k)" for k
  proof -
    have "map_of ?fs k = map_option (toml_tree L) (map_of (rev es) k)"
      by (simp add: map_of_bt_extend rev_map map_of_values)
    moreover have "toml_means L t (toml_tree L t)" if "map_of (rev es) k = Some t" for t
    proof -
      from map_of_SomeD [OF that] have m: "(k, t) \<in> set es" by simp
      then have "toml_ok t" using "7.prems" by (auto simp: list_all_iff)
      with "7.IH" [OF m] show ?thesis by simp
    qed
    ultimately show ?thesis by (cases "map_of (rev es) k") auto
  qed
  then show ?case by (auto intro: means_table simp: bt_extend_ok)
qed (auto intro: means_bool means_float means_int)

text \<open>C23: every TOML value without dates becomes a node that denotes the tree the value stands for:
  booleans, numbers, arrays and tables keep their contents, a table sorted by its keys; a string
  that starts with a comparison and parses as a requirement becomes one, else a string \<open>v\<close>
  followed by a version becomes that version, else it stays text. The conversion only adds cells,
  all those of the tree being new. A value with a date or time anywhere inside is refused.\<close>

theorem toml_node_tree:
  "if toml_ok t then \<exists>r h' tr. toml_node L t h = (Ok r, h') \<and> extends h h' \<and> denotes (next_ref h) h' r tr \<and> toml_means L t tr
   else \<exists>h'. toml_node L t h = (Fail CNode, h')"
  using toml_builds(1) [of t "next_ref h" L h] toml_fails(1) [of t L h] toml_tree_means [of t L] by (auto simp: builds_def)

text \<open>C22: a node that is written as JSON, as the lock file does, and read back denotes the same
  tree except that requirements and versions have become plain strings: deep enough fuel gives
  the JSON text, reading it succeeds and only adds cells.\<close>

theorem node_json_round_trip:
  assumes "denotes lo h r t" and "storable L t" and "height t \<le> n"
  shows "\<exists>j r' h'. node_json n L h r = Some j \<and> json_de L j h = (Ok r', h') \<and> extends h h'
    \<and> denotes lo h' r t \<and> denotes (next_ref h) h' r' (settle L t)"
proof -
  from json_de_tree [OF assms(2), of "next_ref h" h] obtain r' h' where
    "json_de L (tree_json L t) h = (Ok r', h')" "extends h h'" "denotes (next_ref h) h' r' (settle L t)"
    by (auto simp: builds_def)
  with node_json_tree(1) [OF assms(1,3)] denotes_extends(1) [OF assms(1)] show ?thesis by blast
qed

definition example_crates :: "(nat, nat, nat) crates" where
  "example_crates = \<lparr>version_parse = (\<lambda>s. if s = ''1'' then Some 1 else None), version_show = (\<lambda>_. ''1''),
     req_parse = (\<lambda>s. if s = ''^1'' then Some 1 else None), req_show = (\<lambda>_. ''^1''), req_matches = (\<lambda>q v. q \<le> v),
     float_finite = (\<lambda>_. True), float_of_int = nat\<rparr>"

definition example_tree :: "(nat, nat, nat) tree" where
  "example_tree = Def ''source'' ''image'' ''gcc'' [(''at'', Leaf (DRequire 1)), (''url'', Leaf (DString ''u''))]"

definition example_nodes :: "(nat, nat, nat) nheap" where
  "example_nodes = \<lparr>cell = (\<lambda>_. DBool False)(0 := DRequire 1, 1 := DString ''u'',
     2 := DDefinition ''source'' ''image'' ''gcc'' [(''at'', 0), (''url'', 1)]), next_ref = 3\<rparr>"

lemma example_tree_facts:
  "denotes 0 example_nodes 2 example_tree" "storable example_crates example_tree" "height example_tree \<le> 2"
  by (simp_all add: example_nodes_def example_tree_def example_crates_def bt_ok_def def_key_def)

theorem node_json_round_trip_witness:
  "\<exists>j r' h'. node_json 2 example_crates example_nodes 2 = Some j \<and> json_de example_crates j example_nodes = (Ok r', h')
    \<and> denotes 3 h' r' (Def ''source'' ''image'' ''gcc'' [(''at'', Leaf (DString ''^1'')), (''url'', Leaf (DString ''u''))])"
  using node_json_round_trip [OF example_tree_facts]
  by (auto simp: example_tree_def example_crates_def example_nodes_def)

end
