(* ===== verification/Schema.thy ===== *)
theory Schema
  imports Config_Node
begin

text \<open>
  The project file schema (\<open>crates/edo/src/context/schema.rs\<close>): how the sections of an
  \<open>edo.toml\<close> become definition nodes. Parsing the text into the sections is the \<open>toml\<close>
  crate's work; a section is the list of its entries.
\<close>

section \<open>Sections\<close>

record 'f cache_section =
  cs_source :: "(string \<times> 'f toml) list"
  cs_build :: "'f toml option"
  cs_output :: "'f toml option"

record 'f schema_v1 =
  sv_config :: "(string \<times> 'f toml) list"
  sv_cache :: "'f cache_section"
  sv_environment :: "(string \<times> 'f toml) list"
  sv_source :: "(string \<times> 'f toml) list"
  sv_transform :: "(string \<times> 'f toml) list"
  sv_vendor :: "(string \<times> 'f toml) list"
  sv_requires :: "(string \<times> 'f toml) list"

type_synonym ('v, 'q, 'f, 'a) node_action = "(('v, 'q, 'f) nheap, ('v, 'q) context_error, 'a) action"

definition toml_as_table :: "'f toml \<Rightarrow> (string \<times> 'f toml) list option" where
  "toml_as_table t = (case t of TTable es \<Rightarrow> Some es | _ \<Rightarrow> None)"

definition toml_as_str :: "'f toml \<Rightarrow> string option" where
  "toml_as_str t = (case t of TString s \<Rightarrow> Some s | _ \<Rightarrow> None)"

definition toml_map :: "('v, 'q, 'f) crates \<Rightarrow> (string \<times> 'f toml) list \<Rightarrow> ('v, 'q, 'f, (string \<times> nat) list) node_action" where
  "toml_map L es = toml_entries L es []"

definition toml_def_item :: "('v, 'q, 'f) crates \<Rightarrow> string \<Rightarrow> string \<Rightarrow> (string \<times> 'f toml) list
    \<Rightarrow> ('v, 'q, 'f, nat) node_action" where
  "toml_def_item L i name inner =
     bindS (liftS (ok_or (CField ''kind'' ''string'') (Option.bind (map_of inner ''kind'') toml_as_str))) (\<lambda>kind.
     bindS (toml_map L (bt_remove ''kind'' inner)) (\<lambda>t.
     new_definition i kind name t))"

text \<open>Entries that are not tables are skipped.\<close>

definition toml_def_step :: "('v, 'q, 'f) crates \<Rightarrow> string \<Rightarrow> string \<times> 'f toml \<Rightarrow> (string \<times> nat) list
    \<Rightarrow> ('v, 'q, 'f, (string \<times> nat) list) node_action" where
  "toml_def_step L i e tree =
     (case toml_as_table (snd e) of
        None \<Rightarrow> returnS tree
      | Some inner \<Rightarrow> bindS (toml_def_item L i (fst e) inner) (\<lambda>r. returnS (bt_insert (fst e) r tree)))"

definition toml_def :: "('v, 'q, 'f) crates \<Rightarrow> (string \<times> 'f toml) list \<Rightarrow> string
    \<Rightarrow> ('v, 'q, 'f, (string \<times> nat) list) node_action" where
  "toml_def L table i = foldS (toml_def_step L i) table []"

definition cache_item :: "('v, 'q, 'f) crates \<Rightarrow> string \<Rightarrow> 'f toml option \<Rightarrow> ('v, 'q, 'f, nat option) node_action" where
  "cache_item L name section =
     (case section of
        None \<Rightarrow> returnS None
      | Some d \<Rightarrow>
          bindS (liftS (ok_or (CField name ''table'') (toml_as_table d))) (\<lambda>t.
          bindS (toml_def_item L ''backend'' name t) (\<lambda>r. returnS (Some r))))"

definition get_source_caches :: "('v, 'q, 'f) crates \<Rightarrow> 'f schema_v1 \<Rightarrow> ('v, 'q, 'f, (string \<times> nat) list) node_action" where
  "get_source_caches L s = toml_def L (cs_source (sv_cache s)) ''backend''"

definition get_build_cache :: "('v, 'q, 'f) crates \<Rightarrow> 'f schema_v1 \<Rightarrow> ('v, 'q, 'f, nat option) node_action" where
  "get_build_cache L s = cache_item L ''build_cache'' (cs_build (sv_cache s))"

definition get_output_cache :: "('v, 'q, 'f) crates \<Rightarrow> 'f schema_v1 \<Rightarrow> ('v, 'q, 'f, nat option) node_action" where
  "get_output_cache L s = cache_item L ''output_cache'' (cs_output (sv_cache s))"

definition get_config :: "('v, 'q, 'f) crates \<Rightarrow> 'f schema_v1 \<Rightarrow> ('v, 'q, 'f, (string \<times> nat) list) node_action" where
  "get_config L s = toml_map L (sv_config s)"

definition get_environments :: "('v, 'q, 'f) crates \<Rightarrow> 'f schema_v1 \<Rightarrow> ('v, 'q, 'f, (string \<times> nat) list) node_action" where
  "get_environments L s = toml_def L (sv_environment s) ''environment''"

definition get_sources :: "('v, 'q, 'f) crates \<Rightarrow> 'f schema_v1 \<Rightarrow> ('v, 'q, 'f, (string \<times> nat) list) node_action" where
  "get_sources L s = toml_def L (sv_source s) ''source''"

definition get_transforms :: "('v, 'q, 'f) crates \<Rightarrow> 'f schema_v1 \<Rightarrow> ('v, 'q, 'f, (string \<times> nat) list) node_action" where
  "get_transforms L s = toml_def L (sv_transform s) ''transform''"

definition get_vendors :: "('v, 'q, 'f) crates \<Rightarrow> 'f schema_v1 \<Rightarrow> ('v, 'q, 'f, (string \<times> nat) list) node_action" where
  "get_vendors L s = toml_def L (sv_vendor s) ''vendor''"

definition get_requires :: "('v, 'q, 'f) crates \<Rightarrow> 'f schema_v1 \<Rightarrow> ('v, 'q, 'f, (string \<times> nat) list) node_action" where
  "get_requires L s = toml_def L (sv_requires s) ''requires''"

section \<open>What the sections denote\<close>

text \<open>An entry of a section: its kind and the tree of its remaining fields.\<close>

definition item_ok :: "(string \<times> 'f toml) list \<Rightarrow> bool" where
  "item_ok inner \<longleftrightarrow> (\<exists>k. map_of inner ''kind'' = Some (TString k)) \<and> list_all (\<lambda>e. toml_ok (snd e)) (bt_remove ''kind'' inner)"

definition item_tree :: "('v, 'q, 'f) crates \<Rightarrow> string \<Rightarrow> string \<Rightarrow> (string \<times> 'f toml) list \<Rightarrow> ('v, 'q, 'f) tree" where
  "item_tree L i name inner = Def i (the (Option.bind (map_of inner ''kind'') toml_as_str)) name
     (bt_extend (map (\<lambda>e. (fst e, toml_tree L (snd e))) (bt_remove ''kind'' inner)) [])"

fun section_tree :: "('v, 'q, 'f) crates \<Rightarrow> string \<Rightarrow> (string \<times> 'f toml) list \<Rightarrow> (string \<times> ('v, 'q, 'f) tree) list" where
  "section_tree L i [] = []"
| "section_tree L i ((name, TTable inner) # es) = (name, item_tree L i name inner) # section_tree L i es"
| "section_tree L i (_ # es) = section_tree L i es"

lemma toml_def_item_builds:
  assumes "item_ok inner"
  shows "builds lo (toml_def_item L i name inner) h (item_tree L i name inner)"
proof -
  obtain k where k: "map_of inner ''kind'' = Some (TString k)" using assms by (auto simp: item_ok_def)
  have "builds_fields lo (toml_map L (bt_remove ''kind'' inner)) h
      (bt_extend (map (\<lambda>e. (fst e, toml_tree L (snd e))) (bt_remove ''kind'' inner)) [])"
    using assms unfolding toml_map_def item_ok_def by (intro toml_builds(3)) auto
  from builds_table(2) [OF this, of i k name] k show ?thesis
    by (simp add: toml_def_item_def item_tree_def toml_as_str_def new_definition_def builds_def)
qed

lemma toml_def_loop:
  assumes "\<And>name inner. (name, TTable inner) \<in> set es \<Longrightarrow> item_ok inner" and "denotes_fields lo h acc n"
  shows "builds_fields lo (foldS (toml_def_step L i) es acc) h (bt_extend (section_tree L i es) n)"
  using assms
proof (induction L i es arbitrary: h acc n rule: section_tree.induct)
  case (1 L i)
  then show ?case by (auto simp: builds_fields_def bt_extend_def)
next
  case (2 L i name inner es)
  have b: "builds lo (toml_def_item L i name inner) h (item_tree L i name inner)"
    by (rule toml_def_item_builds, rule 2(2) [of name]) simp
  have "builds_fields lo (bindS (toml_def_item L i name inner) (\<lambda>r. foldS (toml_def_step L i) es (bt_insert name r acc))) h
      (bt_extend (section_tree L i es) (bt_insert name (item_tree L i name inner) n))"
    by (rule builds_fields_cons [OF b 2(3)], rule 2(1)) (use 2(2) in \<open>meson list.set_intros(2)\<close>, simp)
  moreover have "foldS (toml_def_step L i) ((name, TTable inner) # es) acc h
      = bindS (toml_def_item L i name inner) (\<lambda>r. foldS (toml_def_step L i) es (bt_insert name r acc)) h"
    by (simp add: toml_def_step_def toml_as_table_def bindS_def split: prod.splits sum.splits)
  ultimately show ?case by (simp add: builds_fields_def bt_extend_def)
qed (auto simp: toml_def_step_def toml_as_table_def builds_fields_def)

section \<open>Properties\<close>

text \<open>a section all of whose tables have a string \<open>kind\<close> and no dates becomes, in key order,
  one definition node per table: with the section's id, the table's kind, the entry's name and
  the remaining fields; entries that are not tables are left out.\<close>

lemma section_definitions:
  assumes "\<forall>e \<in> set es. \<forall>inner. snd e = TTable inner \<longrightarrow> item_ok inner"
  shows "\<exists>t h'. toml_def L es i h = (Ok t, h') \<and> extends h h' \<and> bt_ok t
    \<and> denotes_fields (next_ref h) h' t (bt_extend (section_tree L i es) [])"
proof -
  have "builds_fields (next_ref h) (toml_def L es i) h (bt_extend (section_tree L i es) [])"
    unfolding toml_def_def using assms by (intro toml_def_loop) force+
  then obtain t h' where t: "toml_def L es i h = (Ok t, h')" "extends h h'"
    "denotes_fields (next_ref h) h' t (bt_extend (section_tree L i es) [])" by (auto simp: builds_fields_def)
  from denotes_fields_keys [OF t(3)] bt_extend_ok [OF bt_nil_ok, of "section_tree L i es"] have "bt_ok t" by (simp add: bt_ok_def)
  with t show ?thesis by blast
qed

lemma section_definitions_witness:
  "\<exists>t h'. toml_def example_crates [(''x'', TInteger 1), (''gcc'', TTable [(''at'', TString ''^1''), (''kind'', TString ''image'')])]
      ''requires'' heap_empty = (Ok t, h')
    \<and> denotes_fields 0 h' t [(''gcc'', Def ''requires'' ''image'' ''gcc'' [(''at'', Leaf (DRequire 1))])]"
  using section_definitions [of "[(''x'', TInteger 1), (''gcc'', TTable [(''at'', TString ''^1''), (''kind'', TString ''image'')])]"
      example_crates "''requires''" heap_empty]
  by (simp add: item_ok_def item_tree_def bt_remove_def toml_as_str_def bt_extend_def string_data_def example_crates_def heap_empty_def)
    blast

end
