(* ===== verification/Resolver.thy ===== *)
theory Resolver
  imports Config_Node
begin

text \<open>
  Dependency requirements and their resolution (\<open>crates/edo/src/source/version.rs\<close>,
  \<open>require.rs\<close>, \<open>resolver.rs\<close> and the trait of \<open>vendor.rs\<close>).

  The interning pool of the \<open>resolvo\<close> crate is transparent: package names, version sets and
  solvables stand for themselves. Its solver is the parameter \<open>solve\<close>, a function of what the
  resolver provides (\<open>provider\<close>) and of the requirements; \<open>solver_ok\<close> is its documented
  contract. A vendor is a record of the trait's operations.
\<close>

section \<open>Versions, requirements and vendors\<close>

record 'v edo_version =
  ev_vendor :: string
  ev_version :: 'v

definition ev_new :: "string \<Rightarrow> 'v \<Rightarrow> 'v edo_version" where
  "ev_new vendor v = \<lparr>ev_vendor = vendor, ev_version = v\<rparr>"

definition ev_matches :: "('v, 'q, 'f) crates \<Rightarrow> 'q \<Rightarrow> 'v edo_version \<Rightarrow> bool" where
  "ev_matches L q e = req_matches L q (ev_version e)"

definition ev_to_string :: "('v, 'q, 'f) crates \<Rightarrow> 'v edo_version \<Rightarrow> string" where
  "ev_to_string L e = ev_vendor e @ ''-'' @ version_show L (ev_version e)"

definition vs_to_string :: "('v, 'q, 'f) crates \<Rightarrow> 'v edo_version list \<Rightarrow> string" where
  "vs_to_string L es = join_with '','' (map (ev_to_string L) es)"

record ('v, 'q, 'f) vendor =
  vd_options :: "string \<Rightarrow> (('v, 'q) src_error, 'v list) res"
  vd_resolve :: "string \<Rightarrow> 'v \<Rightarrow> (('v, 'q, 'f) nheap, ('v, 'q) src_error, nat) action"
  vd_deps :: "string \<Rightarrow> 'v \<Rightarrow> (('v, 'q) src_error, (string \<times> 'q) list option) res"

record 'q dependency =
  dep_addr :: addr
  dep_kind :: string
  dep_name :: string
  dep_version :: 'q
  dep_vendor :: "string option"

text \<open>\<open>Dependency::from_node\<close>.\<close>

definition dep_vendor_field :: "nat \<Rightarrow> ('v, 'q, 'f) nheap \<Rightarrow> (('v, 'q) src_error, string option) res" where
  "dep_vendor_field r h =
     (case node_lookup r ''vendor'' h of
        None \<Rightarrow> Ok None
      | Some c \<Rightarrow> bindR (ok_or (RField ''vendor'' ''string'') (as_string (cell h c))) (\<lambda>v. Ok (Some v)))"

definition dep_from_node :: "addr \<Rightarrow> nat \<Rightarrow> ('v, 'q, 'f) nheap \<Rightarrow> (('v, 'q) src_error, 'q dependency) res" where
  "dep_from_node a r h =
     bindR (ok_or RUndefined (get_id (cell h r))) (\<lambda>i.
     if i \<noteq> ''requires'' then Fail RUndefined
     else bindR (map_err RContext (validate_keys [''at''] (cell h r))) (\<lambda>_.
     bindR (ok_or RUndefined (get_kind (cell h r))) (\<lambda>kind.
     bindR (ok_or RUndefined (get_name (cell h r))) (\<lambda>name.
     bindR (ok_or RNoRequire (node_lookup r ''at'' h)) (\<lambda>c.
     bindR (ok_or (RField ''at'' ''version requirement'') (as_require (cell h c))) (\<lambda>version.
     bindR (dep_vendor_field r h) (\<lambda>vendor.
     Ok \<lparr>dep_addr = a, dep_kind = kind, dep_name = name, dep_version = version, dep_vendor = vendor\<rparr>)))))))"

section \<open>The resolver\<close>

datatype 'v vset = Single "'v edo_version list" | Union "'v edo_version list list"

record ('v, 'q, 'f) resolver =
  rs_names :: "string list"
  rs_sets :: "(string \<times> 'v vset) list"
  rs_vendors :: "(string \<times> ('v, 'q, 'f) vendor) list"

definition resolver_default :: "('v, 'q, 'f) resolver" where
  "resolver_default = \<lparr>rs_names = [], rs_sets = [], rs_vendors = []\<rparr>"

definition add_vendor :: "string \<Rightarrow> ('v, 'q, 'f) vendor \<Rightarrow> ('v, 'q, 'f) resolver \<Rightarrow> ('v, 'q, 'f) resolver" where
  "add_vendor name vd R = R\<lparr>rs_vendors := bt_insert name vd (rs_vendors R)\<rparr>"

text \<open>
  One iteration of \<open>build_db\<close>. The first version set of a name is inserted. For a name that has
  one already, the code makes the union and inserts it while it still holds the guard that
  looking the name up in the \<open>DashMap\<close> returned; the documentation of \<open>DashMap::insert\<close> warns
  of a deadlock when a reference into the map is held, and here it is one to the same key, so the
  call never returns.
\<close>

definition add_versions :: "string \<Rightarrow> string \<Rightarrow> 'v list \<Rightarrow> ('v, 'q, 'f) resolver
    \<Rightarrow> (('v, 'q) src_error, unit) res \<times> ('v, 'q, 'f) resolver" where
  "add_versions name vendor vs R =
     (let s = map (ev_new vendor) vs;
          R1 = R\<lparr>rs_names := (if name \<in> set (rs_names R) then rs_names R else rs_names R @ [name])\<rparr>
      in case map_of (rs_sets R) name of
           Some _ \<Rightarrow> (Fail RNeverReturns, R1)
         | None \<Rightarrow> (Ok (), R1\<lparr>rs_sets := bt_insert name (Single s) (rs_sets R)\<rparr>))"

definition build_db_step :: "string \<Rightarrow> string \<times> ('v, 'q, 'f) vendor \<Rightarrow> ('v, 'q, 'f) resolver
    \<Rightarrow> (('v, 'q) src_error, unit) res \<times> ('v, 'q, 'f) resolver" where
  "build_db_step name nv = bindS (liftS (vd_options (snd nv) name)) (\<lambda>vs. add_versions name (fst nv) vs)"

definition build_db :: "string \<Rightarrow> ('v, 'q, 'f) resolver \<Rightarrow> (('v, 'q) src_error, unit) res \<times> ('v, 'q, 'f) resolver" where
  "build_db name R = foreachS (build_db_step name) (rs_vendors R) R"

text \<open>The versions behind a name, in the order the loops over single sets and unions visit them.\<close>

definition versions :: "('v, 'q, 'f) resolver \<Rightarrow> string \<Rightarrow> 'v edo_version list" where
  "versions R name =
     (case map_of (rs_sets R) name of
        None \<Rightarrow> []
      | Some (Single u) \<Rightarrow> u
      | Some (Union us) \<Rightarrow> concat us)"

definition build_requirement :: "('v, 'q, 'f) crates \<Rightarrow> ('v, 'q, 'f) resolver \<Rightarrow> 'q dependency
    \<Rightarrow> (('v, 'q) src_error, string \<times> 'v edo_version list) res" where
  "build_requirement L R d =
     (if dep_name d \<notin> set (rs_names R) then Fail (RRequirement (dep_name d) (dep_version d))
      else let ms = filter (\<lambda>e. ev_matches L (dep_version d) e
                       \<and> (case dep_vendor d of None \<Rightarrow> True | Some v \<Rightarrow> v = ev_vendor e)) (versions R (dep_name d))
           in if ms \<noteq> [] then Ok (dep_name d, ms) else Fail (RRequirement (dep_name d) (dep_version d)))"

section \<open>What the solver asks\<close>

definition filter_candidates :: "(string \<times> 'v edo_version) list \<Rightarrow> 'v edo_version list \<Rightarrow> bool \<Rightarrow> (string \<times> 'v edo_version) list" where
  "filter_candidates cs s flipped = filter (\<lambda>c. (snd c \<in> set s) \<noteq> flipped) cs"

definition get_candidates :: "('v, 'q, 'f) resolver \<Rightarrow> string
    \<Rightarrow> ('v edo_version list \<times> 'v edo_version option) option" where
  "get_candidates R name =
     (case map_of (rs_sets R) name of
        None \<Rightarrow> None
      | Some (Union us) \<Rightarrow> Some (concat us, None)
      | Some (Single u) \<Rightarrow> Some (u, if length u = 1 then Some (hd u) else None))"

definition sort_candidates :: "('v::linorder) edo_version list \<Rightarrow> 'v edo_version list" where
  "sort_candidates es = sort_key ev_version es"

datatype 'v known = Known "(string \<times> 'v edo_version list) list" | Unknown string

fun known_deps :: "('v, 'q, 'f) crates \<Rightarrow> ('v, 'q, 'f) resolver \<Rightarrow> (string \<times> 'q) list
    \<Rightarrow> (string \<times> 'v edo_version list) list \<Rightarrow> 'v known" where
  "known_deps L R [] acc = Known acc"
| "known_deps L R ((name, q) # found) acc =
     (if name \<notin> set (rs_names R)
      then Unknown (''could not find dependency with name '' @ name @ '' and version requirement '' @ req_show L q
                    @ '' in any registered vendor'')
      else let ms = filter (ev_matches L q) (versions R name)
           in known_deps L R found (if ms \<noteq> [] then acc @ [(name, ms)] else acc))"

definition get_dependencies :: "('v, 'q, 'f) crates \<Rightarrow> ('v, 'q, 'f) resolver \<Rightarrow> string \<Rightarrow> 'v edo_version
    \<Rightarrow> (('v, 'q) src_error, 'v known) res" where
  "get_dependencies L R name e =
     (case map_of (rs_vendors R) (ev_vendor e) of
        None \<Rightarrow> Inl Panic
      | Some vd \<Rightarrow>
          (case vd_deps vd name (ev_version e) of
             Inl Panic \<Rightarrow> Inl Panic
           | Inr (Some found) \<Rightarrow> Ok (known_deps L R found [])
           | _ \<Rightarrow> Ok (Known [])))"

record ('v, 'q) provider =
  pv_candidates :: "string \<Rightarrow> ('v edo_version list \<times> 'v edo_version option) option"
  pv_filter :: "(string \<times> 'v edo_version) list \<Rightarrow> 'v edo_version list \<Rightarrow> bool \<Rightarrow> (string \<times> 'v edo_version) list"
  pv_sort :: "'v edo_version list \<Rightarrow> 'v edo_version list"
  pv_deps :: "string \<Rightarrow> 'v edo_version \<Rightarrow> (('v, 'q) src_error, 'v known) res"

definition provide_for :: "('v::linorder, 'q, 'f) crates \<Rightarrow> ('v, 'q, 'f) resolver \<Rightarrow> ('v, 'q) provider" where
  "provide_for L R = \<lparr>pv_candidates = get_candidates R, pv_filter = filter_candidates, pv_sort = sort_candidates,
     pv_deps = get_dependencies L R\<rparr>"

section \<open>Resolution\<close>

type_synonym ('v, 'q) solver = "('v, 'q) provider \<Rightarrow> (string \<times> 'v edo_version list) list \<Rightarrow> string + (string \<times> 'v edo_version) list"

text \<open>The addresses that wait for a package name and, possibly, a vendor.\<close>

definition targets :: "'q dependency list \<Rightarrow> string \<Rightarrow> string option \<Rightarrow> addr list" where
  "targets ds name vendor = map dep_addr (filter (\<lambda>d. dep_name d = name \<and> dep_vendor d = vendor) ds)"

fun collect :: "('v, 'q, 'f) resolver \<Rightarrow> 'q dependency list \<Rightarrow> (string \<times> 'v edo_version) list
    \<Rightarrow> (addr \<times> string \<times> string \<times> 'v) list \<Rightarrow> (('v, 'q) src_error, (addr \<times> string \<times> string \<times> 'v) list) res" where
  "collect R ds [] found = Ok found"
| "collect R ds ((name, e) # sol) found =
     (if map_of (rs_vendors R) (ev_vendor e) = None then Inl Panic
      else collect R ds sol
             (bt_extend (map (\<lambda>a. (a, ev_vendor e, name, ev_version e))
                (targets ds name (Some (ev_vendor e)) @ targets ds name None)) found))"

definition resolve :: "('v::linorder, 'q, 'f) crates \<Rightarrow> ('v, 'q) solver \<Rightarrow> ('v, 'q, 'f) resolver \<Rightarrow> 'q dependency list
    \<Rightarrow> (('v, 'q) src_error, (addr \<times> string \<times> string \<times> 'v) list) res" where
  "resolve L solve R ds =
     bindR (mapR (build_requirement L R) ds) (\<lambda>reqs.
       case solve (provide_for L R) reqs of
         Inl reason \<Rightarrow> Fail (RResolution reason)
       | Inr sol \<Rightarrow> collect R ds sol [])"

text \<open>The contract of the solver: a solution satisfies every requirement, has at most one
  candidate per package, takes its candidates from the provider and satisfies the
  requirements the provider reports for them.\<close>

definition solution_ok :: "('v, 'q) provider \<Rightarrow> (string \<times> 'v edo_version list) list \<Rightarrow> (string \<times> 'v edo_version) list \<Rightarrow> bool" where
  "solution_ok P reqs sol \<longleftrightarrow>
     (\<forall>req \<in> set reqs. \<exists>c \<in> set sol. fst c = fst req \<and> snd c \<in> set (snd req))
   \<and> (\<forall>c \<in> set sol. \<forall>c' \<in> set sol. fst c = fst c' \<longrightarrow> snd c = snd c')
   \<and> (\<forall>c \<in> set sol. case pv_candidates P (fst c) of None \<Rightarrow> False | Some (cs, _) \<Rightarrow> snd c \<in> set cs)
   \<and> (\<forall>c \<in> set sol. case pv_deps P (fst c) (snd c) of
          Inr (Known reqs') \<Rightarrow> (\<forall>req \<in> set reqs'. \<exists>c \<in> set sol. fst c = fst req \<and> snd c \<in> set (snd req))
        | _ \<Rightarrow> False)"

definition solver_ok :: "('v, 'q) solver \<Rightarrow> bool" where
  "solver_ok solve \<longleftrightarrow> (\<forall>P reqs sol. solve P reqs = Inr sol \<longrightarrow> solution_ok P reqs sol)"

section \<open>Laws\<close>

text \<open>Every version in the database was offered by the registered vendor it names.\<close>

definition offered :: "('v, 'q, 'f) resolver \<Rightarrow> string \<Rightarrow> 'v edo_version \<Rightarrow> bool" where
  "offered R name e \<longleftrightarrow> (\<exists>vd vs. map_of (rs_vendors R) (ev_vendor e) = Some vd \<and> vd_options vd name = Ok vs \<and> ev_version e \<in> set vs)"

definition resolver_ok :: "('v, 'q, 'f) resolver \<Rightarrow> bool" where
  "resolver_ok R \<longleftrightarrow> bt_ok (rs_vendors R) \<and> (\<forall>name. \<forall>e \<in> set (versions R name). offered R name e)"

lemma add_versions_Ok:
  assumes "add_versions name vendor vs R = (Ok (), R')"
  shows "map_of (rs_sets R) name = None" "rs_vendors R' = rs_vendors R" "set (rs_names R') = insert name (set (rs_names R))"
    "map_of (rs_sets R') name \<noteq> None"
    "versions R' n = (if n = name then map (ev_new vendor) vs else versions R n)"
  using assms by (auto simp: versions_def add_versions_def Let_def split: option.splits if_splits)

lemma resolver_default_ok: "resolver_ok resolver_default"
  by (simp add: resolver_ok_def resolver_default_def versions_def)

lemma add_vendor_ok:
  assumes "resolver_ok R" and "map_of (rs_vendors R) name = None"
  shows "resolver_ok (add_vendor name vd R)"
proof -
  have "versions (add_vendor name vd R) = versions R" by (auto simp: versions_def add_vendor_def)
  moreover have "offered R n e \<Longrightarrow> offered (add_vendor name vd R) n e" for n e
    using assms(2) by (auto simp: offered_def add_vendor_def)
  ultimately show ?thesis using assms(1) by (auto simp: resolver_ok_def bt_insert_ok add_vendor_def)
qed

lemma build_db_step_run:
  "build_db_step name nv R = (case vd_options (snd nv) name of
     Inl e \<Rightarrow> (Inl e, R) | Inr vs \<Rightarrow> add_versions name (fst nv) vs R)"
  by (simp add: build_db_step_def split: sum.split)

text \<open>The database after the vendors of a list have been asked.\<close>

lemma build_db_loop:
  assumes "foreachS (build_db_step name) nvs R = (Ok (), R')"
  shows "rs_vendors R' = rs_vendors R"
    and "set (rs_names R') = (if nvs = [] then {} else {name}) \<union> set (rs_names R)"
    and "set (versions R' n) = set (versions R n) \<union> (if n = name then
      {e. \<exists>vd vs. (ev_vendor e, vd) \<in> set nvs \<and> vd_options vd name = Ok vs \<and> ev_version e \<in> set vs} else {})"
proof -
  have "rs_vendors R' = rs_vendors R \<and> set (rs_names R') = (if nvs = [] then {} else {name}) \<union> set (rs_names R)
    \<and> set (versions R' n) = set (versions R n) \<union> (if n = name then
      {e. \<exists>vd vs. (ev_vendor e, vd) \<in> set nvs \<and> vd_options vd name = Ok vs \<and> ev_version e \<in> set vs} else {})"
    using assms
  proof (induction nvs arbitrary: R)
    case (Cons nv nvs)
    obtain vn vd where nv: "nv = (vn, vd)" by (cases nv)
    from Cons.prems obtain vs R1 where vs: "vd_options vd name = Ok vs" "add_versions name vn vs R = (Ok (), R1)"
      "foreachS (build_db_step name) nvs R1 = (Ok (), R')"
      by (cases "vd_options vd name"; cases "add_versions name vn (projr (vd_options vd name)) R")
        (auto simp: build_db_step_run [of name "(vn, vd)" R] nv split: sum.splits)
    note A = add_versions_Ok [OF vs(2)]
    have none: "versions R name = []" by (simp add: versions_def A(1))
    have new: "set (map (ev_new vn) vs) = {e. ev_vendor e = vn \<and> ev_version e \<in> set vs}"
      by (force simp: ev_new_def)
    show ?case using Cons.IH [OF vs(3)] vs(1) A new none by (auto simp: nv)
  qed simp
  then show "rs_vendors R' = rs_vendors R"
    and "set (rs_names R') = (if nvs = [] then {} else {name}) \<union> set (rs_names R)"
    and "set (versions R' n) = set (versions R n) \<union> (if n = name then
      {e. \<exists>vd vs. (ev_vendor e, vd) \<in> set nvs \<and> vd_options vd name = Ok vs \<and> ev_version e \<in> set vs} else {})"
    by blast+
qed

lemma build_db_keeps_ok:
  assumes "resolver_ok R" and "build_db name R = (Ok (), R')"
  shows "resolver_ok R'"
proof -
  note b = build_db_loop [OF assms(2) [unfolded build_db_def]]
  have "map_of (rs_vendors R) k = Some vd" if "(k, vd) \<in> set (rs_vendors R)" for k vd
    using that assms(1) by (simp add: resolver_ok_def bt_ok_def)
  then show ?thesis using assms(1) unfolding resolver_ok_def
    by (auto simp: b(1,3) offered_def split: if_splits)
qed

lemma mapR_in: "mapR f xs = Ok ys \<Longrightarrow> x \<in> set xs \<Longrightarrow> \<exists>y \<in> set ys. f x = Ok y"
  by (induction xs arbitrary: ys) (auto simp: bindR_eq_Ok)

text \<open>Collecting a solution: what is found for an address comes from a chosen candidate that
  the address waits for, and every chosen candidate serves the addresses that wait for it.\<close>

definition serves :: "'q dependency list \<Rightarrow> string \<times> 'v edo_version \<Rightarrow> addr \<Rightarrow> bool" where
  "serves ds c a \<longleftrightarrow> (\<exists>d \<in> set ds. dep_addr d = a \<and> dep_name d = fst c
     \<and> (dep_vendor d = None \<or> dep_vendor d = Some (ev_vendor (snd c))))"

lemma map_of_const: "map_of (map (\<lambda>a. (a, c)) as) a = (if a \<in> set as then Some c else None)"
  by (induction as) auto

lemma serves_targets:
  "a \<in> set (targets ds name (Some (ev_vendor e)) @ targets ds name None) \<longleftrightarrow> serves ds (name, e) a"
  by (auto simp: targets_def serves_def)

lemma collect_found:
  assumes "collect R ds sol found = Ok found'"
  shows "(\<forall>a. map_of found' a = map_of found a \<or> (\<exists>c \<in> set sol. serves ds c a
          \<and> map_of found' a = Some (ev_vendor (snd c), fst c, ev_version (snd c))))
    \<and> (\<forall>c \<in> set sol. \<forall>a. serves ds c a \<longrightarrow> (\<exists>c' \<in> set sol. serves ds c' a
          \<and> map_of found' a = Some (ev_vendor (snd c'), fst c', ev_version (snd c'))))"
  using assms
proof (induction sol arbitrary: found)
  case (Cons c sol)
  obtain name e where c: "c = (name, e)" by (cases c)
  define g where "g = bt_extend (map (\<lambda>a. (a, ev_vendor e, name, ev_version e))
    (targets ds name (Some (ev_vendor e)) @ targets ds name None)) found"
  have g: "map_of g a = (if serves ds c a then Some (ev_vendor e, name, ev_version e) else map_of found a)" for a
    unfolding g_def map_of_bt_extend rev_map map_add_def map_of_const
    using serves_targets [of a ds name e] by (auto simp: c)
  from Cons.prems have "collect R ds sol g = Ok found'" by (simp add: c g_def split: if_splits)
  note IH = Cons.IH [OF this]
  have new: "map_of found' a = map_of found a \<or> (\<exists>c' \<in> set (c # sol). serves ds c' a
          \<and> map_of found' a = Some (ev_vendor (snd c'), fst c', ev_version (snd c')))" for a
  proof (cases "map_of found' a = map_of g a")
    case True
    then show ?thesis using g [of a] by (auto simp: c split: if_splits)
  next
    case False
    with IH have "\<exists>c' \<in> set sol. serves ds c' a \<and> map_of found' a = Some (ev_vendor (snd c'), fst c', ev_version (snd c'))"
      by blast
    then show ?thesis by auto
  qed
  have "\<exists>c' \<in> set (c # sol). serves ds c' a
          \<and> map_of found' a = Some (ev_vendor (snd c'), fst c', ev_version (snd c'))"
    if "serves ds c a" for a
  proof (cases "map_of found' a = map_of g a")
    case True
    then show ?thesis using g [of a] that by (auto simp: c)
  next
    case False
    with IH have "\<exists>c' \<in> set sol. serves ds c' a \<and> map_of found' a = Some (ev_vendor (snd c'), fst c', ev_version (snd c'))"
      by blast
    then show ?thesis by auto
  qed
  with new IH show ?case by (metis list.set_intros(2) set_ConsD)
qed simp

lemma build_requirement_Ok:
  "build_requirement L R d = Ok req \<Longrightarrow> fst req = dep_name d \<and> (\<forall>e \<in> set (snd req). e \<in> set (versions R (dep_name d))
     \<and> ev_matches L (dep_version d) e \<and> (\<forall>w. dep_vendor d = Some w \<longrightarrow> w = ev_vendor e))"
  by (auto simp: build_requirement_def Let_def split: if_splits option.splits)

lemma build_requirement_Inl:
  "build_requirement L R d = Inl f \<Longrightarrow> f = Err (RRequirement (dep_name d) (dep_version d))"
  by (auto simp: build_requirement_def Let_def split: if_splits)

lemma mapR_Inl: "mapR f xs = Inl e \<Longrightarrow> \<exists>x \<in> set xs. f x = Inl e"
proof (induction xs)
  case (Cons x xs)
  then show ?case by (cases "f x"; cases "mapR f xs") auto
qed simp

lemma candidates_versions: "get_candidates R n = Some (cs, lk) \<Longrightarrow> set cs = set (versions R n)"
  by (auto simp: get_candidates_def versions_def split: option.splits vset.splits)

lemma solution_okD:
  assumes "solution_ok P reqs sol"
  shows "req \<in> set reqs \<Longrightarrow> \<exists>c \<in> set sol. fst c = fst req \<and> snd c \<in> set (snd req)"
    and "c \<in> set sol \<Longrightarrow> c' \<in> set sol \<Longrightarrow> fst c = fst c' \<Longrightarrow> snd c = snd c'"
    and "c \<in> set sol \<Longrightarrow> case pv_candidates P (fst c) of None \<Rightarrow> False | Some (cs, _) \<Rightarrow> snd c \<in> set cs"
  using assms unfolding solution_ok_def by blast+

lemma solution_offered:
  assumes "resolver_ok R" and "solution_ok (provide_for L R) reqs sol" and "c \<in> set sol"
  shows "offered R (fst c) (snd c)"
proof -
  from solution_okD(3) [OF assms(2,3)] obtain cs lk where "get_candidates R (fst c) = Some (cs, lk)" "snd c \<in> set cs"
    by (auto simp: provide_for_def split: option.splits)
  with candidates_versions [of R "fst c" cs lk] assms(1) show ?thesis by (auto simp: resolver_ok_def)
qed

lemma collect_total:
  assumes "\<And>c. c \<in> set sol \<Longrightarrow> offered R (fst c) (snd c)"
  shows "\<exists>found'. collect R ds sol found = Ok found'"
  using assms by (induction sol arbitrary: found) (fastforce simp: offered_def)+

lemma resolve_found:
  assumes ok: "resolver_ok R" and dist: "distinct (map dep_addr ds)"
    and reqs: "mapR (build_requirement L R) ds = Ok reqs" and sol: "solution_ok (provide_for L R) reqs sol"
    and found: "collect R ds sol [] = Ok found" and d: "d \<in> set ds"
  shows "\<exists>e. map_of found (dep_addr d) = Some (ev_vendor e, dep_name d, ev_version e) \<and> ev_matches L (dep_version d) e
    \<and> (\<forall>w. dep_vendor d = Some w \<longrightarrow> w = ev_vendor e) \<and> offered R (dep_name d) e"
proof -
  from mapR_in [OF reqs d] obtain req where req: "req \<in> set reqs" "build_requirement L R d = Ok req" by blast
  note r = build_requirement_Ok [OF req(2)]
  from solution_okD(1) [OF sol req(1)] obtain c where c: "c \<in> set sol" "fst c = fst req" "snd c \<in> set (snd req)"
    by blast
  with r have "dep_vendor d = None \<or> dep_vendor d = Some (ev_vendor (snd c))" by (cases "dep_vendor d") auto
  with c(2) r d have "serves ds c (dep_addr d)" by (auto simp: serves_def)
  with collect_found [OF found] c(1) obtain c' where c': "c' \<in> set sol" "serves ds c' (dep_addr d)"
    "map_of found (dep_addr d) = Some (ev_vendor (snd c'), fst c', ev_version (snd c'))" by blast
  from c'(2) obtain d' where "d' \<in> set ds" "dep_addr d' = dep_addr d" "dep_name d' = fst c'" by (auto simp: serves_def)
  with dist d have "fst c' = dep_name d" by (metis distinct_map inj_on_eq_iff)
  with solution_okD(2) [OF sol c'(1) c(1)] c(2) r have "snd c' = snd c" by simp
  then show ?thesis using c' c r solution_offered [OF ok sol c(1)] \<open>fst c' = dep_name d\<close> by auto
qed

lemma resolve_OkE:
  assumes "resolve L solve R ds = Ok found" and "solver_ok solve"
  obtains reqs sol where "mapR (build_requirement L R) ds = Ok reqs" and "solution_ok (provide_for L R) reqs sol"
    and "collect R ds sol [] = Ok found"
proof -
  from assms(1) obtain reqs where r: "mapR (build_requirement L R) ds = Ok reqs"
    "(case solve (provide_for L R) reqs of Inl reason \<Rightarrow> Fail (RResolution reason) | Inr sol \<Rightarrow> collect R ds sol []) = Ok found"
    by (auto simp: resolve_def bindR_eq_Ok)
  from r(2) obtain sol where "solve (provide_for L R) reqs = Inr sol" "collect R ds sol [] = Ok found"
    by (cases "solve (provide_for L R) reqs") auto
  moreover from this(1) assms(2) have "solution_ok (provide_for L R) reqs sol" by (simp add: solver_ok_def)
  ultimately show thesis using that [OF r(1)] by blast
qed

text \<open>A successful resolution has results for exactly the addresses of the dependencies.\<close>

lemma resolve_addrs:
  assumes "resolve L solve R ds = Ok found" and "solver_ok solve" and "resolver_ok R" and "distinct (map dep_addr ds)"
  shows "fst ` set found = dep_addr ` set ds"
proof -
  from resolve_OkE [OF assms(1,2)] obtain reqs sol where r: "mapR (build_requirement L R) ds = Ok reqs"
    "solution_ok (provide_for L R) reqs sol" "collect R ds sol [] = Ok found" by blast
  have "dom (map_of found) = dep_addr ` set ds"
  proof
    show "dom (map_of found) \<subseteq> dep_addr ` set ds"
    proof
      fix a assume "a \<in> dom (map_of found)"
      then have "map_of found a \<noteq> map_of [] a" by auto
      with collect_found [OF r(3)] have "\<exists>c \<in> set sol. serves ds c a" by blast
      then show "a \<in> dep_addr ` set ds" by (auto simp: serves_def)
    qed
    show "dep_addr ` set ds \<subseteq> dom (map_of found)"
      using resolve_found [OF assms(3,4) r] by auto
  qed
  then show ?thesis by (simp add: dom_map_of_conv_image_fst)
qed

lemma resolve_Inl:
  assumes "resolve L solve R ds = Inl f" and "solver_ok solve" and "resolver_ok R"
  shows "(\<exists>d \<in> set ds. build_requirement L R d = Inl f \<and> f = Err (RRequirement (dep_name d) (dep_version d)))
    \<or> (\<exists>reason. f = Err (RResolution reason))"
proof (cases "mapR (build_requirement L R) ds")
  case (Inl e)
  from mapR_Inl [OF Inl] show ?thesis using assms(1) by (auto simp: resolve_def Inl dest: build_requirement_Inl)
next
  case reqs: (Inr reqs)
  show ?thesis
  proof (cases "solve (provide_for L R) reqs")
    case (Inr sol)
    with assms(2) have sol: "solution_ok (provide_for L R) reqs sol" by (simp add: solver_ok_def)
    obtain found where "collect R ds sol [] = Ok found"
      using collect_total [of sol R ds "[]"] solution_offered [OF assms(3) sol] by blast
    then show ?thesis using assms(1) by (simp add: resolve_def reqs Inr)
  qed (use assms(1) in \<open>auto simp: resolve_def reqs\<close>)
qed

section \<open>Properties\<close>

text \<open>C20: with a solver that keeps its contract, resolution never panics. When it succeeds,
  the results are at exactly the addresses of the dependencies, and
  every dependency has at its address: its own package name, a version that
  satisfies its requirement, from the vendor it asked for if it named one, and that vendor is
  registered and offers that version. When it fails, either some dependency has no matching
  version at all or the solver found a conflict.\<close>

theorem resolve_sound:
  assumes "solver_ok solve" and "resolver_ok R" and "distinct (map dep_addr ds)"
  shows "case resolve L solve R ds of
      Inr found \<Rightarrow> fst ` set found = dep_addr ` set ds
        \<and> (\<forall>d \<in> set ds. \<exists>vendor v vd vs. map_of found (dep_addr d) = Some (vendor, dep_name d, v)
          \<and> req_matches L (dep_version d) v \<and> (\<forall>w. dep_vendor d = Some w \<longrightarrow> w = vendor)
          \<and> map_of (rs_vendors R) vendor = Some vd \<and> vd_options vd (dep_name d) = Ok vs \<and> v \<in> set vs)
    | Inl f \<Rightarrow> (\<exists>d \<in> set ds. build_requirement L R d = Inl f \<and> f = Err (RRequirement (dep_name d) (dep_version d)))
          \<or> (\<exists>reason. f = Err (RResolution reason))"
proof (cases "resolve L solve R ds")
  case (Inr found)
  from resolve_OkE [OF Inr assms(1)] obtain reqs sol where r: "mapR (build_requirement L R) ds = Ok reqs"
    "solution_ok (provide_for L R) reqs sol" "collect R ds sol [] = Ok found" by blast
  show ?thesis
    using resolve_found [OF assms(2,3) r] resolve_addrs [OF Inr assms]
    by (fastforce simp: Inr ev_matches_def offered_def)
next
  case (Inl f)
  then show ?thesis using resolve_Inl [OF Inl assms(1,2)] by simp
qed

text \<open>A solver that proposes the last matching version of every requirement, in the provider's
  order, and checks the proposal.\<close>

definition eager_solver :: "('v, 'q) solver" where
  "eager_solver P reqs =
     (let sol = map (\<lambda>req. (fst req, last (pv_sort P (snd req)))) reqs
      in if solution_ok P reqs sol then Inr sol else Inl ''conflict'')"

lemma eager_solver_ok: "solver_ok eager_solver"
  by (simp add: solver_ok_def eager_solver_def Let_def)

definition example_vendor :: "(nat, nat, nat) vendor" where
  "example_vendor = \<lparr>vd_options = (\<lambda>_. Ok [1, 2]), vd_resolve = (\<lambda>n v. new_definition ''source'' ''image'' n []),
     vd_deps = (\<lambda>_ _. Ok None)\<rparr>"

definition example_resolver :: "(nat, nat, nat) resolver" where
  "example_resolver = snd (build_db ''gcc'' (add_vendor ''hub'' example_vendor resolver_default))"

definition example_dep :: "nat dependency" where
  "example_dep = \<lparr>dep_addr = Addr [''gcc''], dep_kind = ''image'', dep_name = ''gcc'', dep_version = 1, dep_vendor = None\<rparr>"

lemma example_resolver_ok: "resolver_ok example_resolver"
proof -
  let ?R = "add_vendor ''hub'' example_vendor resolver_default"
  have "resolver_ok ?R" by (rule add_vendor_ok [OF resolver_default_ok]) (simp add: resolver_default_def)
  moreover have "build_db ''gcc'' ?R = (Ok (), snd (build_db ''gcc'' ?R))"
    by (simp add: build_db_def add_vendor_def resolver_default_def build_db_step_def example_vendor_def add_versions_def)
  ultimately show ?thesis unfolding example_resolver_def by (rule build_db_keeps_ok)
qed

lemma example_resolver_simps:
  "rs_names example_resolver = [''gcc'']" "rs_vendors example_resolver = [(''hub'', example_vendor)]"
  "rs_sets example_resolver = [(''gcc'', Single [ev_new ''hub'' 1, ev_new ''hub'' 2])]"
  by (simp_all add: example_resolver_def build_db_def add_vendor_def resolver_default_def build_db_step_def
      example_vendor_def add_versions_def)

theorem resolve_sound_witness:
  "\<exists>found v. resolve example_crates eager_solver example_resolver [example_dep] = Ok found
    \<and> map_of found (Addr [''gcc'']) = Some (''hub'', ''gcc'', v) \<and> 1 \<le> v"
proof -
  have "resolve example_crates eager_solver example_resolver [example_dep] = Ok [(Addr [''gcc''], ''hub'', ''gcc'', 2)]"
    by (simp add: resolve_def build_requirement_def example_dep_def example_resolver_simps versions_def ev_matches_def
        ev_new_def example_crates_def eager_solver_def Let_def provide_for_def sort_candidates_def solution_ok_def
        get_candidates_def get_dependencies_def example_vendor_def targets_def bt_extend_def)
  with resolve_sound [OF eager_solver_ok example_resolver_ok, of "[example_dep]" example_crates] show ?thesis
    by (auto simp: example_dep_def example_crates_def)
qed

text \<open>C21: asking the vendors for the versions of a package returns in two cases only: there is no
  vendor, or there is exactly one, it answers, and the package has not been asked for before. With a
  second vendor, or for a second dependency on the same package, the call blocks forever on the
  guard it holds, unless a vendor fails first.\<close>

theorem build_db_returns:
  "(fst (build_db name R) = Ok () \<longleftrightarrow>
      rs_vendors R = []
    \<or> (\<exists>n vd vs. rs_vendors R = [(n, vd)] \<and> vd_options vd name = Ok vs \<and> map_of (rs_sets R) name = None))
   \<and> ((\<forall>nv \<in> set (rs_vendors R). \<exists>vs. vd_options (snd nv) name = Ok vs) \<and> fst (build_db name R) \<noteq> Ok ()
      \<longrightarrow> fst (build_db name R) = Fail RNeverReturns)"
proof -
  consider (none) "rs_vendors R = []" | (one) nv where "rs_vendors R = [nv]" | (more) nv nv' nvs where "rs_vendors R = nv # nv' # nvs"
    by (metis neq_Nil_conv)
  then show ?thesis
  proof cases
    case none
    then show ?thesis by (simp add: build_db_def)
  next
    case one
    then show ?thesis
      by (cases nv) (auto simp: build_db_def build_db_step_run bindS_def add_versions_def Let_def split: sum.splits option.splits prod.splits)
  next
    case more
    then show ?thesis using add_versions_Ok(4) [of name "fst nv" _ R]
      by (auto simp: build_db_def build_db_step_run bindS_def add_versions_def Let_def split: sum.splits option.splits prod.splits)
  qed
qed

theorem build_db_returns_witness:
  "fst (build_db ''gcc'' (add_vendor ''hub'' example_vendor (add_vendor ''quay'' example_vendor resolver_default)))
     = Fail RNeverReturns"
proof -
  let ?R = "add_vendor ''hub'' example_vendor (add_vendor ''quay'' example_vendor resolver_default)"
  have "rs_vendors ?R = [(''hub'', example_vendor), (''quay'', example_vendor)]"
    by (simp add: add_vendor_def resolver_default_def)
  then show ?thesis using build_db_returns [of "''gcc''" ?R] by (simp add: example_vendor_def)
qed

text \<open>a dependency of a candidate whose requirement no known version satisfies is not
  reported to the solver at all, while the same requirement of the project is an error.\<close>

lemma unmatched_dependency_dropped:
  assumes "map_of (rs_vendors R) (ev_vendor e) = Some vd" and "vd_deps vd name (ev_version e) = Ok (Some [(n, q)])"
    and "n \<in> set (rs_names R)" and "\<forall>v \<in> set (versions R n). \<not> ev_matches L q v"
  shows "get_dependencies L R name e = Ok (Known [])
    \<and> build_requirement L R \<lparr>dep_addr = a, dep_kind = k, dep_name = n, dep_version = q, dep_vendor = w\<rparr> = Fail (RRequirement n q)"
  using assms by (auto simp: get_dependencies_def build_requirement_def Let_def filter_empty_conv)

lemma unmatched_dependency_dropped_witness:
  "get_dependencies example_crates (example_resolver\<lparr>rs_vendors := [(''hub'', example_vendor\<lparr>vd_deps := \<lambda>_ _. Ok (Some [(''gcc'', 7)])\<rparr>)]\<rparr>)
     ''app'' (ev_new ''hub'' 1) = Ok (Known [])"
  using unmatched_dependency_dropped [of "example_resolver\<lparr>rs_vendors := [(''hub'', example_vendor\<lparr>vd_deps := \<lambda>_ _. Ok (Some [(''gcc'', 7)])\<rparr>)]\<rparr>"
      "ev_new ''hub'' 1" "example_vendor\<lparr>vd_deps := \<lambda>_ _. Ok (Some [(''gcc'', 7)])\<rparr>" "''app''" "''gcc''" 7 example_crates]
  by (simp add: ev_new_def example_resolver_simps versions_def ev_matches_def example_crates_def)

end
