(* ===== verification/Build_Context.thy ===== *)
theory Build_Context
  imports Config_Node Storage
begin

text \<open>
  The build context: configuration lookup (\<open>crates/edo/src/context/config.rs\<close>), the registry
  of component constructors (\<open>registry.rs\<close>), the context that collects caches, farms and
  transforms (\<open>crates/edo/src/context/mod.rs\<close>) and the snapshot given to transforms
  (\<open>handle.rs\<close>).

  Components other than storage backends have one opaque type; a backend is a reference to
  its shared state, as in theory \<open>Storage\<close>. A constructor reads the address, the node and
  the configuration; concurrent maps whose order does not matter are sorted maps.
\<close>

section \<open>Configuration\<close>

type_synonym config_map = "(string \<times> nat) list"

definition config_get :: "config_map \<Rightarrow> string \<Rightarrow> nat option" where
  "config_get c key = map_of c key"

definition config_merge :: "config_map \<Rightarrow> config_map \<Rightarrow> config_map" where
  "config_merge right c = bt_extend right c"

text \<open>\<open>Config::load\<close> of a file that is missing, unreadable, malformed or parsed.\<close>

datatype 'd disk_file = Missing | Unreadable | Malformed | Contents 'd

definition config_load :: "config_map disk_file \<Rightarrow> (('v, 'q) context_error, config_map) res" where
  "config_load f = (case f of Missing \<Rightarrow> Ok [] | Unreadable \<Rightarrow> Fail CIo | Malformed \<Rightarrow> Fail CDeserialize | Contents c \<Rightarrow> Ok c)"

text \<open>\<open>Definable::new\<close>: the inline \<open>config\<close> block, else the entry of the global configuration,
  else the default; the component itself is built after the configuration has been read.\<close>

definition config_node :: "string \<Rightarrow> config_map \<Rightarrow> nat \<Rightarrow> ('v, 'q, 'f) nheap \<Rightarrow> nat option" where
  "config_node key c r h =
     (case Option.bind (get_table (cell h r)) (\<lambda>t. map_of t ''config'') of
        Some n \<Rightarrow> Some n
      | None \<Rightarrow> config_get c key)"

definition definable_new :: "string \<Rightarrow> (nat \<Rightarrow> ('e, 'k) res) \<Rightarrow> (nat \<Rightarrow> ('e, 'm) res) \<Rightarrow> ('k \<Rightarrow> 'm \<Rightarrow> ('e, 'm) res) \<Rightarrow> 'k
    \<Rightarrow> config_map \<Rightarrow> nat \<Rightarrow> ('v, 'q, 'f) nheap \<Rightarrow> ('e, 'm) res" where
  "definable_new key config_from from_node set_config dflt c r h =
     bindR (case config_node key c r h of
              None \<Rightarrow> Ok None
            | Some n \<Rightarrow> bindR (config_from n) (\<lambda>k. Ok (Some k))) (\<lambda>found.
     bindR (from_node r) (\<lambda>me.
     set_config (case found of Some k \<Rightarrow> k | None \<Rightarrow> dflt) me))"

section \<open>The registry\<close>

type_synonym ('c, 'v, 'q, 'f) handler = "addr \<Rightarrow> nat \<Rightarrow> ('v, 'q, 'f) nheap \<Rightarrow> config_map \<Rightarrow> (('v, 'q) context_error, 'c) res"

record ('c, 'v, 'q, 'f) registry =
  rg_backends :: "(string \<times> (nat, 'v, 'q, 'f) handler) list"
  rg_farms :: "(string \<times> ('c, 'v, 'q, 'f) handler) list"
  rg_sources :: "(string \<times> ('c, 'v, 'q, 'f) handler) list"
  rg_transforms :: "(string \<times> ('c, 'v, 'q, 'f) handler) list"
  rg_vendors :: "(string \<times> ('c, 'v, 'q, 'f) handler) list"

definition registry_default :: "('c, 'v, 'q, 'f) registry" where
  "registry_default = \<lparr>rg_backends = [], rg_farms = [], rg_sources = [], rg_transforms = [], rg_vendors = []\<rparr>"

definition register_backend :: "string \<Rightarrow> (nat, 'v, 'q, 'f) handler \<Rightarrow> ('c, 'v, 'q, 'f) registry \<Rightarrow> ('c, 'v, 'q, 'f) registry" where
  "register_backend name f R = R\<lparr>rg_backends := bt_insert name f (rg_backends R)\<rparr>"

definition register_farm :: "string \<Rightarrow> ('c, 'v, 'q, 'f) handler \<Rightarrow> ('c, 'v, 'q, 'f) registry \<Rightarrow> ('c, 'v, 'q, 'f) registry" where
  "register_farm name f R = R\<lparr>rg_farms := bt_insert name f (rg_farms R)\<rparr>"

definition register_source :: "string \<Rightarrow> ('c, 'v, 'q, 'f) handler \<Rightarrow> ('c, 'v, 'q, 'f) registry \<Rightarrow> ('c, 'v, 'q, 'f) registry" where
  "register_source name f R = R\<lparr>rg_sources := bt_insert name f (rg_sources R)\<rparr>"

definition register_transform :: "string \<Rightarrow> ('c, 'v, 'q, 'f) handler \<Rightarrow> ('c, 'v, 'q, 'f) registry \<Rightarrow> ('c, 'v, 'q, 'f) registry" where
  "register_transform name f R = R\<lparr>rg_transforms := bt_insert name f (rg_transforms R)\<rparr>"

definition register_vendor :: "string \<Rightarrow> ('c, 'v, 'q, 'f) handler \<Rightarrow> ('c, 'v, 'q, 'f) registry \<Rightarrow> ('c, 'v, 'q, 'f) registry" where
  "register_vendor name f R = R\<lparr>rg_vendors := bt_insert name f (rg_vendors R)\<rparr>"

text \<open>The five lookups have one shape.\<close>

definition provide :: "string \<Rightarrow> (string \<times> ('c, 'v, 'q, 'f) handler) list \<Rightarrow> ('c, 'v, 'q, 'f) handler" where
  "provide component hs a r h c =
     bindR (ok_or (CField ''kind'' ''string'') (get_kind (cell h r))) (\<lambda>kind.
     bindR (ok_or (CNoProvider component kind) (map_of hs kind)) (\<lambda>constructor.
     constructor a r h c))"

definition registry_backend :: "('c, 'v, 'q, 'f) registry \<Rightarrow> (nat, 'v, 'q, 'f) handler" where
  "registry_backend R = provide ''backend'' (rg_backends R)"

definition registry_farm :: "('c, 'v, 'q, 'f) registry \<Rightarrow> ('c, 'v, 'q, 'f) handler" where
  "registry_farm R = provide ''environment'' (rg_farms R)"

definition registry_source :: "('c, 'v, 'q, 'f) registry \<Rightarrow> ('c, 'v, 'q, 'f) handler" where
  "registry_source R = provide ''source'' (rg_sources R)"

definition registry_transform :: "('c, 'v, 'q, 'f) registry \<Rightarrow> ('c, 'v, 'q, 'f) handler" where
  "registry_transform R = provide ''transform'' (rg_transforms R)"

definition registry_vendor :: "('c, 'v, 'q, 'f) registry \<Rightarrow> ('c, 'v, 'q, 'f) handler" where
  "registry_vendor R = provide ''vendor'' (rg_vendors R)"

section \<open>The context\<close>

record ('c, 'v, 'q, 'f) ctx =
  cx_config :: config_map
  cx_storage :: storage
  cx_registry :: "('c, 'v, 'q, 'f) registry"
  cx_transforms :: "(addr \<times> 'c) list"
  cx_farms :: "(addr \<times> 'c) list"
  cx_args :: "(string \<times> string) list"

text \<open>The mutable state of a session: the node heap and the context; theory \<open>Project\<close> adds the
  lock file. \<open>new_local\<close> below is \<open>LocalBackend::new\<close>.\<close>

record ('c, 'v, 'q, 'f) session =
  se_heap :: "('v, 'q, 'f) nheap"
  se_ctx :: "('c, 'v, 'q, 'f) ctx"

type_synonym ('c, 'v, 'q, 'f, 'z, 'a) session_action =
  "(('c, 'v, 'q, 'f, 'z) session_scheme, ('v, 'q) context_error, 'a) action"

definition ctx_update :: "(('c, 'v, 'q, 'f) ctx \<Rightarrow> ('c, 'v, 'q, 'f) ctx) \<Rightarrow> ('c, 'v, 'q, 'f, 'z, unit) session_action" where
  "ctx_update f = modifyS (\<lambda>s. s\<lparr>se_ctx := f (se_ctx s)\<rparr>)"

definition construct :: "(('c, 'v, 'q, 'f) registry \<Rightarrow> ('d, 'v, 'q, 'f) handler) \<Rightarrow> addr \<Rightarrow> nat
    \<Rightarrow> ('c, 'v, 'q, 'f, 'z, 'd) session_action" where
  "construct get a r s = (get (cx_registry (se_ctx s)) a r (se_heap s) (cx_config (se_ctx s)), s)"

definition add_config :: "config_map \<Rightarrow> ('c, 'v, 'q, 'f, 'z, unit) session_action" where
  "add_config c = ctx_update (\<lambda>x. x\<lparr>cx_config := config_merge c (cx_config x)\<rparr>)"

definition route_cache :: "addr \<Rightarrow> nat \<Rightarrow> storage \<Rightarrow> storage" where
  "route_cache a b st =
     (if addr_to_string a = ''//edo-build-cache'' then set_build_cache b st
      else if addr_to_string a = ''//edo-output-cache'' then set_output_cache b st
      else add_source_cache (addr_to_string a) b st)"

definition add_cache :: "(nat, 'v, 'q, 'f) handler \<Rightarrow> addr \<Rightarrow> nat \<Rightarrow> ('c, 'v, 'q, 'f, 'z, unit) session_action" where
  "add_cache new_local a r =
     bindS (getS (\<lambda>s. get_kind (cell (se_heap s) r))) (\<lambda>kind.
       case kind of
         None \<Rightarrow> liftS (Inl Panic)
       | Some k \<Rightarrow>
           bindS (construct (\<lambda>R. if k = ''local'' \<or> k = ''edo:local'' then new_local else registry_backend R) a r) (\<lambda>b.
           ctx_update (\<lambda>x. x\<lparr>cx_storage := route_cache a b (cx_storage x)\<rparr>)))"

definition add_transform :: "addr \<Rightarrow> nat \<Rightarrow> ('c, 'v, 'q, 'f, 'z, unit) session_action" where
  "add_transform a r = bindS (construct registry_transform a r) (\<lambda>c.
     ctx_update (\<lambda>x. x\<lparr>cx_transforms := bt_insert a c (cx_transforms x)\<rparr>))"

definition add_farm :: "addr \<Rightarrow> nat \<Rightarrow> ('c, 'v, 'q, 'f, 'z, unit) session_action" where
  "add_farm a r = bindS (construct registry_farm a r) (\<lambda>c.
     ctx_update (\<lambda>x. x\<lparr>cx_farms := bt_insert a c (cx_farms x)\<rparr>))"

definition add_source :: "addr \<Rightarrow> nat \<Rightarrow> ('c, 'v, 'q, 'f, 'z, 'c) session_action" where
  "add_source a r = construct registry_source a r"

definition ctx_add_vendor :: "addr \<Rightarrow> nat \<Rightarrow> ('c, 'v, 'q, 'f, 'z, 'c) session_action" where
  "ctx_add_vendor a r = construct registry_vendor a r"

definition get_transform :: "addr \<Rightarrow> ('c, 'v, 'q, 'f) ctx \<Rightarrow> 'c option" where
  "get_transform a x = map_of (cx_transforms x) a"

definition get_farm :: "addr \<Rightarrow> ('c, 'v, 'q, 'f) ctx \<Rightarrow> 'c option" where
  "get_farm a x = map_of (cx_farms x) a"

text \<open>\<open>Context::prune\<close>: for every transform its identifier, then the local cache.\<close>

definition ctx_prune :: "('c \<Rightarrow> ('i storage_error, 'w artifact_id) res) \<Rightarrow> (nat \<Rightarrow> ('s, 'u, 'i, 'w) backend)
    \<Rightarrow> ('c, 'v, 'q, 'f) ctx \<Rightarrow> (nat \<Rightarrow> 's) \<Rightarrow> ('i storage_error, unit) res \<times> (nat \<Rightarrow> 's)" where
  "ctx_prune unique_id V x =
     foreachS (\<lambda>(_, t). bindS (liftS (unique_id t)) (\<lambda>i. prune_local V (cx_storage x) i)) (cx_transforms x)"

section \<open>The handle\<close>

record 'c handle =
  hd_config :: config_map
  hd_storage :: storage
  hd_transforms :: "addr \<rightharpoonup> 'c"
  hd_farms :: "addr \<rightharpoonup> 'c"
  hd_args :: "(string \<times> string) list"
  hd_cancelled :: bool

definition get_handle :: "('c, 'v, 'q, 'f) ctx \<Rightarrow> 'c handle" where
  "get_handle x = \<lparr>hd_config = cx_config x, hd_storage = cx_storage x, hd_transforms = map_of (cx_transforms x),
     hd_farms = map_of (cx_farms x), hd_args = cx_args x, hd_cancelled = False\<rparr>"

definition handle_get :: "'c handle \<Rightarrow> addr \<Rightarrow> 'c option" where
  "handle_get hdl a = hd_transforms hdl a"

definition create_environment :: "('c \<Rightarrow> (('v, 'q) context_error, 'n) res) \<Rightarrow> 'c handle \<Rightarrow> addr \<Rightarrow> (('v, 'q) context_error, 'n) res" where
  "create_environment create hdl a = bindR (ok_or (CNoEnvironmentFound a) (hd_farms hdl a)) create"

section \<open>Laws\<close>

lemma provide_run:
  assumes "get_kind (cell h r) = Some k"
  shows "provide component hs a r h c = (case map_of hs k of None \<Rightarrow> Fail (CNoProvider component k) | Some f \<Rightarrow> f a r h c)"
  using assms by (simp add: provide_def split: option.split)

text \<open>Pruning after a list of identifiers.\<close>

lemma prune_ids:
  assumes "local_inv vshow vparse s" and "\<And>i. i \<in> set is \<Longrightarrow> id_prefix vshow i \<noteq> ''*''"
  shows "\<exists>s'. foreachS (local_prune vshow vparse) is s = (Ok (), s') \<and> local_inv vshow vparse s'
    \<and> local_lookup vparse s' = (\<lambda>j. if \<exists>i \<in> set is. id_prefix vshow j = id_prefix vshow i \<and> j \<noteq> i then None else local_lookup vparse s j)"
  using assms
proof (induction "is" arbitrary: s)
  case (Cons i "is")
  from local_prune_ok [OF Cons.prems(1) Cons.prems(2) [of i]] obtain s1 where
    s1: "local_prune vshow vparse i s = (Ok (), s1)" "local_inv vshow vparse s1"
      "local_lookup vparse s1 = (\<lambda>j. if id_prefix vshow j = id_prefix vshow i \<and> j \<noteq> i then None else local_lookup vparse s j)"
    by auto
  from Cons.IH [OF s1(2)] Cons.prems(2) obtain s2 where
    "foreachS (local_prune vshow vparse) is s1 = (Ok (), s2)" "local_inv vshow vparse s2"
    "local_lookup vparse s2 = (\<lambda>j. if \<exists>i \<in> set is. id_prefix vshow j = id_prefix vshow i \<and> j \<noteq> i then None else local_lookup vparse s1 j)"
    by auto
  with s1 show ?case by (auto simp: fun_eq_iff)
qed simp

lemma ctx_prune_local:
  assumes "\<And>a t. (a, t) \<in> set ts \<Longrightarrow> unique_id t = Ok (uid t)"
  shows "foreachS (\<lambda>(_, t). bindS (liftS (unique_id t)) (\<lambda>i. prune_local (\<lambda>_. local_ops hash vshow vparse) st i)) ts h
    = (let (r, s) = foreachS (local_prune vshow vparse) (map (\<lambda>e. uid (snd e)) ts) (h (st_local st))
       in (impl_err r, h(st_local st := s)))"
  using assms
proof (induction ts arbitrary: h)
  case (Cons e ts)
  obtain a t where e: "e = (a, t)" by (cases e)
  have u: "unique_id t = Ok (uid t)" using Cons.prems e by auto
  have step: "prune_local (\<lambda>_. local_ops hash vshow vparse) st (uid t) h
      = (let (r, s) = local_prune vshow vparse (uid t) (h (st_local st)) in (impl_err r, h(st_local st := s)))"
    by (simp add: prune_local_def on_local_def local_ops_def impl_step_def split_def Let_def)
  show ?case
  proof (cases "local_prune vshow vparse (uid t) (h (st_local st))")
    case (Pair r s)
    show ?thesis
    proof (cases r)
      case (Inl f)
      then show ?thesis by (cases f) (auto simp: e u step Pair impl_err_def)
    next
      case (Inr x)
      have "foreachS (\<lambda>(_, t). bindS (liftS (unique_id t)) (\<lambda>i. prune_local (\<lambda>_. local_ops hash vshow vparse) st i)) ts (h(st_local st := s))
        = (let (r, s2) = foreachS (local_prune vshow vparse) (map (\<lambda>e. uid (snd e)) ts) ((h(st_local st := s)) (st_local st))
           in (impl_err r, (h(st_local st := s))(st_local st := s2)))"
        by (rule Cons.IH) (use Cons.prems in auto)
      then show ?thesis by (simp add: e u step Pair Inr impl_err_def Let_def split_def del: action_simps) (simp add: fun_upd_def)
    qed
  qed
qed (simp add: impl_err_def)

section \<open>Properties\<close>

text \<open>a node is built by the constructor registered last for its kind, whatever else is
  registered before and after; a kind nobody registered is refused by name, and a node that is
  not a definition is refused for its missing kind.\<close>

lemma registry_dispatch:
  "registry_transform (register_transform name f R) a r h c =
     (case get_kind (cell h r) of
        None \<Rightarrow> Fail (CField ''kind'' ''string'')
      | Some k \<Rightarrow> if k = name then f a r h c else registry_transform R a r h c)
   \<and> registry_transform (register_farm name f (register_source name f (register_vendor name f (register_backend name g R)))) a r h c
       = registry_transform R a r h c
   \<and> registry_transform registry_default a r h c =
     (case get_kind (cell h r) of None \<Rightarrow> Fail (CField ''kind'' ''string'') | Some k \<Rightarrow> Fail (CNoProvider ''transform'' k))"
  by (auto simp: registry_transform_def register_transform_def register_farm_def register_source_def register_vendor_def
      register_backend_def registry_default_def provide_def split: option.split)

text \<open>pruning the context with a sound local cache succeeds and removes exactly the stored
  artifacts that share the prefix of some transform's current identifier without being that
  identifier; the identifiers of all transforms with pairwise different prefixes survive.\<close>

lemma context_prune_laws:
  assumes "local_inv vshow vparse (h (st_local (cx_storage x)))"
    and "\<forall>e \<in> set (cx_transforms x). unique_id (snd e) = Ok (uid (snd e)) \<and> id_prefix vshow (uid (snd e)) \<noteq> ''*''"
  shows "\<exists>s'. ctx_prune unique_id (\<lambda>_. local_ops hash vshow vparse) x h = (Ok (), h(st_local (cx_storage x) := s'))
    \<and> local_inv vshow vparse s'
    \<and> (\<forall>j. local_lookup vparse s' j =
         (if \<exists>e \<in> set (cx_transforms x). id_prefix vshow j = id_prefix vshow (uid (snd e)) \<and> j \<noteq> uid (snd e)
          then None else local_lookup vparse (h (st_local (cx_storage x))) j))"
proof -
  let ?is = "map (\<lambda>e. uid (snd e)) (cx_transforms x)"
  have "\<And>i. i \<in> set ?is \<Longrightarrow> id_prefix vshow i \<noteq> ''*''" using assms(2) by auto
  from prune_ids [OF assms(1) this] obtain s' where s':
    "foreachS (local_prune vshow vparse) ?is (h (st_local (cx_storage x))) = (Ok (), s')" "local_inv vshow vparse s'"
    "local_lookup vparse s' = (\<lambda>j. if \<exists>i \<in> set ?is. id_prefix vshow j = id_prefix vshow i \<and> j \<noteq> i then None
       else local_lookup vparse (h (st_local (cx_storage x))) j)" by blast
  have "ctx_prune unique_id (\<lambda>_. local_ops hash vshow vparse) x h = (Ok (), h(st_local (cx_storage x) := s'))"
    unfolding ctx_prune_def using assms(2)
    by (subst ctx_prune_local [where uid = uid]) (auto simp: s'(1) impl_err_def)
  moreover have "\<forall>j. local_lookup vparse s' j =
      (if \<exists>e \<in> set (cx_transforms x). id_prefix vshow j = id_prefix vshow (uid (snd e)) \<and> j \<noteq> uid (snd e)
       then None else local_lookup vparse (h (st_local (cx_storage x))) j)"
    unfolding s'(3) by simp
  ultimately show ?thesis using s'(2) by blast
qed

definition example_ctx :: "(nat artifact_id, nat, nat, nat) ctx" where
  "example_ctx = \<lparr>cx_config = [], cx_storage = storage_init 1, cx_registry = registry_default,
     cx_transforms = [(Addr [''gcc''], Id (Name ''gcc'') None None None ''h9'')], cx_farms = [], cx_args = []\<rparr>"

lemma context_prune_laws_witness:
  "\<exists>s'. ctx_prune Ok (\<lambda>_. example_ops) example_ctx example_heap = (Ok (), example_heap(1 := s'))
    \<and> local_lookup (\<lambda>_. None) s' example_id = None"
  using context_prune_laws [of "\<lambda>_. []" "\<lambda>_. None" example_heap example_ctx Ok "\<lambda>t. t" example_hash] example_inv
  by (auto simp: example_ctx_def storage_init_def example_heap_def id_prefix_def)

end
