(* ===== verification/Project.thy ===== *)
theory Project
  imports Schema Resolver Build_Context
begin

text \<open>
  Project loading (\<open>crates/edo/src/context/builder.rs\<close>) and the lock file
  (\<open>crates/edo/src/context/lock.rs\<close>): walking the directory tree, linking the sources of
  environments and transforms to the source nodes, resolving requirements or reusing the
  lock file, and registering everything with the context.

  The directory is the tree that \<open>read_dir\<close> gives, in its order, with the \<open>edo.toml\<close> files
  already parsed by the \<open>toml\<close> crate. BLAKE3, the JSON printer, the constructor of local
  backends, the vendor operations of a constructed vendor, the solver and whether the lock
  file can be written are the record \<open>world\<close>.
\<close>

section \<open>The project and its sources\<close>

record project =
  pj_config :: config_map
  pj_source_caches :: "(addr \<times> nat) list"
  pj_build_cache :: "nat option"
  pj_output_cache :: "nat option"
  pj_vendors :: "(addr \<times> nat) list"
  pj_environments :: "(addr \<times> nat) list"
  pj_transforms :: "(addr \<times> nat) list"
  pj_need :: "(addr \<times> nat) list"

definition project_empty :: project where
  "project_empty = \<lparr>pj_config = [], pj_source_caches = [], pj_build_cache = None, pj_output_cache = None,
     pj_vendors = [], pj_environments = [], pj_transforms = [], pj_need = []\<rparr>"

definition absolute :: "addr \<Rightarrow> string \<Rightarrow> ('e, addr) res" where
  "absolute namespace a = (if starts_with ''//'' a then addr_parse a else Ok (addr_join namespace a))"

text \<open>\<open>handle_sources\<close>: the \<open>source\<close> field of a definition, made absolute.\<close>

definition handle_item :: "addr \<Rightarrow> nat \<Rightarrow> ('v, 'q, 'f, nat) node_action" where
  "handle_item namespace item =
     bindS (getS (\<lambda>h. as_string (cell h item))) (\<lambda>a.
     bindS (liftS (ok_or (CField ''requires'' ''array of string / string'') a)) (\<lambda>a.
     bindS (liftS (absolute namespace a)) (\<lambda>caddr.
     new_node (DString (addr_to_string caddr)))))"

definition handle_field :: "addr \<Rightarrow> (string \<times> nat) list \<Rightarrow> ('v, 'q, 'f, (string \<times> nat) list) node_action" where
  "handle_field namespace table =
     (case map_of table ''source'' of
        None \<Rightarrow> returnS table
      | Some src \<Rightarrow>
          bindS (getS (\<lambda>h. cell h src)) (\<lambda>d.
            case as_string d of
              Some a \<Rightarrow>
                bindS (liftS (absolute namespace a)) (\<lambda>caddr.
                bindS (new_node (DString (addr_to_string caddr))) (\<lambda>n.
                returnS (bt_insert ''source'' n table)))
            | None \<Rightarrow>
                (case as_list d of
                   Some items \<Rightarrow>
                     bindS (mapS (handle_item namespace) items) (\<lambda>rs.
                     bindS (new_node (DList rs)) (\<lambda>n.
                     returnS (bt_insert ''source'' n table)))
                 | None \<Rightarrow> returnS table)))"

definition handle_sources :: "addr \<Rightarrow> nat \<Rightarrow> ('v, 'q, 'f, nat) node_action" where
  "handle_sources namespace r =
     bindS (getS (\<lambda>h. cell h r)) (\<lambda>d.
     bindS (liftS (ok_or CNode (get_id d))) (\<lambda>i.
     bindS (liftS (ok_or CNode (get_kind d))) (\<lambda>kind.
     bindS (liftS (ok_or CNode (get_name d))) (\<lambda>name.
     bindS (liftS (ok_or CNode (get_table d))) (\<lambda>table.
     bindS (handle_field namespace table) (\<lambda>table'.
     new_definition i kind name table'))))))"

section \<open>Loading one file\<close>

definition at_addrs :: "addr \<Rightarrow> (string \<times> nat) list \<Rightarrow> (addr \<times> nat) list" where
  "at_addrs namespace es = map (\<lambda>e. (addr_join namespace (fst e), snd e)) es"

definition handle_all :: "addr \<Rightarrow> (string \<times> nat) list \<Rightarrow> (addr \<times> nat) list \<Rightarrow> ('v, 'q, 'f, (addr \<times> nat) list) node_action" where
  "handle_all namespace = foldS (\<lambda>e m. bindS (handle_sources namespace (snd e)) (\<lambda>c.
     returnS (bt_insert (addr_join namespace (fst e)) c m)))"

definition load_toml :: "('v, 'q, 'f) crates \<Rightarrow> addr \<Rightarrow> 'f schema_v1 \<Rightarrow> project
    \<Rightarrow> ('v, 'q, 'f, (addr \<times> nat) list \<times> project) node_action" where
  "load_toml L namespace config p =
     bindS (get_config L config) (\<lambda>cfg.
     bindS (get_sources L config) (\<lambda>srcs.
     bindS (get_requires L config) (\<lambda>reqs.
     bindS (get_source_caches L config) (\<lambda>caches.
     bindS (get_build_cache L config) (\<lambda>build.
     bindS (get_output_cache L config) (\<lambda>output.
     bindS (bindS (get_environments L config) (\<lambda>es. handle_all namespace es (pj_environments p))) (\<lambda>envs.
     bindS (bindS (get_transforms L config) (\<lambda>ts. handle_all namespace ts (pj_transforms p))) (\<lambda>transforms.
     bindS (get_vendors L config) (\<lambda>vendors.
     returnS
       (bt_extend (at_addrs namespace reqs) (bt_extend (at_addrs namespace srcs) []),
        p\<lparr>pj_config := bt_extend cfg (pj_config p),
          pj_need := bt_extend (at_addrs namespace reqs) (pj_need p),
          pj_source_caches := bt_extend (at_addrs namespace caches) (pj_source_caches p),
          pj_build_cache := build,
          pj_output_cache := output,
          pj_environments := envs,
          pj_transforms := transforms,
          pj_vendors := bt_extend (at_addrs namespace vendors) (pj_vendors p)\<rparr>))))))))))"

text \<open>The directory tree. A directory that cannot be read, or an entry that cannot, fails.\<close>

datatype 'f entry = EFile string "'f schema_v1 disk_file" | EDir string "'f entry list" | EOther string | EError string

definition load_file :: "('v, 'q, 'f) crates \<Rightarrow> addr \<Rightarrow> 'f schema_v1 disk_file \<Rightarrow> project
    \<Rightarrow> ('v, 'q, 'f, (addr \<times> nat) list \<times> project) node_action" where
  "load_file L namespace f p =
     (case f of
        Missing \<Rightarrow> liftS (Fail CIo)
      | Unreadable \<Rightarrow> liftS (Fail CIo)
      | Malformed \<Rightarrow> liftS (Fail CDeserialize)
      | Contents config \<Rightarrow> load_toml L namespace config p)"

fun walk :: "('v, 'q, 'f) crates \<Rightarrow> addr \<Rightarrow> 'f entry list \<Rightarrow> (addr \<times> nat) list \<times> project
    \<Rightarrow> ('v, 'q, 'f, (addr \<times> nat) list \<times> project) node_action" where
  "walk L namespace [] st = returnS st"
| "walk L namespace (EFile name f # es) st =
     (if name = ''edo.toml''
      then bindS (load_file L namespace f (snd st)) (\<lambda>(srcs, p). walk L namespace es (bt_extend srcs (fst st), p))
      else walk L namespace es st)"
| "walk L namespace (EDir name ds # es) st =
     bindS (walk L (addr_join namespace name) ds st) (walk L namespace es)"
| "walk L namespace (EOther _ # es) st = walk L namespace es st"
| "walk L namespace (EError _ # es) st = liftS (Fail CIo)"

section \<open>Linking sources\<close>

definition resolve_item :: "(addr \<times> nat) list \<Rightarrow> nat \<Rightarrow> ('v, 'q, 'f, nat) node_action" where
  "resolve_item sources item =
     bindS (getS (\<lambda>h. as_string (cell h item))) (\<lambda>s.
     bindS (liftS (ok_or (CField ''source'' ''string'') s)) (\<lambda>s.
     bindS (liftS (addr_parse s)) (\<lambda>a.
     liftS (ok_or (CNotValidSource (addr_to_string a)) (map_of sources a)))))"

definition resolve_field :: "(addr \<times> nat) list \<Rightarrow> (string \<times> nat) list \<Rightarrow> ('v, 'q, 'f, (string \<times> nat) list) node_action" where
  "resolve_field sources table =
     (case map_of table ''source'' of
        None \<Rightarrow> returnS table
      | Some src \<Rightarrow>
          bindS (getS (\<lambda>h. as_list (cell h src))) (\<lambda>l.
            case l of
              Some items \<Rightarrow>
                bindS (mapS (resolve_item sources) items) (\<lambda>rs.
                bindS (new_node (DList rs)) (\<lambda>n.
                returnS (bt_insert ''source'' n table)))
            | None \<Rightarrow>
                bindS (resolve_item sources src) (\<lambda>n.
                returnS (bt_insert ''source'' n table))))"

definition resolve_node :: "(addr \<times> nat) list \<Rightarrow> nat \<Rightarrow> ('v, 'q, 'f, unit) node_action" where
  "resolve_node sources r =
     bindS (getS (\<lambda>h. get_table (cell h r))) (\<lambda>t.
     bindS (liftS (ok_or (CField ''environment'' ''table'') t)) (\<lambda>table.
     bindS (resolve_field sources table) (\<lambda>table'.
     modifyS (node_set_table r table'))))"

definition resolve_sources :: "(addr \<times> nat) list \<Rightarrow> project \<Rightarrow> ('v, 'q, 'f, unit) node_action" where
  "resolve_sources sources p = foreachS (\<lambda>e. resolve_node sources (snd e)) (pj_environments p @ pj_transforms p)"

section \<open>The lock file\<close>

record lock =
  lk_digest :: string
  lk_content :: "(addr \<times> nat) list"

definition lock_new :: "string \<Rightarrow> lock" where
  "lock_new d = \<lparr>lk_digest = d, lk_content = []\<rparr>"

text \<open>The JSON document: addresses are written as text, nodes by \<open>Serialize for Node\<close>.\<close>

record 'f lock_doc =
  ld_lock_digest :: string
  ld_refs :: "(string \<times> 'f json) list"

definition node_text :: "('v, 'q, 'f) crates \<Rightarrow> ('v, 'q, 'f) nheap \<Rightarrow> nat \<Rightarrow> (('v, 'q) context_error, 'f json) res" where
  "node_text L h r = ok_or CSerialize (node_json (Suc (next_ref h)) L h r)"

definition lock_ser :: "('v, 'q, 'f) crates \<Rightarrow> ('v, 'q, 'f) nheap \<Rightarrow> lock \<Rightarrow> (('v, 'q) context_error, 'f lock_doc) res" where
  "lock_ser L h k =
     bindR (mapR (\<lambda>e. bindR (node_text L h (snd e)) (\<lambda>j. Ok (addr_to_string (fst e), j))) (lk_content k)) (\<lambda>refs.
     Ok \<lparr>ld_lock_digest = lk_digest k, ld_refs = refs\<rparr>)"

definition lock_de_entry :: "('v, 'q, 'f) crates \<Rightarrow> string \<times> 'f json \<Rightarrow> (addr \<times> nat) list \<Rightarrow> ('v, 'q, 'f, (addr \<times> nat) list) node_action" where
  "lock_de_entry L e m =
     bindS (liftS (addr_parse (fst e))) (\<lambda>a.
     bindS (json_de L (snd e)) (\<lambda>r.
     returnS (bt_insert a r m)))"

definition lock_de :: "('v, 'q, 'f) crates \<Rightarrow> 'f lock_doc \<Rightarrow> ('v, 'q, 'f, lock) node_action" where
  "lock_de L d =
     bindS (foldS (lock_de_entry L) (ld_refs d) []) (\<lambda>m.
     returnS \<lparr>lk_digest = ld_lock_digest d, lk_content = m\<rparr>)"

section \<open>Building\<close>

record ('c, 'v, 'q, 'f) world =
  wd_hash :: "string \<Rightarrow> string"
  wd_json_text :: "'f json \<Rightarrow> string"
  wd_new_local :: "(nat, 'v, 'q, 'f) handler"
  wd_vendor :: "'c \<Rightarrow> ('v, 'q, 'f) vendor"
  wd_solve :: "('v, 'q) solver"
  wd_writable :: bool

record ('c, 'v, 'q, 'f) project_session = "('c, 'v, 'q, 'f) session" +
  ps_lock :: "'f lock_doc disk_file"

type_synonym ('c, 'v, 'q, 'f, 'a) build_action = "(('c, 'v, 'q, 'f) project_session, ('v, 'q) context_error, 'a) action"

definition on_heap :: "('v, 'q, 'f, 'a) node_action \<Rightarrow> ('c, 'v, 'q, 'f, 'a) build_action" where
  "on_heap m s = (case m (se_heap s) of (x, h) \<Rightarrow> (x, s\<lparr>se_heap := h\<rparr>))"

text \<open>\<open>calculate_digest\<close>: the hash of the addresses and the serialised requirements.\<close>

definition calculate_digest :: "('v, 'q, 'f) crates \<Rightarrow> ('c, 'v, 'q, 'f) world \<Rightarrow> project \<Rightarrow> ('v, 'q, 'f) nheap
    \<Rightarrow> (('v, 'q) context_error, string) res" where
  "calculate_digest L W p h =
     bindR (mapR (\<lambda>e. bindR (node_text L h (snd e)) (\<lambda>j. Ok (addr_to_string (fst e) @ wd_json_text W j))) (pj_need p)) (\<lambda>parts.
     Ok (wd_hash W (concat parts)))"

definition register_all :: "project \<Rightarrow> ('c, 'v, 'q, 'f, unit) build_action" where
  "register_all p =
     bindS (foreachS (\<lambda>e. add_farm (fst e) (snd e)) (pj_environments p)) (\<lambda>_.
     foreachS (\<lambda>e. add_transform (fst e) (snd e)) (pj_transforms p))"

definition apply_lock :: "(addr \<times> nat) list \<Rightarrow> (addr \<times> nat) list \<Rightarrow> ('v, 'q, 'f, unit) node_action" where
  "apply_lock locked = foreachS (\<lambda>e.
     bindS (liftS (ok_or (CMalformedLock (fst e)) (map_of locked (fst e)))) (\<lambda>resolved.
     modifyS (\<lambda>h. set_data (snd e) (cell h resolved) h)))"

definition add_opt_cache :: "(nat, 'v, 'q, 'f) handler \<Rightarrow> string \<Rightarrow> nat option \<Rightarrow> ('c, 'v, 'q, 'f, unit) build_action" where
  "add_opt_cache new_local name c =
     (case c of
        None \<Rightarrow> returnS ()
      | Some r \<Rightarrow> bindS (liftS (addr_parse name)) (\<lambda>a. add_cache new_local a r))"

definition collect_vendors :: "('c, 'v, 'q, 'f) world \<Rightarrow> (addr \<times> nat) list
    \<Rightarrow> ('c, 'v, 'q, 'f, ('v, 'q, 'f) resolver) build_action" where
  "collect_vendors W vendors = foldS (\<lambda>e R.
     bindS (ctx_add_vendor (fst e) (snd e)) (\<lambda>c.
     returnS (add_vendor (addr_to_string (fst e)) (wd_vendor W c) R))) vendors resolver_default"

definition collect_deps_step :: "addr \<times> nat \<Rightarrow> ('v, 'q, 'f) resolver \<times> 'q dependency list
    \<Rightarrow> ('c, 'v, 'q, 'f, ('v, 'q, 'f) resolver \<times> 'q dependency list) build_action" where
  "collect_deps_step e acc =
     bindS (getS (\<lambda>s. map_err CSource (dep_from_node (fst e) (snd e) (se_heap s)))) (\<lambda>dep.
     bindS (liftS dep) (\<lambda>d.
     (case build_db (dep_name d) (fst acc) of
        (x, R) \<Rightarrow> bindS (liftS (map_err CSource x)) (\<lambda>_. returnS (R, snd acc @ [d])))))"

text \<open>One resolved requirement: the vendor makes its node, the lock records it, and its data
  replaces the data of the requirement's own node.\<close>

definition assign :: "('v, 'q, 'f) resolver \<Rightarrow> (addr \<times> nat) list \<Rightarrow> addr \<times> string \<times> string \<times> 'v \<Rightarrow> (addr \<times> nat) list
    \<Rightarrow> ('c, 'v, 'q, 'f, (addr \<times> nat) list) build_action" where
  "assign R need e locked =
     (case e of (a, vendor, name, version) \<Rightarrow>
       (case (map_of (rs_vendors R) vendor, map_of need a) of
          (Some vd, Some target) \<Rightarrow>
            bindS (on_heap (\<lambda>h. case vd_resolve vd name version h of (x, h') \<Rightarrow> (map_err CSource x, h'))) (\<lambda>resolved.
            bindS (on_heap (modifyS (\<lambda>h. set_data target (cell h resolved) h))) (\<lambda>_.
            returnS (bt_insert a resolved locked)))
        | _ \<Rightarrow> liftS (Inl Panic)))"

definition write_lock :: "('v, 'q, 'f) crates \<Rightarrow> ('c, 'v, 'q, 'f) world \<Rightarrow> lock \<Rightarrow> ('c, 'v, 'q, 'f, unit) build_action" where
  "write_lock L W k =
     (if \<not> wd_writable W then liftS (Fail CIo)
      else bindS (getS (\<lambda>s. lock_ser L (se_heap s) k)) (\<lambda>doc.
           bindS (liftS doc) (\<lambda>doc.
           modifyS (\<lambda>s. s\<lparr>ps_lock := Contents doc\<rparr>))))"

definition build_fresh :: "('v::linorder, 'q, 'f) crates \<Rightarrow> ('c, 'v, 'q, 'f) world \<Rightarrow> project \<Rightarrow> string
    \<Rightarrow> ('c, 'v, 'q, 'f, unit) build_action" where
  "build_fresh L W p digest =
     bindS (foreachS (\<lambda>e. add_cache (wd_new_local W) (fst e) (snd e)) (pj_source_caches p)) (\<lambda>_.
     bindS (add_opt_cache (wd_new_local W) ''//edo-build-cache'' (pj_build_cache p)) (\<lambda>_.
     bindS (add_opt_cache (wd_new_local W) ''//edo-output-cache'' (pj_output_cache p)) (\<lambda>_.
     bindS (collect_vendors W (pj_vendors p)) (\<lambda>R.
     bindS (foldS collect_deps_step (pj_need p) (R, [])) (\<lambda>acc.
     bindS (liftS (map_err CSource (resolve L (wd_solve W) (fst acc) (snd acc)))) (\<lambda>found.
     bindS (foldS (assign R (pj_need p)) found []) (\<lambda>locked.
     bindS (register_all p) (\<lambda>_.
     write_lock L W ((lock_new digest)\<lparr>lk_content := locked\<rparr>)))))))))"

definition project_build :: "('v::linorder, 'q, 'f) crates \<Rightarrow> ('c, 'v, 'q, 'f) world \<Rightarrow> bool \<Rightarrow> project
    \<Rightarrow> ('c, 'v, 'q, 'f, unit) build_action" where
  "project_build L W error_on_lock p =
     bindS (getS (\<lambda>s. calculate_digest L W p (se_heap s))) (\<lambda>d.
     bindS (liftS d) (\<lambda>digest.
     bindS (add_config (pj_config p)) (\<lambda>_.
     bindS (getS ps_lock) (\<lambda>f.
       case f of
         Missing \<Rightarrow> build_fresh L W p digest
       | Unreadable \<Rightarrow> liftS (Fail CIo)
       | Malformed \<Rightarrow> liftS (Fail CSerialize)
       | Contents doc \<Rightarrow>
           bindS (on_heap (lock_de L doc)) (\<lambda>lock.
             if lk_digest lock = digest
             then bindS (on_heap (apply_lock (lk_content lock) (pj_need p))) (\<lambda>_. register_all p)
             else if error_on_lock then liftS (Fail CDependencyChange)
             else build_fresh L W p digest)))))"

definition project_load :: "('v::linorder, 'q, 'f) crates \<Rightarrow> ('c, 'v, 'q, 'f) world \<Rightarrow> bool \<Rightarrow> 'f entry list
    \<Rightarrow> ('c, 'v, 'q, 'f, unit) build_action" where
  "project_load L W error_on_lock entries =
     bindS (on_heap (walk L addr_default entries ([], project_empty))) (\<lambda>st.
     bindS (on_heap (resolve_sources (fst st) (snd st))) (\<lambda>_.
     project_build L W error_on_lock (snd st)))"

section \<open>Reading the lock back\<close>

lemma on_heap_run: "m (se_heap s) = (x, h) \<Longrightarrow> on_heap m s = (x, s\<lparr>se_heap := h\<rparr>)"
  by (simp add: on_heap_def)

lemma lock_de_entries:
  assumes "\<And>e. e \<in> set ats \<Longrightarrow> addr_plain (fst e) \<and> storable L (snd e)" and "distinct (map fst ats)" and "lo \<le> next_ref h"
  shows "\<exists>m h'. foldS (lock_de_entry L) (map (\<lambda>e. (addr_to_string (fst e), tree_json L (snd e))) ats) m0 h = (Ok m, h')
    \<and> extends h h' \<and> (\<forall>a. a \<notin> fst ` set ats \<longrightarrow> map_of m a = map_of m0 a)
    \<and> (\<forall>e \<in> set ats. \<exists>r. map_of m (fst e) = Some r \<and> denotes lo h' r (settle L (snd e)))"
  using assms
proof (induction ats arbitrary: m0 h)
  case (Cons e ats)
  obtain a t where e: "e = (a, t)" by (cases e)
  have plain: "addr_plain a" and st: "storable L t" using Cons.prems(1) [of e] by (simp_all add: e)
  from json_de_tree [OF st, of lo h] Cons.prems(3) obtain r h1 where
    1: "json_de L (tree_json L t) h = (Ok r, h1)" "extends h h1" "denotes lo h1 r (settle L t)" by (auto simp: builds_def)
  have "lock_de_entry L (addr_to_string a, tree_json L t) m0 h = (Ok (bt_insert a r m0), h1)"
    by (simp add: lock_de_entry_def addr_codec.dec_enc [OF plain] bindS_def 1(1))
  moreover from Cons.IH [of h1 "bt_insert a r m0"] Cons.prems extends_le [OF 1(2)] obtain m h' where
    2: "foldS (lock_de_entry L) (map (\<lambda>e. (addr_to_string (fst e), tree_json L (snd e))) ats) (bt_insert a r m0) h1 = (Ok m, h')"
    "extends h1 h'" "\<forall>a'. a' \<notin> fst ` set ats \<longrightarrow> map_of m a' = map_of (bt_insert a r m0) a'"
    "\<forall>e \<in> set ats. \<exists>r. map_of m (fst e) = Some r \<and> denotes lo h' r (settle L (snd e))"
    by auto
  ultimately have "foldS (lock_de_entry L) (map (\<lambda>e. (addr_to_string (fst e), tree_json L (snd e))) (e # ats)) m0 h = (Ok m, h')"
    by (simp add: e bindS_def)
  moreover have "map_of m a = Some r" using 2(3) Cons.prems(2) by (auto simp: e)
  ultimately show ?case
    using extends_trans [OF 1(2) 2(2)] denotes_extends(1) [OF 1(3) 2(2)] 2(3,4) by (auto simp: e)
qed simp

lemma apply_lock_run:
  assumes "\<And>e. e \<in> set need \<Longrightarrow> \<exists>r. map_of locked (fst e) = Some r \<and> r \<notin> snd ` set need" and "distinct (map snd need)"
  shows "\<exists>h'. apply_lock locked need h = (Ok (), h') \<and> next_ref h' = next_ref h
    \<and> (\<forall>x. x \<notin> snd ` set need \<longrightarrow> cell h' x = cell h x)
    \<and> (\<forall>e \<in> set need. cell h' (snd e) = cell h (the (map_of locked (fst e))))"
  using assms
proof (induction need arbitrary: h)
  case Nil
  then show ?case by (simp add: apply_lock_def)
next
  case (Cons e need)
  from Cons.prems(1) [of e] obtain r where r: "map_of locked (fst e) = Some r" "r \<notin> snd ` set (e # need)" by auto
  let ?h = "set_data (snd e) (cell h r) h"
  have need: "\<exists>r. map_of locked (fst e') = Some r \<and> r \<notin> snd ` set need" if "e' \<in> set need" for e'
    using Cons.prems(1) [of e'] that by auto
  from Cons.IH [OF need, of ?h] Cons.prems(2) obtain h' where h': "apply_lock locked need ?h = (Ok (), h')"
    "next_ref h' = next_ref ?h" "\<forall>x. x \<notin> snd ` set need \<longrightarrow> cell h' x = cell ?h x"
    "\<forall>e \<in> set need. cell h' (snd e) = cell ?h (the (map_of locked (fst e)))" by auto
  have "apply_lock locked (e # need) h = (Ok (), h')"
    using h'(1) by (simp add: apply_lock_def r(1))
  moreover have "cell h' (snd e) = cell h r" using h'(3) Cons.prems(2) by (simp add: set_data_def)
  moreover have "cell ?h (the (map_of locked (fst e'))) = cell h (the (map_of locked (fst e')))" if "e' \<in> set need" for e'
    using Cons.prems(1) [of e'] that by (auto simp: set_data_def)
  ultimately show ?case using h'(2-4) r(1) by (auto simp: set_data_def)
qed

section \<open>Registering\<close>

text \<open>Registering environments and transforms touches nothing but the two maps.\<close>

definition same_base :: "('c, 'v, 'q, 'f) project_session \<Rightarrow> ('c, 'v, 'q, 'f) project_session \<Rightarrow> bool" where
  "same_base s t \<longleftrightarrow> se_heap t = se_heap s \<and> ps_lock t = ps_lock s \<and> cx_storage (se_ctx t) = cx_storage (se_ctx s)
     \<and> cx_config (se_ctx t) = cx_config (se_ctx s) \<and> cx_registry (se_ctx t) = cx_registry (se_ctx s)"

lemma add_farm_base: "add_farm a r s = (x, s') \<Longrightarrow> same_base s s'"
  by (auto simp: add_farm_def construct_def bindS_def ctx_update_def same_base_def split: sum.splits)

lemma add_transform_base: "add_transform a r s = (x, s') \<Longrightarrow> same_base s s'"
  by (auto simp: add_transform_def construct_def bindS_def ctx_update_def same_base_def split: sum.splits)

lemma same_base_trans: "same_base s t \<Longrightarrow> same_base t u \<Longrightarrow> same_base s u"
  by (auto simp: same_base_def)

lemma register_all_base:
  assumes "register_all p s = (x, s')"
  shows "same_base s s'"
proof -
  obtain y t where y: "foreachS (\<lambda>e. add_farm (fst e) (snd e)) (pj_environments p) s = (y, t)"
    by (cases "foreachS (\<lambda>e. add_farm (fst e) (snd e)) (pj_environments p) s")
  have st: "same_base s t"
    by (rule foreachS_keeps [OF y, where P = "same_base s"])
      (auto simp: same_base_def dest: add_farm_base intro: same_base_trans)
  show ?thesis
  proof (cases y)
    case (Inl e)
    then show ?thesis using assms st by (simp add: register_all_def bindS_def y)
  next
    case (Inr u)
    then have "foreachS (\<lambda>e. add_transform (fst e) (snd e)) (pj_transforms p) t = (x, s')"
      using assms by (simp add: register_all_def bindS_def y)
    from foreachS_keeps [OF this, where P = "same_base s"] st show ?thesis
      by (blast dest: add_transform_base intro: same_base_trans)
  qed
qed

section \<open>Reusing the lock\<close>

lemma build_config_step:
  assumes "calculate_digest L W p (se_heap s) = Ok d"
  shows "project_build L W b p s = (let s0 = s\<lparr>se_ctx := (se_ctx s)\<lparr>cx_config := config_merge (pj_config p) (cx_config (se_ctx s))\<rparr>\<rparr> in
    case ps_lock s of
      Missing \<Rightarrow> build_fresh L W p d s0
    | Unreadable \<Rightarrow> (Fail CIo, s0)
    | Malformed \<Rightarrow> (Fail CSerialize, s0)
    | Contents doc \<Rightarrow>
        (case lock_de L doc (se_heap s) of
           (Inl e, h) \<Rightarrow> (Inl e, s0\<lparr>se_heap := h\<rparr>)
         | (Inr k, h) \<Rightarrow>
             if lk_digest k = d
             then bindS (on_heap (apply_lock (lk_content k) (pj_need p))) (\<lambda>_. register_all p) (s0\<lparr>se_heap := h\<rparr>)
             else if b then (Fail CDependencyChange, s0\<lparr>se_heap := h\<rparr>)
             else build_fresh L W p d (s0\<lparr>se_heap := h\<rparr>)))"
  using assms
  by (simp add: project_build_def add_config_def ctx_update_def on_heap_def bindS_def Let_def
      split: disk_file.split prod.split sum.split)

lemma lock_reused:
  fixes s :: "('c, 'v::linorder, 'q, 'f) project_session"
  assumes d: "calculate_digest L W p (se_heap s) = Ok d"
    and lock: "ps_lock s = Contents \<lparr>ld_lock_digest = d, ld_refs = map (\<lambda>e. (addr_to_string (fst e), tree_json L (snd e))) ats\<rparr>"
    and ats: "\<forall>e \<in> set ats. addr_plain (fst e) \<and> storable L (snd e)" "distinct (map fst ats)"
    and need: "fst ` set (pj_need p) \<subseteq> fst ` set ats" "distinct (map snd (pj_need p))"
      "\<forall>e \<in> set (pj_need p). snd e < next_ref (se_heap s)"
  shows "\<exists>s1. project_build L W b p s = register_all p s1
    \<and> (\<forall>e \<in> set (pj_need p). \<forall>t. (fst e, t) \<in> set ats \<longrightarrow> denotes 0 (se_heap s1) (snd e) (settle L t))
    \<and> (\<forall>x < next_ref (se_heap s). x \<notin> snd ` set (pj_need p) \<longrightarrow> cell (se_heap s1) x = cell (se_heap s) x)
    \<and> ps_lock s1 = ps_lock s \<and> cx_storage (se_ctx s1) = cx_storage (se_ctx s)"
proof -
  let ?lo = "next_ref (se_heap s)"
  have "\<And>e. e \<in> set ats \<Longrightarrow> addr_plain (fst e) \<and> storable L (snd e)" using ats(1) by blast
  from lock_de_entries [OF this ats(2), of ?lo "se_heap s" "[]"] obtain m h where
    m: "foldS (lock_de_entry L) (map (\<lambda>e. (addr_to_string (fst e), tree_json L (snd e))) ats) [] (se_heap s) = (Ok m, h)"
    "extends (se_heap s) h" "\<forall>e \<in> set ats. \<exists>r. map_of m (fst e) = Some r \<and> denotes ?lo h r (settle L (snd e))" by auto
  have fresh: "?lo \<le> r" if "denotes ?lo h r t" for r t using that by (cases t) auto
  have found: "\<exists>r. map_of m (fst e) = Some r \<and> ?lo \<le> r" if "e \<in> set (pj_need p)" for e
  proof -
    from that need(1) obtain e' where "e' \<in> set ats" "fst e' = fst e" by force
    with m(3) fresh show ?thesis by metis
  qed
  have "\<exists>r. map_of m (fst e) = Some r \<and> r \<notin> snd ` set (pj_need p)" if "e \<in> set (pj_need p)" for e
    using found [OF that] need(3) by (metis imageE not_le)
  from apply_lock_run [OF this need(2)] obtain h' where h': "apply_lock m (pj_need p) h = (Ok (), h')" "next_ref h' = next_ref h"
    "\<forall>x. x \<notin> snd ` set (pj_need p) \<longrightarrow> cell h' x = cell h x"
    "\<forall>e \<in> set (pj_need p). cell h' (snd e) = cell h (the (map_of m (fst e)))" by blast
  have "x \<notin> snd ` set (pj_need p)" if "?lo \<le> x" for x using need(3) that by (metis imageE not_le)
  then have ag: "agree ?lo h h'" using h'(2,3) by (simp add: agree_def)
  have den: "denotes 0 h' (snd e) (settle L t)" if "e \<in> set (pj_need p)" "(fst e, t) \<in> set ats" for e t
  proof -
    from m(3) that(2) obtain r where r: "map_of m (fst e) = Some r" "denotes ?lo h r (settle L t)" by fastforce
    have "snd e < next_ref h'" using need(3) that(1) m(2) h'(2) by (auto simp: extends_def)
    with denotes_copy [OF r(2) ag] h'(4) that(1) r(1) show ?thesis by simp
  qed
  let ?s1 = "s\<lparr>se_ctx := (se_ctx s)\<lparr>cx_config := config_merge (pj_config p) (cx_config (se_ctx s))\<rparr>, se_heap := h'\<rparr>"
  have "project_build L W b p s = register_all p ?s1"
    by (simp add: build_config_step [OF d] lock Let_def lock_de_def m(1) bindS_def on_heap_def h'(1))
  moreover have "\<forall>x < ?lo. x \<notin> snd ` set (pj_need p) \<longrightarrow> cell h' x = cell (se_heap s) x"
    using h'(3) m(2) by (auto simp: extends_def)
  ultimately show ?thesis using den by (intro exI [of _ ?s1]) simp
qed

section \<open>Writing the lock\<close>






lemma mapR_keys:
  "mapR (\<lambda>e. bindR (f e) (\<lambda>j. Ok (g e, j))) xs = Ok ys \<Longrightarrow> map fst ys = map g xs"
  by (induction xs arbitrary: ys) (auto simp: bindR_eq_Ok)















lemma load_toml_build_cache:
  assumes "load_toml L namespace c p h = (Ok (srcs, p'), h')" and "cs_build (sv_cache c) = None"
  shows "pj_build_cache p' = None"
proof -
  from assms obtain h1 b h2 where "get_build_cache L c h1 = (Ok b, h2)" "pj_build_cache p' = b"
    unfolding load_toml_def by (auto simp: bindS_Ok)
  with assms(2) show ?thesis by (simp add: get_build_cache_def cache_item_def)
qed

lemma walk_append:
  "walk L namespace (es @ fs) st = bindS (walk L namespace es st) (walk L namespace fs)"
proof -
  have "walk L namespace (es @ fs) st h = bindS (walk L namespace es st) (walk L namespace fs) h" for h
  proof (induction es arbitrary: st h)
    case (Cons e es)
    then show ?case by (cases e) (auto simp: bindS_def split: prod.splits sum.splits)
  qed simp
  then show ?thesis by blast
qed

section \<open>An example project\<close>

text \<open>One requirement \<open>gcc\<close>, one vendor \<open>hub\<close>, one transform whose source is the requirement.\<close>

definition example_world :: "((nat, nat, nat) vendor, nat, nat, nat) world" where
  "example_world = \<lparr>wd_hash = (\<lambda>x. x), wd_json_text = (\<lambda>_. ''j''), wd_new_local = (\<lambda>_ _ _ _. Ok 0), wd_vendor = (\<lambda>_. example_vendor),
     wd_solve = eager_solver, wd_writable = True\<rparr>"

definition example_project :: project where
  "example_project = project_empty\<lparr>pj_need := [(Addr [''gcc''], 1)], pj_vendors := [(Addr [''hub''], 3)]\<rparr>"

definition project_nodes :: "(nat, nat, nat) nheap" where
  "project_nodes = \<lparr>cell = (\<lambda>_. DBool False)(0 := DRequire 1, 1 := DDefinition ''requires'' ''image'' ''gcc'' [(''at'', 0)],
     2 := DDefinition ''transform'' ''script'' ''app'' [(''source'', 1)], 3 := DDefinition ''vendor'' ''oci'' ''hub'' []), next_ref = 4\<rparr>"

definition locked_tree :: "(nat, nat, nat) tree" where
  "locked_tree = Def ''source'' ''image'' ''gcc'' [(''url'', Leaf (DString ''u''))]"

definition example_session :: "nat lock_doc disk_file \<Rightarrow> ((nat, nat, nat) vendor, nat, nat, nat) project_session" where
  "example_session f = \<lparr>se_heap = project_nodes,
     se_ctx = \<lparr>cx_config = [], cx_storage = storage_init 0,
       cx_registry = register_vendor ''oci'' (\<lambda>_ _ _ _. Ok example_vendor) registry_default,
       cx_transforms = [], cx_farms = [], cx_args = []\<rparr>,
     ps_lock = f\<rparr>"

definition example_lock :: "nat lock_doc" where
  "example_lock = \<lparr>ld_lock_digest = ''//gccj'', ld_refs = map (\<lambda>e. (addr_to_string (fst e), tree_json example_crates (snd e)))
     [(Addr [''gcc''], locked_tree)]\<rparr>"

lemma example_digest: "calculate_digest example_crates example_world example_project project_nodes = Ok ''//gccj''"
  by (simp add: calculate_digest_def example_project_def node_text_def project_nodes_def example_world_def
      addr_to_string_def eval_nat_numeral)

lemma example_locked: "addr_plain (Addr [''gcc''])" "storable example_crates locked_tree"
  by (simp_all add: addr_plain_def locked_tree_def bt_ok_def def_key_def)


section \<open>Properties\<close>

text \<open>C19: with a lock file whose digest matches the project and whose entries are storable
  nodes for at least the project's requirements, the build goes straight to registering the
  environments and transforms. Every requirement's node then denotes the locked tree; a
  definition whose source field was linked to the requirement still refers to that node and so
  sees the locked source; the lock file is not rewritten. No cache is registered either: the
  storage is as before, although the project may define source, build and output caches.\<close>

theorem lock_reuse:
  assumes "calculate_digest L W p (se_heap s) = Ok d"
    and "ps_lock s = Contents \<lparr>ld_lock_digest = d, ld_refs = map (\<lambda>e. (addr_to_string (fst e), tree_json L (snd e))) ats\<rparr>"
    and "\<forall>e \<in> set ats. addr_plain (fst e) \<and> storable L (snd e)" and "distinct (map fst ats)"
    and "fst ` set (pj_need p) \<subseteq> fst ` set ats" and "distinct (map snd (pj_need p))"
    and "\<forall>e \<in> set (pj_need p). snd e < next_ref (se_heap s)"
    and "project_build L W b p s = (res, s')"
  shows "(\<exists>s1. register_all p s1 = (res, s'))
    \<and> (\<forall>e \<in> set (pj_need p). \<forall>t. (fst e, t) \<in> set ats \<longrightarrow> denotes 0 (se_heap s') (snd e) (settle L t))
    \<and> (\<forall>x < next_ref (se_heap s). x \<notin> snd ` set (pj_need p) \<longrightarrow>
          node_lookup x ''source'' (se_heap s') = node_lookup x ''source'' (se_heap s))
    \<and> ps_lock s' = ps_lock s \<and> cx_storage (se_ctx s') = cx_storage (se_ctx s)"
proof -
  from lock_reused [OF assms(1-7), of b] obtain s1 where s1: "project_build L W b p s = register_all p s1"
    "\<forall>e \<in> set (pj_need p). \<forall>t. (fst e, t) \<in> set ats \<longrightarrow> denotes 0 (se_heap s1) (snd e) (settle L t)"
    "\<forall>x < next_ref (se_heap s). x \<notin> snd ` set (pj_need p) \<longrightarrow> cell (se_heap s1) x = cell (se_heap s) x"
    "ps_lock s1 = ps_lock s" "cx_storage (se_ctx s1) = cx_storage (se_ctx s)" by blast
  from s1(1) assms(8) have r: "register_all p s1 = (res, s')" by simp
  from register_all_base [OF r] s1(2-5) show ?thesis using r by (auto simp: same_base_def node_lookup_def)
qed

theorem lock_reuse_witness:
  "\<exists>res s'. project_build example_crates example_world True example_project (example_session (Contents example_lock)) = (res, s')
    \<and> node_lookup 2 ''source'' (se_heap s') = Some 1 \<and> denotes 0 (se_heap s') 1 locked_tree"
proof -
  obtain res s' where r: "project_build example_crates example_world True example_project (example_session (Contents example_lock)) = (res, s')"
    by (cases "project_build example_crates example_world True example_project (example_session (Contents example_lock))")
  have h: "se_heap (example_session (Contents example_lock)) = project_nodes" by (simp add: example_session_def)
  have "ps_lock (example_session (Contents example_lock)) = Contents \<lparr>ld_lock_digest = ''//gccj'', ld_refs =
      map (\<lambda>e. (addr_to_string (fst e), tree_json example_crates (snd e))) [(Addr [''gcc''], locked_tree)]\<rparr>"
    by (simp add: example_session_def example_lock_def)
  from lock_reuse [OF _ this _ _ _ _ _ r, unfolded h, OF example_digest]
  have "node_lookup 2 ''source'' (se_heap s') = node_lookup 2 ''source'' project_nodes
      \<and> denotes 0 (se_heap s') 1 (settle example_crates locked_tree)"
    using example_locked by (simp add: example_project_def project_empty_def project_nodes_def)
  with r show ?thesis by (simp add: node_lookup_def project_nodes_def accessor_defs locked_tree_def)
qed



text \<open>a lock file with another digest is an error when changed dependencies are refused: only
  the configuration has been merged and the lock file is kept. Otherwise the project is
  resolved afresh.\<close>

lemma stale_lock_refused:
  assumes "calculate_digest L W p (se_heap s) = Ok d" and "ps_lock s = Contents doc" and "ld_lock_digest doc \<noteq> d"
    and "lock_de L doc (se_heap s) = (Ok k, h)"
  shows "\<exists>s1. project_build L W True p s = (Fail CDependencyChange, s1) \<and> project_build L W False p s = build_fresh L W p d s1
    \<and> ps_lock s1 = ps_lock s \<and> cx_storage (se_ctx s1) = cx_storage (se_ctx s)
    \<and> cx_farms (se_ctx s1) = cx_farms (se_ctx s) \<and> cx_transforms (se_ctx s1) = cx_transforms (se_ctx s)"
proof -
  from assms(4) have "lk_digest k \<noteq> d" using assms(3) by (auto simp: lock_de_def bindS_Ok)
  then show ?thesis by (simp add: build_config_step [OF assms(1)] Let_def assms(2,4))
qed

lemma stale_lock_refused_witness:
  "\<exists>s1. project_build example_crates example_world True example_project
     (example_session (Contents \<lparr>ld_lock_digest = ''old'', ld_refs = []\<rparr>)) = (Fail CDependencyChange, s1)"
  using stale_lock_refused [where L = example_crates and W = example_world and p = example_project and d = "''//gccj''"
      and s = "example_session (Contents \<lparr>ld_lock_digest = ''old'', ld_refs = []\<rparr>)" and h = project_nodes
      and doc = "\<lparr>ld_lock_digest = ''old'', ld_refs = []\<rparr>" and k = "\<lparr>lk_digest = ''old'', lk_content = []\<rparr>"] example_digest
  by (auto simp: example_session_def lock_de_def)

text \<open>linking: when the source field of an environment or transform holds the text of an
  address, linking makes the field the very node registered at that address, changing nothing
  else; an address with no source is refused and nothing changes.\<close>

lemma source_linked:
  assumes "cell h r = DDefinition i k n t" and "map_of t ''source'' = Some src" and "cell h src = DString (addr_to_string a)"
    and "addr_plain a"
  shows "(map_of sources a = None \<longrightarrow> resolve_node sources r h = (Fail (CNotValidSource (addr_to_string a)), h))
    \<and> (\<forall>x. map_of sources a = Some x \<longrightarrow> (\<exists>h'. resolve_node sources r h = (Ok (), h')
        \<and> node_lookup r ''source'' h' = Some x \<and> (\<forall>key. key \<noteq> ''source'' \<longrightarrow> node_lookup r key h' = node_lookup r key h)
        \<and> (\<forall>y. y \<noteq> r \<longrightarrow> cell h' y = cell h y)))"
  using assms
  by (auto simp: resolve_node_def resolve_field_def resolve_item_def accessor_defs addr_codec.dec_enc bindS_def
      node_set_table_def set_data_def data_set_table_def node_lookup_def)

lemma source_linked_witness:
  "\<exists>h'. resolve_node [(Addr [''gcc''], 7)] 2
      (project_nodes\<lparr>cell := (cell project_nodes)(2 := DDefinition ''transform'' ''script'' ''app'' [(''source'', 3)], 3 := DString ''//gcc'')\<rparr>)
      = (Ok (), h') \<and> node_lookup 2 ''source'' h' = Some 7"
  using source_linked [of "project_nodes\<lparr>cell := (cell project_nodes)(2 := DDefinition ''transform'' ''script'' ''app'' [(''source'', 3)], 3 := DString ''//gcc'')\<rparr>"
      2 "''transform''" "''script''" "''app''" "[(''source'', 3)]" 3 "Addr [''gcc'']" "[(Addr [''gcc''], 7)]"]
  by (simp add: addr_to_string_def addr_plain_def) blast

text \<open>the build cache is the one of the file read last: an \<open>edo.toml\<close> without a build cache
  that is visited after all others leaves the project without one, whatever the earlier files
  define.\<close>

lemma last_file_decides_build_cache:
  assumes "walk L namespace (es @ [EFile ''edo.toml'' (Contents c)]) st h = (Ok st', h')" and "cs_build (sv_cache c) = None"
  shows "pj_build_cache (snd st') = None"
proof -
  from assms(1) obtain st1 h1 where "walk L namespace [EFile ''edo.toml'' (Contents c)] st1 h1 = (Ok st', h')"
    unfolding walk_append bindS_Ok by blast
  then obtain srcs p h2 where "load_toml L namespace c (snd st1) h1 = (Ok (srcs, p), h2)" "snd st' = p"
    by (auto simp: load_file_def bindS_Ok)
  from load_toml_build_cache [OF this(1) assms(2)] this(2) show ?thesis by simp
qed

definition empty_schema :: "nat schema_v1" where
  "empty_schema = \<lparr>sv_config = [], sv_cache = \<lparr>cs_source = [], cs_build = None, cs_output = None\<rparr>, sv_environment = [],
     sv_source = [], sv_transform = [], sv_vendor = [], sv_requires = []\<rparr>"

definition cached_schema :: "nat schema_v1" where
  "cached_schema = empty_schema\<lparr>sv_cache := \<lparr>cs_source = [], cs_build = Some (TTable [(''kind'', TString ''s3'')]), cs_output = None\<rparr>\<rparr>"

lemma last_file_decides_build_cache_witness:
  "\<exists>st' h'. walk example_crates addr_default [EFile ''edo.toml'' (Contents cached_schema), EFile ''edo.toml'' (Contents empty_schema)]
      ([], project_empty) heap_empty = (Ok st', h') \<and> pj_build_cache (snd st') = None"
proof -
  have "\<exists>st' h'. walk example_crates addr_default [EFile ''edo.toml'' (Contents cached_schema), EFile ''edo.toml'' (Contents empty_schema)]
      ([], project_empty) heap_empty = (Ok st', h')"
    by (simp add: load_file_def load_toml_def cached_schema_def empty_schema_def get_config_def get_sources_def get_requires_def
        get_source_caches_def get_build_cache_def get_output_cache_def get_environments_def get_transforms_def get_vendors_def
        toml_map_def toml_def_def cache_item_def toml_def_item_def toml_as_table_def toml_as_str_def bt_remove_def handle_all_def
        new_definition_def new_node_def bindS_def)
  with last_file_decides_build_cache [of example_crates addr_default "[EFile ''edo.toml'' (Contents cached_schema)]" empty_schema]
  show ?thesis by (fastforce simp: empty_schema_def)
qed

end
