(* ===== verification/Paths.thy ===== *)
theory Paths
  imports Prelude
begin

text \<open>
  The part of \<open>std::path\<close> the sources use, on unix paths as byte strings: \<open>is_absolute\<close>,
  \<open>join\<close> (which an absolute argument replaces), the components (repeated separators and
  inner \<open>.\<close> vanish, \<open>..\<close> stays) and the component-wise \<open>starts_with\<close>.
\<close>

definition is_absolute :: "string \<Rightarrow> bool" where
  "is_absolute p \<longleftrightarrow> p \<noteq> [] \<and> hd p = CHR ''/''"

definition path_join :: "string \<Rightarrow> string \<Rightarrow> string" where
  "path_join a b =
     (if is_absolute b then b
      else if a = [] \<or> last a = CHR ''/'' then a @ b
      else a @ ''/'' @ b)"

lemma path_join_absolute [simp]: "is_absolute b \<Longrightarrow> path_join a b = b"
  by (simp add: path_join_def)

lemma path_join_is_absolute: "is_absolute a \<Longrightarrow> is_absolute (path_join a b)"
  by (auto simp: path_join_def is_absolute_def)

lemma path_join_assoc:
  assumes "b \<noteq> []"
  shows "path_join (path_join a b) c = path_join a (path_join b c)"
  using assms by (auto simp: path_join_def is_absolute_def)

lemma last_path_join: "last (path_join a b) = (if b \<noteq> [] then last b else if a = [] then last [] else CHR ''/'')"
  by (auto simp: path_join_def is_absolute_def)

text \<open>Components: the root, a leading \<open>.\<close>, names and \<open>..\<close>.\<close>

definition path_segments :: "string \<Rightarrow> string list" where
  "path_segments p = filter (\<lambda>c. c \<noteq> [] \<and> c \<noteq> ''.'') (split_on (CHR ''/'') p)"

definition path_components :: "string \<Rightarrow> string list" where
  "path_components p =
     (if is_absolute p then ''/'' # path_segments p
      else if hd (split_on (CHR ''/'') p) = ''.'' then ''.'' # path_segments p
      else path_segments p)"

definition path_starts_with :: "string \<Rightarrow> string \<Rightarrow> bool" where
  "path_starts_with base p \<longleftrightarrow> take (length (path_components base)) (path_components p) = path_components base"

text \<open>\<open>std::path::absolute\<close>: relative paths are taken from the working directory, \<open>.\<close> and repeated
  separators vanish, \<open>..\<close> and a trailing separator stay; the empty path is an error.\<close>

definition path_absolute :: "string \<Rightarrow> string \<Rightarrow> string option" where
  "path_absolute cwd p =
     (if p = [] then None
      else let base = (if is_absolute p
                       then (if starts_with ''//'' p \<and> \<not> starts_with ''///'' p then ''//'' else ''/'')
                       else cwd);
               q = foldl path_join base (path_segments p)
           in Some (if last p = CHR ''/'' then path_join q [] else q))"

lemma split_on_append_sep: "split_on c (x @ c # y) = split_on c x @ split_on c y"
  by (induction x) (auto simp: hd_append)

lemma path_segments_join:
  assumes "\<not> is_absolute b"
  shows "path_segments (path_join a b) = path_segments a @ path_segments b"
proof -
  have split: "path_segments (x @ CHR ''/'' # y) = path_segments x @ path_segments y" for x y
    by (simp add: path_segments_def split_on_append_sep)
  show ?thesis
  proof (cases "a = []")
    case True
    then show ?thesis using assms by (simp add: path_join_def path_segments_def)
  next
    case False
    show ?thesis
    proof (cases "last a = CHR ''/''")
      case True
      then obtain x where "a = x @ [CHR ''/'']" using False by (metis append_butlast_last_id)
      then show ?thesis using assms split [of x b] split [of x "[]"] by (simp add: path_join_def path_segments_def)
    next
      case no_sep: False
      then show ?thesis using assms False split [of a b] by (simp add: path_join_def)
    qed
  qed
qed

end
