(* ===== verification/S3_Backend.thy ===== *)
theory S3_Backend
  imports Storage Config_Node Effects Paths
begin

text \<open>
  The S3 backend (\<open>crates/core/src/storage/s3/mod.rs\<close>, \<open>reader.rs\<close>, \<open>error.rs\<close>).

  The AWS client is a parameter: a record of the requests the code sends, over the state
  \<open>'b\<close> of the service. A request answers with the new state and with \<open>None\<close> (or \<open>False\<close>) when
  the SDK reports an error. What the service documents is the locale \<open>s3_service\<close>; it is used
  only for the runs in which the service answers. The temporary files of layers being written
  are on the local disk.
\<close>

section \<open>The service\<close>

datatype 'v s3_error = S3BucketNotSpecified | S3Check | S3Copy | S3Delete | S3Deserialize | S3Finish | S3Get
  | S3LayerMissing string | S3List | S3NotFound "'v artifact_id" | S3Part | S3Put | S3PruneAll | S3Serialize
  | S3Start | S3StartNoID | S3Temp

text \<open>An object is the JSON text of a catalog or other bytes.\<close>

datatype s3_body = Doc catalog_doc | Raw string

text \<open>\<open>get_object\<close> answers \<open>Some None\<close> when the response came but its body could not be read;
  \<open>create_multipart_upload\<close> answers \<open>Some None\<close> when the response has no upload id.\<close>

record 'b s3_client =
  head_object :: "string \<Rightarrow> 'b \<Rightarrow> nat option \<times> 'b"
  get_object :: "string \<Rightarrow> (nat \<times> nat) option \<Rightarrow> 'b \<Rightarrow> s3_body option option \<times> 'b"
  put_object :: "string \<Rightarrow> s3_body \<Rightarrow> 'b \<Rightarrow> bool \<times> 'b"
  delete_object :: "string \<Rightarrow> 'b \<Rightarrow> bool \<times> 'b"
  create_multipart_upload :: "string \<Rightarrow> 'b \<Rightarrow> nat option option \<times> 'b"
  upload_part :: "string \<Rightarrow> nat \<Rightarrow> nat \<Rightarrow> string \<Rightarrow> 'b \<Rightarrow> string option option \<times> 'b"
  complete_multipart_upload :: "string \<Rightarrow> nat \<Rightarrow> (nat \<times> string option) list \<Rightarrow> 'b \<Rightarrow> bool \<times> 'b"

section \<open>The backend\<close>

record s3_backend =
  s3_bucket :: string
  s3_prefix :: "string option"
  s3_catalog_key :: string

definition s3_new :: "string \<Rightarrow> string option \<Rightarrow> s3_backend" where
  "s3_new bucket prefix = \<lparr>s3_bucket = bucket, s3_prefix = prefix,
     s3_catalog_key = (case prefix of Some p \<Rightarrow> p @ ''/catalog.json'' | None \<Rightarrow> ''catalog.json'')\<rparr>"

definition s3_from_node :: "nat \<Rightarrow> ('v, 'q, 'f) nheap \<Rightarrow> ('v s3_error storage_error, s3_backend) res" where
  "s3_from_node r h =
     bindR (map_err (\<lambda>_. SProject) (validate_keys [''bucket''] (cell h r))) (\<lambda>_.
     bindR (ok_or (Implementation S3BucketNotSpecified)
              (Option.bind (node_lookup r ''bucket'' h) (\<lambda>n. as_string (cell h n)))) (\<lambda>bucket.
     Ok (s3_new bucket (Option.bind (node_lookup r ''prefix'' h) (\<lambda>n. as_string (cell h n))))))"

definition blob_key :: "s3_backend \<Rightarrow> string" where
  "blob_key S = (case s3_prefix S of Some p \<Rightarrow> path_join p ''blobs/blake3'' | None \<Rightarrow> ''blobs/blake3'')"

definition blob_path :: "s3_backend \<Rightarrow> string \<Rightarrow> string" where
  "blob_path S d = path_join (blob_key S) d"

definition lock_key :: "s3_backend \<Rightarrow> string" where
  "lock_key S = s3_catalog_key S @ ''.lock''"

text \<open>\<open>load\<close>: any error of the first request counts as a missing catalog.\<close>

definition s3_load :: "'b s3_client \<Rightarrow> (string \<Rightarrow> 'v option) \<Rightarrow> s3_backend \<Rightarrow> 'b \<Rightarrow> ('v s3_error, 'v catalog) res \<times> 'b" where
  "s3_load C vparse S b =
     (case head_object C (s3_catalog_key S) b of
        (None, b1) \<Rightarrow> (Ok catalog_default, b1)
      | (Some _, b1) \<Rightarrow>
          (case get_object C (s3_catalog_key S) None b1 of
             (None, b2) \<Rightarrow> (Fail S3Get, b2)
           | (Some None, b2) \<Rightarrow> (Inl Panic, b2)
           | (Some (Some (Raw _)), b2) \<Rightarrow> (Fail S3Deserialize, b2)
           | (Some (Some (Doc d)), b2) \<Rightarrow> (map_err (\<lambda>_. S3Deserialize) (catalog_de vparse d), b2)))"

text \<open>\<open>wait_for_lock\<close>: one look per second, five at most; then it goes on in any case.\<close>

function wait_lock :: "'b s3_client \<Rightarrow> s3_backend \<Rightarrow> nat \<Rightarrow> 'b \<Rightarrow> 'b" where
  "wait_lock C S attempts b =
     (case head_object C (lock_key S) b of
        (None, b1) \<Rightarrow> b1
      | (Some _, b1) \<Rightarrow> if 5 \<le> attempts then b1 else wait_lock C S (attempts + 1) b1)"
  by pat_completeness auto
termination by (relation "measure (\<lambda>(C, S, attempts, b). 5 - attempts)") auto

declare wait_lock.simps [simp del]

definition s3_flush :: "'b s3_client \<Rightarrow> ('v::linorder \<Rightarrow> string) \<Rightarrow> s3_backend \<Rightarrow> 'v catalog \<Rightarrow> 'b
    \<Rightarrow> ('v s3_error, unit) res \<times> 'b" where
  "s3_flush C vshow S c b =
     (case put_object C (lock_key S) (Raw ''lock'') (wait_lock C S 1 b) of
        (False, b1) \<Rightarrow> (Fail S3Put, b1)
      | (True, b1) \<Rightarrow>
          (case put_object C (s3_catalog_key S) (Doc (catalog_ser vshow c)) b1 of
             (written, b2) \<Rightarrow>
               (case delete_object C (lock_key S) b2 of
                  (False, b3) \<Rightarrow> (Fail S3Delete, b3)
                | (True, b3) \<Rightarrow> (if written then Ok () else Fail S3Put, b3))))"

definition s3_list :: "'b s3_client \<Rightarrow> (string \<Rightarrow> 'v option) \<Rightarrow> s3_backend \<Rightarrow> 'b \<Rightarrow> ('v s3_error, 'v artifact_id set) res \<times> 'b" where
  "s3_list C vparse S = bindS (s3_load C vparse S) (\<lambda>c. returnS (list_all c))"

definition s3_has :: "'b s3_client \<Rightarrow> (string \<Rightarrow> 'v option) \<Rightarrow> s3_backend \<Rightarrow> 'v artifact_id \<Rightarrow> 'b \<Rightarrow> ('v s3_error, bool) res \<times> 'b" where
  "s3_has C vparse S i = bindS (s3_load C vparse S) (\<lambda>c. returnS (catalog_has c i))"

definition s3_open :: "'b s3_client \<Rightarrow> (string \<Rightarrow> 'v option) \<Rightarrow> s3_backend \<Rightarrow> 'v artifact_id \<Rightarrow> 'b \<Rightarrow> ('v s3_error, 'v artifact) res \<times> 'b" where
  "s3_open C vparse S i = bindS (s3_load C vparse S) (\<lambda>c. liftS (ok_or (S3NotFound i) (catalog_get c i)))"

definition s3_save :: "'b s3_client \<Rightarrow> ('v::linorder \<Rightarrow> string) \<Rightarrow> (string \<Rightarrow> 'v option) \<Rightarrow> s3_backend \<Rightarrow> 'v artifact \<Rightarrow> 'b
    \<Rightarrow> ('v s3_error, unit) res \<times> 'b" where
  "s3_save C vshow vparse S a = bindS (s3_load C vparse S) (\<lambda>c. s3_flush C vshow S (catalog_add vshow a c))"

definition s3_del_blob :: "'b s3_client \<Rightarrow> s3_backend \<Rightarrow> 'v catalog \<Rightarrow> layer \<Rightarrow> 'b \<Rightarrow> ('v s3_error, unit) res \<times> 'b" where
  "s3_del_blob C S c l b =
     (if catalog_count c l \<le> 0
      then (case delete_object C (blob_path S (layer_digest_text l)) b of
              (False, b1) \<Rightarrow> (Fail S3Delete, b1) | (True, b1) \<Rightarrow> (Ok (), b1))
      else (Ok (), b))"

definition s3_del :: "'b s3_client \<Rightarrow> ('v::linorder \<Rightarrow> string) \<Rightarrow> (string \<Rightarrow> 'v option) \<Rightarrow> s3_backend \<Rightarrow> 'v artifact_id \<Rightarrow> 'b
    \<Rightarrow> ('v s3_error, unit) res \<times> 'b" where
  "s3_del C vshow vparse S i =
     bindS (s3_has C vparse S i) (\<lambda>found.
       if \<not> found then returnS ()
       else bindS (s3_load C vparse S) (\<lambda>c.
            bindS (liftS (ok_or (S3NotFound i) (catalog_get c i))) (\<lambda>a.
            bindS (s3_flush C vshow S (catalog_del vshow i c)) (\<lambda>_.
            foreachS (s3_del_blob C S (catalog_del vshow i c)) (art_layers a)))))"

definition s3_copy :: "'b s3_client \<Rightarrow> ('v::linorder \<Rightarrow> string) \<Rightarrow> (string \<Rightarrow> 'v option) \<Rightarrow> s3_backend
    \<Rightarrow> 'v artifact_id \<Rightarrow> 'v artifact_id \<Rightarrow> 'b \<Rightarrow> ('v s3_error, unit) res \<times> 'b" where
  "s3_copy C vshow vparse S i j = bindS (s3_open C vparse S i) (\<lambda>a. s3_save C vshow vparse S (art_set_id a j))"

definition s3_prune :: "'b s3_client \<Rightarrow> ('v::linorder \<Rightarrow> string) \<Rightarrow> (string \<Rightarrow> 'v option) \<Rightarrow> s3_backend \<Rightarrow> 'v artifact_id \<Rightarrow> 'b
    \<Rightarrow> ('v s3_error, unit) res \<times> 'b" where
  "s3_prune C vshow vparse S i =
     bindS (s3_load C vparse S) (\<lambda>c.
       foreachS (s3_del C vshow vparse S)
         (filter (\<lambda>j. j \<noteq> i) (sorted_list_of_set (catalog_matching vshow c i))))"

definition s3_prune_all :: "'b \<Rightarrow> ('v s3_error, unit) res \<times> 'b" where
  "s3_prune_all b = (Fail S3PruneAll, b)"

section \<open>Reading an object\<close>

definition CHUNK_SIZE :: nat where
  "CHUNK_SIZE = 10 * 1024 * 1024"

text \<open>The request of a reader: none, one for a range of bytes, or one that has failed and whose
  future must not be polled again.\<close>

datatype s3_request = Idle | InFlight nat nat | Spent

record object_reader =
  or_key :: string
  or_buffer :: string
  or_position :: nat
  or_size :: nat
  or_active :: s3_request

definition reader_new :: "'b s3_client \<Rightarrow> string \<Rightarrow> 'b \<Rightarrow> ('v s3_error, object_reader) res \<times> 'b" where
  "reader_new C key b =
     (case head_object C key b of
        (None, b1) \<Rightarrow> (Fail S3Check, b1)
      | (Some n, b1) \<Rightarrow>
          (Ok \<lparr>or_key = key, or_buffer = [], or_position = 0, or_size = n, or_active = Idle\<rparr>, b1))"

definition start_request :: "nat \<Rightarrow> object_reader \<Rightarrow> object_reader" where
  "start_request n r = r\<lparr>or_active := InFlight (or_position r) (or_position r + n - 1)\<rparr>"

text \<open>What polling the future of the request gives (still waiting, the request refused, the
  connection lost while the body is collected, which the source unwraps, or the body), and what a
  poll of the reader gives.\<close>

datatype s3_answer = Waiting | Broken | BodyLost | Body string

datatype s3_poll = Pending | Ready string | ReadyErr | PollPanic

definition poll_read :: "nat \<Rightarrow> s3_answer \<Rightarrow> object_reader \<Rightarrow> s3_poll \<times> object_reader" where
  "poll_read remaining answer r =
     (case or_active r of
        InFlight lo hi \<Rightarrow>
          (case answer of
             Body x \<Rightarrow> (Pending, r\<lparr>or_active := Idle, or_position := or_position r + length x, or_buffer := or_buffer r @ x\<rparr>)
           | Broken \<Rightarrow> (ReadyErr, r\<lparr>or_active := Spent\<rparr>)
           | BodyLost \<Rightarrow> (PollPanic, r\<lparr>or_active := Spent\<rparr>)
           | Waiting \<Rightarrow> (Pending, r))
      | Spent \<Rightarrow> (PollPanic, r)
      | Idle \<Rightarrow>
          if remaining < length (or_buffer r)
          then (Ready (take remaining (or_buffer r)), r\<lparr>or_buffer := drop remaining (or_buffer r)\<rparr>)
          else if or_size r \<le> or_position r then (Ready (or_buffer r), r\<lparr>or_buffer := []\<rparr>)
          else (Pending, start_request (min CHUNK_SIZE (or_size r - or_position r)) r))"

definition s3_read :: "'b s3_client \<Rightarrow> s3_backend \<Rightarrow> layer \<Rightarrow> 'b \<Rightarrow> ('v s3_error, object_reader) res \<times> 'b" where
  "s3_read C S l = reader_new C (blob_path S (layer_digest_text l))"

section \<open>Writing a layer\<close>

text \<open>The bucket and the directory of temporary files, if it exists.\<close>

record 'b s3_state =
  remote :: 'b
  temp_files :: "(string \<rightharpoonup> string) option"

definition s3_start_layer :: "string \<Rightarrow> string \<Rightarrow> 'b s3_state \<Rightarrow> ('v s3_error, writer) res \<times> 'b s3_state" where
  "s3_start_layer temp_dir uuid s =
     (let t = path_join temp_dir (uuid @ ''.tmp'')
      in case temp_files s of
           None \<Rightarrow> (Fail S3Temp, s)
         | Some f \<Rightarrow> (Ok (writer_new t), s\<lparr>temp_files := Some (f(t \<mapsto> []))\<rparr>))"

text \<open>The loop of the multipart upload.\<close>

function upload_parts :: "'b s3_client \<Rightarrow> string \<Rightarrow> nat \<Rightarrow> string \<Rightarrow> nat \<Rightarrow> (nat \<times> string option) list \<Rightarrow> 'b
    \<Rightarrow> ('v s3_error, (nat \<times> string option) list) res \<times> 'b" where
  "upload_parts C key upload_id bytes pos parts b =
     (if pos < length bytes
      then let remaining = length bytes - pos;
               chunk_size = (if CHUNK_SIZE < remaining then CHUNK_SIZE else remaining)
           in case upload_part C key upload_id (length parts + 1) (take chunk_size (drop pos bytes)) b of
                (None, b1) \<Rightarrow> (Fail S3Part, b1)
              | (Some e_tag, b1) \<Rightarrow>
                  upload_parts C key upload_id bytes (pos + chunk_size) (parts @ [(length parts + 1, e_tag)]) b1
      else (Ok parts, b))"
  by pat_completeness auto
termination
  by (relation "measure (\<lambda>(C, key, upload_id, bytes, pos, parts, b). length bytes - pos)") (auto simp: CHUNK_SIZE_def)

declare upload_parts.simps [simp del]

definition multipart_upload :: "'b s3_client \<Rightarrow> string \<Rightarrow> string \<Rightarrow> 'b \<Rightarrow> ('v s3_error, unit) res \<times> 'b" where
  "multipart_upload C key bytes b =
     (case create_multipart_upload C key b of
        (None, b1) \<Rightarrow> (Fail S3Start, b1)
      | (Some None, b1) \<Rightarrow> (Inl Panic, b1)
      | (Some (Some upload_id), b1) \<Rightarrow>
          (case upload_parts C key upload_id bytes 0 [] b1 of
             (Inl e, b2) \<Rightarrow> (Inl e, b2)
           | (Inr parts, b2) \<Rightarrow>
               (case complete_multipart_upload C key upload_id parts b2 of
                  (False, b3) \<Rightarrow> (Fail S3Finish, b3)
                | (True, b3) \<Rightarrow> (Ok (), b3))))"

definition upload_file :: "'b s3_client \<Rightarrow> string \<Rightarrow> string \<Rightarrow> 'b \<Rightarrow> ('v s3_error, unit) res \<times> 'b" where
  "upload_file C key bytes b =
     (if CHUNK_SIZE < length bytes then multipart_upload C key bytes b
      else (case put_object C key (Raw bytes) b of
              (False, b1) \<Rightarrow> (Fail S3Put, b1) | (True, b1) \<Rightarrow> (Ok (), b1)))"

text \<open>The writer is not flushed: of a write in flight the first \<open>n\<close> bytes are in the file when it is
  read back.\<close>

definition s3_finish_layer :: "'b s3_client \<Rightarrow> (string \<Rightarrow> string) \<Rightarrow> string \<Rightarrow> s3_backend \<Rightarrow> media_type \<Rightarrow> string option \<Rightarrow> nat \<Rightarrow> writer
    \<Rightarrow> 'b s3_state \<Rightarrow> ('v s3_error, layer) res \<times> 'b s3_state" where
  "s3_finish_layer C hash temp_dir S media platform n w s =
     (let tmp = path_join temp_dir (w_target w);
          digest = writer_finish hash w;
          layer = \<lparr>layer_media = media, layer_dig = digest_from digest, layer_size = w_size w,
                   layer_platform = platform\<rparr>;
          landed = (case w_pending w of None \<Rightarrow> [] | Some y \<Rightarrow> take n y)
      in case Option.bind (temp_files s) (\<lambda>f. f tmp) of
           None \<Rightarrow> (Fail S3Temp, s)
         | Some bytes \<Rightarrow>
             (case upload_file C (blob_path S digest) (bytes @ landed) (remote s) of
                (Inl e, b1) \<Rightarrow> (Inl e, s\<lparr>remote := b1\<rparr>)
              | (Inr _, b1) \<Rightarrow>
                  (Ok layer, s\<lparr>remote := b1, temp_files := map_option (\<lambda>f. f(tmp := None)) (temp_files s)\<rparr>)))"

section \<open>What the service documents\<close>

text \<open>
  While the service answers (\<open>up\<close>), requests are strongly consistent: an object is what was
  last put under its key, which one request does for at most 5 GB, a range request returns those
  bytes, deletion of a missing key succeeds. A multipart upload collects parts numbered from 1 to
  10000, of at most 5 GB each; completing it with a list of parts in ascending order, at most 10000
  of them and all but the last at least 5 MiB, stores their concatenation. The size of a catalog's
  text is the parameter \<open>doc_size\<close>.
\<close>

definition PUT_LIMIT :: nat where
  "PUT_LIMIT = 5 * 10 ^ 9"

definition body_length :: "(catalog_doc \<Rightarrow> nat) \<Rightarrow> s3_body \<Rightarrow> nat" where
  "body_length doc_size x = (case x of Raw y \<Rightarrow> length y | Doc d \<Rightarrow> doc_size d)"

type_synonym uploads = "nat \<rightharpoonup> string \<times> (nat \<rightharpoonup> string \<times> string option)"

definition part_data :: "(nat \<rightharpoonup> string \<times> string option) \<Rightarrow> nat \<times> string option \<Rightarrow> string" where
  "part_data m p = fst (the (m (fst p)))"

definition parts_ok :: "(nat \<rightharpoonup> string \<times> string option) \<Rightarrow> (nat \<times> string option) list \<Rightarrow> bool" where
  "parts_ok m ps \<longleftrightarrow> ps \<noteq> [] \<and> length ps \<le> 10000 \<and> sorted_wrt (<) (map fst ps)
     \<and> (\<forall>p \<in> set ps. \<exists>x. m (fst p) = Some (x, snd p))
     \<and> (\<forall>p \<in> set (butlast ps). 5 * 1024 * 1024 \<le> length (part_data m p))"

locale s3_service =
  fixes C :: "'b s3_client"
    and objs :: "'b \<Rightarrow> string \<rightharpoonup> s3_body"
    and uploads :: "'b \<Rightarrow> uploads"
    and up :: "'b \<Rightarrow> bool"
    and doc_size :: "catalog_doc \<Rightarrow> nat"
  assumes head_some: "up b \<Longrightarrow> objs b k = Some x \<Longrightarrow>
      \<exists>b'. head_object C k b = (Some (body_length doc_size x), b') \<and> up b' \<and> objs b' = objs b"
    and head_none: "up b \<Longrightarrow> objs b k = None \<Longrightarrow> \<exists>b'. head_object C k b = (None, b') \<and> up b' \<and> objs b' = objs b"
    and get_whole: "up b \<Longrightarrow> objs b k = Some x \<Longrightarrow>
      \<exists>b'. get_object C k None b = (Some (Some x), b') \<and> up b' \<and> objs b' = objs b"
    and get_range: "up b \<Longrightarrow> objs b k = Some (Raw z) \<Longrightarrow> lo \<le> hi \<Longrightarrow> hi < length z \<Longrightarrow>
      \<exists>b'. get_object C k (Some (lo, hi)) b = (Some (Some (Raw (take (hi + 1 - lo) (drop lo z)))), b')
        \<and> up b' \<and> objs b' = objs b"
    and put_law: "up b \<Longrightarrow> body_length doc_size x \<le> PUT_LIMIT \<Longrightarrow> \<exists>b'. put_object C k x b = (True, b') \<and> up b' \<and> objs b' = (objs b)(k \<mapsto> x)"
    and delete_law: "up b \<Longrightarrow> \<exists>b'. delete_object C k b = (True, b') \<and> up b' \<and> objs b' = (objs b)(k := None)"
    and create_law: "up b \<Longrightarrow> \<exists>u b'. create_multipart_upload C k b = (Some (Some u), b') \<and> up b' \<and> objs b' = objs b
      \<and> uploads b' u = Some (k, Map.empty)"
    and part_law: "up b \<Longrightarrow> uploads b u = Some (k, m) \<Longrightarrow> 1 \<le> n \<Longrightarrow> n \<le> 10000 \<Longrightarrow> length z \<le> PUT_LIMIT \<Longrightarrow> \<exists>t b'. upload_part C k u n z b = (Some t, b') \<and> up b'
      \<and> objs b' = objs b \<and> uploads b' u = Some (k, m(n \<mapsto> (z, t)))"
    and complete_law: "up b \<Longrightarrow> uploads b u = Some (k, m) \<Longrightarrow> parts_ok m ps \<Longrightarrow>
      \<exists>b'. complete_multipart_upload C k u ps b = (True, b') \<and> up b'
        \<and> objs b' = (objs b)(k \<mapsto> Raw (concat (map (part_data m) ps)))"

text \<open>The catalog object, the artifacts it lists and the invariant of the backend.\<close>

definition s3_catalog :: "(string \<rightharpoonup> s3_body) \<Rightarrow> (string \<Rightarrow> 'v option) \<Rightarrow> s3_backend \<Rightarrow> ('v s3_error, 'v catalog) res" where
  "s3_catalog obj vparse S =
     (case obj (s3_catalog_key S) of
        None \<Rightarrow> Ok catalog_default
      | Some (Raw _) \<Rightarrow> Fail S3Deserialize
      | Some (Doc d) \<Rightarrow> map_err (\<lambda>_. S3Deserialize) (catalog_de vparse d))"

definition hex_digests :: "'v catalog \<Rightarrow> bool" where
  "hex_digests c \<longleftrightarrow> (\<forall>a \<in> ran (manifests c). \<forall>d \<in> set (art_digests a). hex_text d)"

definition s3_ok :: "('v::linorder \<Rightarrow> string) \<Rightarrow> (string \<Rightarrow> 'v option) \<Rightarrow> s3_backend \<Rightarrow> (string \<rightharpoonup> s3_body) \<Rightarrow> bool" where
  "s3_ok vshow vparse S obj \<longleftrightarrow> S = s3_new (s3_bucket S) (s3_prefix S) \<and>
     (case s3_catalog obj vparse S of
        Inr c \<Rightarrow> catalog_wf vshow c \<and> catalog_plain c \<and> hex_digests c
      | Inl _ \<Rightarrow> False)"

definition s3_lookup :: "(string \<Rightarrow> 'v option) \<Rightarrow> s3_backend \<Rightarrow> (string \<rightharpoonup> s3_body) \<Rightarrow> 'v artifact_id \<Rightarrow> 'v artifact option" where
  "s3_lookup vparse S obj i = (case s3_catalog obj vparse S of Inl _ \<Rightarrow> None | Inr c \<Rightarrow> catalog_get c i)"

definition s3_valid :: "('v \<Rightarrow> string) \<Rightarrow> 'v artifact \<Rightarrow> bool" where
  "s3_valid vshow a \<longleftrightarrow> id_prefix vshow (art_id a) \<noteq> ''*'' \<and> art_plain a \<and> (\<forall>d \<in> set (art_digests a). hex_text d)"

text \<open>Catalogs whose text fits into one request, and stays there when artifacts are removed.\<close>

definition small_catalogs :: "(catalog_doc \<Rightarrow> nat) \<Rightarrow> ('v::linorder \<Rightarrow> string) \<Rightarrow> 'v catalog set \<Rightarrow> bool" where
  "small_catalogs doc_size vshow K \<longleftrightarrow>
     (\<forall>c \<in> K. doc_size (catalog_ser vshow c) \<le> PUT_LIMIT \<and> (\<forall>i. catalog_del vshow i c \<in> K))"

lemma s3_okE:
  assumes "s3_ok vshow vparse S obj"
  obtains c where "s3_catalog obj vparse S = Ok c" and "catalog_wf vshow c" and "catalog_plain c" and "hex_digests c"
    and "S = s3_new (s3_bucket S) (s3_prefix S)"
  using assms by (auto simp: s3_ok_def split: sum.splits)

lemma s3_okI:
  "s3_catalog obj vparse S = Ok c \<Longrightarrow> catalog_wf vshow c \<Longrightarrow> catalog_plain c \<Longrightarrow> hex_digests c
   \<Longrightarrow> S = s3_new (s3_bucket S) (s3_prefix S) \<Longrightarrow> s3_ok vshow vparse S obj"
  by (simp add: s3_ok_def)

lemma s3_keys:
  "lock_key S \<noteq> s3_catalog_key S"
  "hex_text d \<Longrightarrow> S = s3_new x p \<Longrightarrow> blob_path S d \<noteq> s3_catalog_key S"
  "hex_text d \<Longrightarrow> S = s3_new x p \<Longrightarrow> blob_path S d \<noteq> lock_key S"
proof -
  show "lock_key S \<noteq> s3_catalog_key S" by (simp add: lock_key_def)
  assume d: "hex_text d" and S: "S = s3_new x p"
  have "blob_key S \<noteq> []" by (simp add: blob_key_def path_join_def is_absolute_def split: option.splits)
  then have "last (blob_path S d) = (if d = [] then CHR ''/'' else last d)"
    by (simp add: blob_path_def last_path_join)
  moreover have "CHR ''n'' \<notin> set d" "CHR ''k'' \<notin> set d" using d by (auto simp: hex_text_def)
  then have "d \<noteq> [] \<Longrightarrow> last d \<noteq> CHR ''n'' \<and> last d \<noteq> CHR ''k''" using last_in_set by metis
  ultimately have "last (blob_path S d) \<noteq> CHR ''n'' \<and> last (blob_path S d) \<noteq> CHR ''k''" by auto
  moreover have "last (s3_catalog_key S) = CHR ''n''" "last (lock_key S) = CHR ''k''"
    by (auto simp: S s3_new_def lock_key_def split: option.splits)
  ultimately show "blob_path S d \<noteq> s3_catalog_key S" "blob_path S d \<noteq> lock_key S" by auto
qed

lemma blob_path_inj: "hex_text d \<Longrightarrow> hex_text e \<Longrightarrow> blob_path S d = blob_path S e \<Longrightarrow> d = e"
proof -
  assume "hex_text d" and "hex_text e"
  then have "\<not> is_absolute d" "\<not> is_absolute e" by (auto simp: is_absolute_def hex_text_def dest!: hd_in_set)
  then show "blob_path S d = blob_path S e \<Longrightarrow> d = e" by (auto simp: blob_path_def path_join_def split: if_splits)
qed

lemma s3_catalog_flushed:
  "catalog_wf vshow c \<Longrightarrow> catalog_plain c \<Longrightarrow> obj (s3_catalog_key S) = Some (Doc (catalog_ser vshow c))
   \<Longrightarrow> s3_catalog obj vparse S = Ok c"
  by (simp add: s3_catalog_def catalog_codec.dec_enc)

lemma hex_add: "hex_digests c \<Longrightarrow> s3_valid vshow a \<Longrightarrow> hex_digests (catalog_add vshow a c)"
  by (auto simp: hex_digests_def s3_valid_def ran_def)

lemma hex_del: "hex_digests c \<Longrightarrow> hex_digests (catalog_del vshow i c)"
  by (auto simp: hex_digests_def ran_def)

section \<open>Chunks\<close>

text \<open>The reference for the multipart loop: the bytes cut into pieces of \<open>n\<close> bytes.\<close>

function chunks :: "nat \<Rightarrow> string \<Rightarrow> string list" where
  "chunks n x = (if x = [] \<or> n = 0 then [] else take n x # chunks n (drop n x))"
  by pat_completeness auto
termination by (relation "measure (\<lambda>(n, x). length x)") auto

declare chunks.simps [simp del]

lemma chunks_Nil [simp]: "chunks n [] = []"
  by (simp add: chunks.simps)

lemma chunks_concat: "0 < n \<Longrightarrow> concat (chunks n x) = x"
  by (induction n x rule: chunks.induct) (subst chunks.simps, auto)

lemma chunks_eq_Nil: "0 < n \<Longrightarrow> chunks n x = [] \<longleftrightarrow> x = []"
  by (subst chunks.simps) simp

lemma chunks_sizes: "y \<in> set (butlast (chunks n x)) \<Longrightarrow> length y = n"
proof (induction n x rule: chunks.induct)
  case (1 n x)
  show ?case
  proof (cases "x = [] \<or> n = 0")
    case False
    have step: "chunks n x = take n x # chunks n (drop n x)" using False by (subst chunks.simps) simp
    show ?thesis
    proof (cases "chunks n (drop n x) = []")
      case True
      then show ?thesis using "1.prems" step by simp
    next
      case nonempty: False
      then have "drop n x \<noteq> []" by auto
      then show ?thesis using "1.prems" "1.IH" [OF False] step nonempty by (auto split: if_splits)
    qed
  qed (use "1.prems" in \<open>auto simp: chunks.simps\<close>)
qed

lemma chunks_count: "0 < n \<Longrightarrow> length x \<le> k * n \<Longrightarrow> length (chunks n x) \<le> k"
proof (induction n x arbitrary: k rule: chunks.induct)
  case (1 n x)
  show ?case
  proof (cases "x = []")
    case False
    then obtain j where k: "k = Suc j" using "1.prems" by (cases k) auto
    then have "length (drop n x) \<le> j * n" using "1.prems" by simp
    with "1.IH" [of j] False "1.prems"(1) have "length (chunks n (drop n x)) \<le> j" by simp
    then show ?thesis using False "1.prems"(1) by (subst chunks.simps) (simp add: k)
  qed simp
qed

text \<open>The parts of an upload whose pieces are \<open>cs\<close> with tags \<open>ts\<close>, numbered from \<open>Suc n\<close>.\<close>

definition numbered :: "nat \<Rightarrow> string option list \<Rightarrow> (nat \<times> string option) list" where
  "numbered n ts = zip [Suc n..<Suc n + length ts] ts"

definition stored_parts :: "nat \<Rightarrow> string list \<Rightarrow> string option list \<Rightarrow> nat \<rightharpoonup> string \<times> string option" where
  "stored_parts n cs ts = map_of (zip [Suc n..<Suc n + length ts] (zip cs ts))"

lemma numbered_Cons: "numbered n (t # ts) = (Suc n, t) # numbered (Suc n) ts"
  by (simp add: numbered_def upt_conv_Cons del: upt_Suc)

lemma stored_parts_Cons:
  "m ++ stored_parts n (c # cs) (t # ts) = m(Suc n \<mapsto> (c, t)) ++ stored_parts (Suc n) cs ts"
proof -
  have "stored_parts n (c # cs) (t # ts) = (stored_parts (Suc n) cs ts)(Suc n \<mapsto> (c, t))"
    by (simp add: stored_parts_def upt_conv_Cons del: upt_Suc)
  moreover have "stored_parts (Suc n) cs ts (Suc n) = None"
    by (auto simp: stored_parts_def map_of_eq_None_iff dest: set_zip_leftD)
  ultimately show ?thesis by (auto simp: fun_eq_iff map_add_def split: option.splits)
qed

lemma parts_data:
  "length cs = length ts \<Longrightarrow> map (part_data (stored_parts n cs ts)) (numbered n ts) = cs"
  "length cs = length ts \<Longrightarrow> p \<in> set (numbered n ts) \<Longrightarrow> \<exists>x. stored_parts n cs ts (fst p) = Some (x, snd p)"
proof -
  assume len: "length cs = length ts"
  have at: "stored_parts n cs ts (Suc n + i) = Some (cs ! i, ts ! i)" if "i < length ts" for i
  proof -
    have "zip [Suc n..<Suc n + length ts] (zip cs ts) ! i = (Suc n + i, cs ! i, ts ! i)"
      using that len by (simp del: upt_Suc)
    then have "(Suc n + i, cs ! i, ts ! i) \<in> set (zip [Suc n..<Suc n + length ts] (zip cs ts))"
      using that len by (metis (no_types, lifting) add_diff_cancel_left' length_upt length_zip min.idem nth_mem)
    then show ?thesis unfolding stored_parts_def by (intro map_of_is_SomeI) (simp_all add: len)
  qed
  have nth: "numbered n ts ! i = (Suc n + i, ts ! i)" if "i < length ts" for i
    using that by (simp add: numbered_def del: upt_Suc)
  have ln: "length (numbered n ts) = length ts" by (simp add: numbered_def del: upt_Suc)
  show "map (part_data (stored_parts n cs ts)) (numbered n ts) = cs"
    using at nth ln len by (intro nth_equalityI) (simp_all add: part_data_def)
  show "p \<in> set (numbered n ts) \<Longrightarrow> \<exists>x. stored_parts n cs ts (fst p) = Some (x, snd p)"
    using at nth ln by (auto simp: in_set_conv_nth)
qed

section \<open>Polling a reader\<close>

text \<open>The answer of the service to the request of a reader of the object \<open>x\<close>, and the bytes a
  client gets that polls with buffers of the given sizes until it is told the end (\<open>None\<close> when
  the list of polls is too short). A poll marked \<open>True\<close> finds the request still waiting.\<close>

definition reply :: "string \<Rightarrow> bool \<Rightarrow> object_reader \<Rightarrow> s3_answer" where
  "reply x waiting r =
     (if waiting then Waiting
      else case or_active r of InFlight lo hi \<Rightarrow> Body (take (hi + 1 - lo) (drop lo x)) | _ \<Rightarrow> Waiting)"

fun reader_run :: "string \<Rightarrow> (nat \<times> bool) list \<Rightarrow> object_reader \<Rightarrow> string option" where
  "reader_run x [] r = None"
| "reader_run x ((n, waiting) # ps) r =
     (case poll_read n (reply x waiting r) r of
        (Pending, r1) \<Rightarrow> reader_run x ps r1
      | (Ready y, r1) \<Rightarrow> if y = [] then Some [] else map_option ((@) y) (reader_run x ps r1)
      | _ \<Rightarrow> None)"

definition reader_wf :: "string \<Rightarrow> object_reader \<Rightarrow> bool" where
  "reader_wf x r \<longleftrightarrow> or_size r = length x \<and> or_position r \<le> length x
     \<and> (case or_active r of
          Idle \<Rightarrow> True
        | InFlight lo hi \<Rightarrow> lo = or_position r \<and> lo \<le> hi \<and> hi < length x
        | Spent \<Rightarrow> False)"

text \<open>What is still to be delivered, and a bound on the polls that deliver it.\<close>

definition undelivered :: "string \<Rightarrow> object_reader \<Rightarrow> string" where
  "undelivered x r = or_buffer r @ drop (or_position r) x"

definition polls_left :: "string \<Rightarrow> object_reader \<Rightarrow> nat" where
  "polls_left x r = 3 * (length x - or_position r) + length (or_buffer r) + (if or_active r = Idle then 1 else 0)"

lemma poll_step:
  assumes wf: "reader_wf x r" and n: "0 < n" and step: "poll_read n (reply x waiting r) r = (p, r1)"
  shows "reader_wf x r1 \<and>
    (case p of
       Pending \<Rightarrow> undelivered x r1 = undelivered x r
         \<and> (if waiting \<and> or_active r \<noteq> Idle then r1 = r else polls_left x r1 < polls_left x r)
     | Ready y \<Rightarrow> undelivered x r = y @ undelivered x r1
         \<and> (y = [] \<longrightarrow> undelivered x r = []) \<and> (y \<noteq> [] \<longrightarrow> polls_left x r1 < polls_left x r)
     | _ \<Rightarrow> False)"
proof (cases "or_active r")
  case Idle
  show ?thesis
  proof (cases "n < length (or_buffer r) \<or> or_size r \<le> or_position r")
    case True
    then show ?thesis using wf step n Idle
      by (auto simp: poll_read_def reader_wf_def undelivered_def polls_left_def split: if_splits)
  next
    case False
    define k where "k = min CHUNK_SIZE (or_size r - or_position r)"
    have k: "0 < k" "or_position r + k \<le> length x"
      using False wf by (auto simp: k_def CHUNK_SIZE_def reader_wf_def)
    have "p = Pending" "r1 = start_request k r" using step False Idle by (simp_all add: poll_read_def k_def)
    then show ?thesis using wf k Idle
      by (auto simp: reader_wf_def start_request_def undelivered_def polls_left_def)
  qed
next
  case (InFlight lo hi)
  then have b: "lo = or_position r" "lo \<le> hi" "hi < length x" "or_size r = length x" using wf by (simp_all add: reader_wf_def)
  show ?thesis
  proof (cases waiting)
    case True
    then show ?thesis using wf step InFlight by (auto simp: poll_read_def reply_def)
  next
    case False
    define y where "y = take (hi + 1 - lo) (drop lo x)"
    have y: "length y = hi + 1 - lo" using b by (simp add: y_def)
    have r1: "p = Pending" "r1 = r\<lparr>or_active := Idle, or_position := or_position r + length y, or_buffer := or_buffer r @ y\<rparr>"
      using step False InFlight by (simp_all add: poll_read_def reply_def y_def)
    have "drop lo x = y @ drop (hi + 1) x"
      using b append_take_drop_id [of "hi + 1 - lo" "drop lo x"] by (simp add: y_def drop_drop)
    then show ?thesis using r1 False InFlight b y
      by (simp add: reader_wf_def undelivered_def polls_left_def)
  qed
next
  case Spent
  then show ?thesis using wf by (simp add: reader_wf_def)
qed

lemma reader_run_delivers:
  assumes "reader_wf x r" and "\<forall>(n, w) \<in> set ps. 0 < n"
    and "polls_left x r < length (filter (\<lambda>(n, w). \<not> w) ps)"
  shows "reader_run x ps r = Some (undelivered x r)"
  using assms
proof (induction ps arbitrary: r)
  case (Cons p ps)
  obtain n w where p: "p = (n, w)" by (cases p)
  obtain q r1 where q: "poll_read n (reply x w r) r = (q, r1)" by (cases "poll_read n (reply x w r) r")
  have n: "0 < n" using Cons.prems(2) p by simp
  note step = poll_step [OF Cons.prems(1) n q]
  have ps: "\<forall>(n, w) \<in> set ps. 0 < n" using Cons.prems(2) by simp
  have next_poll: "polls_left x r1 < length (filter (\<lambda>(n, w). \<not> w) ps)"
    if "polls_left x r1 < polls_left x r \<or> (w \<and> r1 = r)"
    using that Cons.prems(3) p by (auto split: if_splits)
  show ?case
  proof (cases q)
    case Pending
    then have "reader_run x ps r1 = Some (undelivered x r)"
      using step Cons.IH [OF _ ps] next_poll by (auto split: if_splits)
    then show ?thesis by (simp add: p q Pending)
  next
    case (Ready y)
    show ?thesis
    proof (cases "y = []")
      case True
      then have "undelivered x r = []" using step Ready by auto
      then show ?thesis using True by (simp add: p q Ready)
    next
      case False
      then have "reader_run x ps r1 = Some (undelivered x r1)"
        using step Ready Cons.IH [OF _ ps] next_poll by auto
      then show ?thesis using step False by (simp add: p q Ready)
    qed
  qed (use step in auto)
qed simp

section \<open>The catalog on a service that answers\<close>

context s3_service
begin

lemma load_ok:
  assumes "up b"
  shows "\<exists>b'. s3_load C vparse S b = (s3_catalog (objs b) vparse S, b') \<and> up b' \<and> objs b' = objs b"
proof (cases "objs b (s3_catalog_key S)")
  case None
  with head_none [OF assms None] show ?thesis by (auto simp: s3_load_def s3_catalog_def)
next
  case (Some x)
  from head_some [OF assms Some] obtain n b1 where
    h: "head_object C (s3_catalog_key S) b = (Some n, b1)" "up b1" "objs b1 = objs b" by metis
  from get_whole [OF h(2)] h(3) Some obtain b2 where
    g: "get_object C (s3_catalog_key S) None b1 = (Some (Some x), b2)" "up b2" "objs b2 = objs b" by auto
  then show ?thesis by (cases x) (simp_all add: s3_load_def s3_catalog_def h(1) Some)
qed

lemma wait_keeps: "up b \<Longrightarrow> up (wait_lock C S n b) \<and> objs (wait_lock C S n b) = objs b"
proof (induction "5 - n" arbitrary: n b rule: less_induct)
  case less
  show ?case
  proof (cases "objs b (lock_key S)")
    case None
    from head_none [OF less.prems None] show ?thesis by (subst (1 2) wait_lock.simps) auto
  next
    case (Some x)
    from head_some [OF less.prems Some] obtain m b1 where
      h: "head_object C (lock_key S) b = (Some m, b1)" "up b1" "objs b1 = objs b" by metis
    have "n < 5 \<Longrightarrow> up (wait_lock C S (n + 1) b1) \<and> objs (wait_lock C S (n + 1) b1) = objs b"
      using less.hyps [of "n + 1" b1] h by simp
    then show ?thesis using h by (subst (1 2) wait_lock.simps) auto
  qed
qed

lemma flush_ok:
  assumes "up b" and "doc_size (catalog_ser vshow c) \<le> PUT_LIMIT"
  shows "\<exists>b'. s3_flush C vshow S c b = (Ok (), b') \<and> up b'
    \<and> objs b' = (objs b)(s3_catalog_key S \<mapsto> Doc (catalog_ser vshow c), lock_key S := None)"
proof -
  define w where "w = wait_lock C S 1 b"
  have w: "up w" "objs w = objs b" using wait_keeps [OF assms(1), of S 1] by (simp_all add: w_def)
  have small: "body_length doc_size (Raw ''lock'') \<le> PUT_LIMIT" "body_length doc_size (Doc (catalog_ser vshow c)) \<le> PUT_LIMIT"
    using assms(2) by (simp_all add: body_length_def PUT_LIMIT_def)
  from put_law [OF w(1) small(1), of "lock_key S"] obtain b1 where
    1: "put_object C (lock_key S) (Raw ''lock'') w = (True, b1)" "up b1" "objs b1 = (objs b)(lock_key S \<mapsto> Raw ''lock'')"
    using w(2) by auto
  from put_law [OF 1(2) small(2), of "s3_catalog_key S"] obtain b2 where
    2: "put_object C (s3_catalog_key S) (Doc (catalog_ser vshow c)) b1 = (True, b2)" "up b2"
      "objs b2 = (objs b1)(s3_catalog_key S \<mapsto> Doc (catalog_ser vshow c))" by auto
  from delete_law [OF 2(2), of "lock_key S"] obtain b3 where
    3: "delete_object C (lock_key S) b2 = (True, b3)" "up b3" "objs b3 = (objs b2)(lock_key S := None)" by auto
  have "objs b3 = (objs b)(s3_catalog_key S \<mapsto> Doc (catalog_ser vshow c), lock_key S := None)"
    by (simp add: 3(3) 2(3) 1(3) fun_eq_iff)
  moreover have "s3_flush C vshow S c b = (Ok (), b3)"
    unfolding s3_flush_def w_def [symmetric] by (simp add: 1(1) 2(1) 3(1))
  ultimately show ?thesis using 3(2) by blast
qed

lemma save_law:
  assumes b: "up b" and inv: "s3_ok vshow vparse S (objs b)" and a: "s3_valid vshow a"
    and cat0: "s3_catalog (objs b) vparse S = Ok c" and fits: "doc_size (catalog_ser vshow (catalog_add vshow a c)) \<le> PUT_LIMIT"
  shows "\<exists>b'. s3_save C vshow vparse S a b = (Ok (), b') \<and> up b' \<and> s3_ok vshow vparse S (objs b')
    \<and> s3_lookup vparse S (objs b') = (s3_lookup vparse S (objs b))(art_id a \<mapsto> a)
    \<and> s3_catalog (objs b') vparse S = Ok (catalog_add vshow a c)
    \<and> (\<forall>k. k \<noteq> s3_catalog_key S \<longrightarrow> k \<noteq> lock_key S \<longrightarrow> objs b' k = objs b k)"
proof -
  have c: "s3_catalog (objs b) vparse S = Ok c" "catalog_wf vshow c" "catalog_plain c" "hex_digests c"
    "S = s3_new (s3_bucket S) (s3_prefix S)" using cat0 inv by (auto simp: s3_ok_def)
  let ?c = "catalog_add vshow a c"
  have wf: "catalog_wf vshow ?c" "catalog_plain ?c" "hex_digests ?c"
    using c a by (simp_all add: add_wf plain_add hex_add s3_valid_def)
  from load_ok [OF b] c(1) obtain b1 where
    1: "s3_load C vparse S b = (Ok c, b1)" "up b1" "objs b1 = objs b" by metis
  from flush_ok [OF 1(2) fits, of S] obtain b2 where
    2: "s3_flush C vshow S ?c b1 = (Ok (), b2)" "up b2"
      "objs b2 = (objs b)(s3_catalog_key S \<mapsto> Doc (catalog_ser vshow ?c), lock_key S := None)"
    by (auto simp: 1(3))
  have cat: "s3_catalog (objs b2) vparse S = Ok ?c"
    using s3_keys(1) [of S] by (intro s3_catalog_flushed [OF wf(1,2)]) (simp add: 2(3))
  have "s3_save C vshow vparse S a b = (Ok (), b2)" by (simp add: s3_save_def bindS_def 1(1) 2(1))
  moreover have "s3_ok vshow vparse S (objs b2)" by (rule s3_okI [OF cat wf c(5)])
  moreover have "s3_lookup vparse S (objs b2) = (s3_lookup vparse S (objs b))(art_id a \<mapsto> a)"
    by (simp add: s3_lookup_def cat c(1) fun_eq_iff catalog_get_def)
  ultimately show ?thesis using 2(2,3) cat by (intro exI [of _ b2]) simp
qed

lemma del_blobs_law:
  "up b \<Longrightarrow> \<exists>b'. foreachS (s3_del_blob C S c) ls b = (Ok (), b') \<and> up b'
    \<and> objs b' = objs b |` (- blob_path S ` unreferenced c ls)"
proof (induction ls arbitrary: b)
  case Nil
  then show ?case by (simp add: unreferenced_def)
next
  case (Cons l ls)
  let ?d = "layer_digest_text l"
  show ?case
  proof (cases "count_at (blob_counts c) ?d \<le> 0")
    case True
    from delete_law [OF Cons.prems, of "blob_path S ?d"] obtain b1 where
      1: "delete_object C (blob_path S ?d) b = (True, b1)" "up b1" "objs b1 = (objs b)(blob_path S ?d := None)" by blast
    have "unreferenced c (l # ls) = insert ?d (unreferenced c ls)" using True by (auto simp: unreferenced_def)
    then have "objs b1 |` (- blob_path S ` unreferenced c ls) = objs b |` (- blob_path S ` unreferenced c (l # ls))"
      by (auto simp: 1(3) restrict_map_def fun_eq_iff)
    with Cons.IH [OF 1(2)] True show ?thesis by (auto simp: s3_del_blob_def catalog_count_def 1(1))
  next
    case False
    then have "unreferenced c (l # ls) = unreferenced c ls" by (auto simp: unreferenced_def)
    with Cons False show ?thesis by (simp add: s3_del_blob_def catalog_count_def)
  qed
qed

lemma del_law:
  assumes b: "up b" and inv: "s3_ok vshow vparse S (objs b)"
    and cat0: "s3_catalog (objs b) vparse S = Ok c" and fits: "doc_size (catalog_ser vshow (catalog_del vshow i c)) \<le> PUT_LIMIT"
  shows "\<exists>b'. s3_del C vshow vparse S i b = (Ok (), b') \<and> up b' \<and> s3_ok vshow vparse S (objs b')
    \<and> s3_lookup vparse S (objs b') = (s3_lookup vparse S (objs b))(i := None)
    \<and> s3_catalog (objs b') vparse S \<in> {Ok c, Ok (catalog_del vshow i c)}
    \<and> (\<forall>j a. s3_lookup vparse S (objs b') j = Some a \<longrightarrow>
          (\<forall>d \<in> set (art_digests a). objs b' (blob_path S d) = objs b (blob_path S d)))"
proof -
  have c: "s3_catalog (objs b) vparse S = Ok c" "catalog_wf vshow c" "catalog_plain c" "hex_digests c"
    "S = s3_new (s3_bucket S) (s3_prefix S)" using cat0 inv by (auto simp: s3_ok_def)
  from load_ok [OF b] c(1) obtain b1 where
    1: "s3_load C vparse S b = (Ok c, b1)" "up b1" "objs b1 = objs b" by metis
  have has: "s3_has C vparse S i b = (Ok (manifests c i \<noteq> None), b1)"
    by (simp add: s3_has_def bindS_def 1(1) catalog_has_def)
  show ?thesis
  proof (cases "manifests c i")
    case None
    then have "s3_del C vshow vparse S i b = (Ok (), b1)" by (simp add: s3_del_def bindS_def has)
    moreover have "s3_lookup vparse S (objs b) i = None" by (simp add: s3_lookup_def c(1) catalog_get_def None)
    ultimately show ?thesis using 1(2) inv by (intro exI [of _ b1]) (simp add: 1(3) c(1) fun_upd_idem)
  next
    case (Some a)
    let ?c = "catalog_del vshow i c"
    let ?gone = "blob_path S ` unreferenced ?c (art_layers a)"
    have wf: "catalog_wf vshow ?c" "catalog_plain ?c" "hex_digests ?c"
      using c by (simp_all add: del_wf plain_del hex_del)
    from load_ok [OF 1(2)] c(1) 1(3) obtain b2 where
      2: "s3_load C vparse S b1 = (Ok c, b2)" "up b2" "objs b2 = objs b" by metis
    from flush_ok [OF 2(2) fits, of S] obtain b3 where
      3: "s3_flush C vshow S ?c b2 = (Ok (), b3)" "up b3"
        "objs b3 = (objs b)(s3_catalog_key S \<mapsto> Doc (catalog_ser vshow ?c), lock_key S := None)"
      by (auto simp: 2(3))
    from del_blobs_law [OF 3(2)] obtain b4 where
      4: "foreachS (s3_del_blob C S ?c) (art_layers a) b3 = (Ok (), b4)" "up b4" "objs b4 = objs b3 |` (- ?gone)" by blast
    have run: "s3_del C vshow vparse S i b = (Ok (), b4)"
      using Some by (simp add: s3_del_def bindS_def has 2(1) catalog_get_def 3(1) 4(1))
    have hex: "hex_text d" if "d \<in> unreferenced ?c (art_layers a)" for d
      using that Some c(4) by (auto simp: unreferenced_def hex_digests_def art_digests_def ran_def)
    then have key: "s3_catalog_key S \<notin> ?gone" using s3_keys(2) [OF _ c(5)] by (metis imageE)
    have cat: "s3_catalog (objs b4) vparse S = Ok ?c"
      using s3_keys(1) [of S] key by (intro s3_catalog_flushed [OF wf(1,2)]) (simp add: 3(3) 4(3) restrict_map_def)
    have "objs b4 (blob_path S d) = objs b (blob_path S d)"
      if "manifests ?c j = Some x" and d: "d \<in> set (art_digests x)" for j x d
    proof -
      have x: "x \<in> ran (manifests ?c)" using that(1) by (rule ranI)
      then have "hex_text d" using wf(3) d by (auto simp: hex_digests_def)
      moreover have "d \<notin> unreferenced ?c (art_layers a)"
        using referenced_count [OF _ x, of "art_layers a"] wf(1) d by (auto simp: catalog_wf_def)
      ultimately have "blob_path S d \<notin> ?gone" using hex blob_path_inj by (metis imageE)
      then show ?thesis using s3_keys(2,3) [OF \<open>hex_text d\<close> c(5)] by (simp add: 4(3) 3(3) restrict_map_def)
    qed
    then show ?thesis
      using run 4(2) s3_okI [OF cat wf c(5)]
      by (intro exI [of _ b4]) (auto simp: s3_lookup_def cat c(1) catalog_get_def fun_eq_iff)
  qed
qed

lemma upload_parts_law:
  assumes "up b" and "uploads b u = Some (k, m)" and "length parts + length (chunks CHUNK_SIZE (drop pos bytes)) \<le> 10000"
  shows "\<exists>ts b'. length ts = length (chunks CHUNK_SIZE (drop pos bytes))
    \<and> upload_parts C k u bytes pos parts b = (Ok (parts @ numbered (length parts) ts) :: ('v s3_error, _) res, b')
    \<and> up b' \<and> objs b' = objs b
    \<and> uploads b' u = Some (k, m ++ stored_parts (length parts) (chunks CHUNK_SIZE (drop pos bytes)) ts)"
  using assms
proof (induction "length bytes - pos" arbitrary: pos parts b m rule: less_induct)
  case less
  show ?case
  proof (cases "pos < length bytes")
    case False
    then have "upload_parts C k u bytes pos parts b = (Ok parts, b)" by (subst upload_parts.simps) simp
    with False less.prems show ?thesis
      by (intro exI [of _ "[]"] exI [of _ b]) (simp add: numbered_def stored_parts_def)
  next
    case True
    define n where "n = (if CHUNK_SIZE < length bytes - pos then CHUNK_SIZE else length bytes - pos)"
    define x where "x = take n (drop pos bytes)"
    have n: "0 < n" "n \<le> length bytes - pos" using True by (auto simp: n_def CHUNK_SIZE_def)
    have cs: "chunks CHUNK_SIZE (drop pos bytes) = x # chunks CHUNK_SIZE (drop (pos + n) bytes)"
      using True by (subst chunks.simps) (auto simp: x_def n_def CHUNK_SIZE_def drop_drop add.commute)
    have "length x \<le> PUT_LIMIT" by (simp add: x_def n_def CHUNK_SIZE_def PUT_LIMIT_def)
    moreover have "length parts + 1 \<le> 10000" using less.prems(3) cs by simp
    ultimately obtain t b1 where
      1: "upload_part C k u (length parts + 1) x b = (Some t, b1)" "up b1" "objs b1 = objs b"
        "uploads b1 u = Some (k, m(Suc (length parts) \<mapsto> (x, t)))"
      using part_law [OF less.prems(1,2), of "length parts + 1" x] by auto
    let ?parts = "parts @ [(length parts + 1, t)]"
    have "length bytes - (pos + n) < length bytes - pos" using True n by linarith
    moreover have "length ?parts + length (chunks CHUNK_SIZE (drop (pos + n) bytes)) \<le> 10000" using less.prems(3) cs by simp
    ultimately obtain ts b2 where
      2: "length ts = length (chunks CHUNK_SIZE (drop (pos + n) bytes))"
        "upload_parts C k u bytes (pos + n) ?parts b1 = (Ok (?parts @ numbered (length ?parts) ts) :: ('v s3_error, _) res, b2)"
        "up b2" "objs b2 = objs b1"
        "uploads b2 u = Some (k, m(Suc (length parts) \<mapsto> (x, t))
          ++ stored_parts (length ?parts) (chunks CHUNK_SIZE (drop (pos + n) bytes)) ts)"
      using less.hyps [of "pos + n" b1 "m(Suc (length parts) \<mapsto> (x, t))" ?parts] 1(2,4) by auto
    have "(upload_parts C k u bytes pos parts b :: ('v s3_error, _) res \<times> 'b) = upload_parts C k u bytes (pos + n) ?parts b1"
      using True 1(1) by (subst upload_parts.simps) (simp add: Let_def n_def x_def)
    with 2 1(3) show ?thesis unfolding cs
      by (intro exI [of _ "t # ts"] exI [of _ b2]) (simp add: numbered_Cons stored_parts_Cons)
  qed
qed

lemma numbered_parts_ok:
  assumes "bytes \<noteq> []" and "length bytes \<le> 10000 * CHUNK_SIZE" and "length ts = length (chunks CHUNK_SIZE bytes)"
  shows "parts_ok (stored_parts 0 (chunks CHUNK_SIZE bytes) ts) (numbered 0 ts)"
proof -
  have pos: "0 < CHUNK_SIZE" by (simp add: CHUNK_SIZE_def)
  have fst: "map fst (numbered 0 ts) = [1..<Suc (length ts)]" by (simp add: numbered_def del: upt_Suc)
  have data: "map (part_data (stored_parts 0 (chunks CHUNK_SIZE bytes) ts)) (numbered 0 ts) = chunks CHUNK_SIZE bytes"
    using assms(3) by (intro parts_data(1)) simp
  have "length (part_data (stored_parts 0 (chunks CHUNK_SIZE bytes) ts) p) = CHUNK_SIZE"
    if "p \<in> set (butlast (numbered 0 ts))" for p
  proof -
    have "part_data (stored_parts 0 (chunks CHUNK_SIZE bytes) ts) p \<in> set (butlast (chunks CHUNK_SIZE bytes))"
      using that map_butlast [of "part_data (stored_parts 0 (chunks CHUNK_SIZE bytes) ts)" "numbered 0 ts"] data
      by (metis image_eqI list.set_map)
    then show ?thesis by (rule chunks_sizes)
  qed
  moreover have "length ts \<le> 10000" using chunks_count [OF pos assms(2)] assms(3) by simp
  moreover have "numbered 0 ts \<noteq> []" using chunks_eq_Nil [OF pos, of bytes] assms(1,3) by (cases ts) (auto simp: numbered_Cons)
  moreover have "length (numbered 0 ts) = length ts" by (simp add: numbered_def del: upt_Suc)
  ultimately show ?thesis
    unfolding parts_ok_def fst using parts_data(2) [of "chunks CHUNK_SIZE bytes" ts] assms(3)
    by (auto simp: CHUNK_SIZE_def sorted_wrt_upt simp del: upt_Suc)
qed

lemma upload_file_law:
  assumes "up b" and "length bytes \<le> 10000 * CHUNK_SIZE"
  shows "\<exists>b'. upload_file C k bytes b = (Ok () :: ('v s3_error, unit) res, b') \<and> up b' \<and> objs b' = (objs b)(k \<mapsto> Raw bytes)"
proof (cases "CHUNK_SIZE < length bytes")
  case False
  then have "body_length doc_size (Raw bytes) \<le> PUT_LIMIT" by (simp add: body_length_def CHUNK_SIZE_def PUT_LIMIT_def)
  from put_law [OF assms(1) this, of k] False show ?thesis by (auto simp: upload_file_def)
next
  case True
  from create_law [OF assms(1)] obtain u b1 where
    1: "create_multipart_upload C k b = (Some (Some u), b1)" "up b1" "objs b1 = objs b" "uploads b1 u = Some (k, Map.empty)" by blast
  have "length [] + length (chunks CHUNK_SIZE (drop 0 bytes)) \<le> 10000"
    using chunks_count [OF _ assms(2)] by (simp add: CHUNK_SIZE_def)
  from upload_parts_law [OF 1(2,4) this] obtain ts b2 where
    2: "length ts = length (chunks CHUNK_SIZE bytes)" "upload_parts C k u bytes 0 [] b1 = (Ok (numbered 0 ts) :: ('v s3_error, _) res, b2)" "up b2"
      "objs b2 = objs b" "uploads b2 u = Some (k, stored_parts 0 (chunks CHUNK_SIZE bytes) ts)" using 1(3) by auto
  have "bytes \<noteq> []" using True by auto
  from complete_law [OF 2(3,5) numbered_parts_ok [OF this assms(2) 2(1)]] obtain b3 where
    3: "complete_multipart_upload C k u (numbered 0 ts) b2 = (True, b3)" "up b3"
      "objs b3 = (objs b)(k \<mapsto> Raw (concat (map (part_data (stored_parts 0 (chunks CHUNK_SIZE bytes) ts)) (numbered 0 ts))))"
    using 2(4) by auto
  have "concat (map (part_data (stored_parts 0 (chunks CHUNK_SIZE bytes) ts)) (numbered 0 ts)) = bytes"
    using parts_data(1) 2(1) chunks_concat [of CHUNK_SIZE bytes] by (simp add: CHUNK_SIZE_def)
  moreover have "upload_file C k bytes b = (Ok () :: ('v s3_error, unit) res, b3)"
    using True by (simp add: upload_file_def multipart_upload_def 1(1) 2(2) 3(1))
  ultimately show ?thesis using 3(2,3) by auto
qed

lemma query_laws:
  assumes b: "up b" and inv: "s3_ok vshow vparse S (objs b)"
  shows "\<exists>b'. s3_has C vparse S i b = (Ok (s3_lookup vparse S (objs b) i \<noteq> None), b') \<and> up b' \<and> objs b' = objs b"
    and "\<exists>b'. s3_open C vparse S i b = (ok_or (S3NotFound i) (s3_lookup vparse S (objs b) i), b') \<and> up b' \<and> objs b' = objs b"
    and "\<exists>b'. s3_list C vparse S b = (Ok (dom (s3_lookup vparse S (objs b))), b') \<and> up b' \<and> objs b' = objs b"
proof -
  from inv obtain c where c: "s3_catalog (objs b) vparse S = Ok c" "catalog_wf vshow c" by (rule s3_okE)
  from load_ok [OF b] c(1) obtain b1 where
    1: "s3_load C vparse S b = (Ok c, b1)" "up b1" "objs b1 = objs b" by metis
  have lk: "s3_lookup vparse S (objs b) = manifests c" by (simp add: s3_lookup_def c(1) catalog_get_def fun_eq_iff)
  have "list_all c = dom (manifests c)" using c(2) index_wfD(3) by (auto simp: catalog_wf_def)
  then show "\<exists>b'. s3_list C vparse S b = (Ok (dom (s3_lookup vparse S (objs b))), b') \<and> up b' \<and> objs b' = objs b"
    using 1 by (auto simp: s3_list_def bindS_def lk)
  show "\<exists>b'. s3_has C vparse S i b = (Ok (s3_lookup vparse S (objs b) i \<noteq> None), b') \<and> up b' \<and> objs b' = objs b"
    and "\<exists>b'. s3_open C vparse S i b = (ok_or (S3NotFound i) (s3_lookup vparse S (objs b) i), b') \<and> up b' \<and> objs b' = objs b"
    using 1 by (auto simp: s3_has_def s3_open_def bindS_def lk catalog_has_def catalog_get_def)
qed

text \<open>A save that overwrites whatever catalog is stored with one computed from \<open>c\<close>.\<close>

lemma stale_flush:
  assumes b: "up b" and S: "S = s3_new (s3_bucket S) (s3_prefix S)"
    and c: "catalog_wf vshow c" "catalog_plain c" "hex_digests c" and a: "s3_valid vshow a"
    and fits: "doc_size (catalog_ser vshow (catalog_add vshow a c)) \<le> PUT_LIMIT"
  shows "\<exists>b'. s3_flush C vshow S (catalog_add vshow a c) b = (Ok (), b') \<and> up b' \<and> s3_ok vshow vparse S (objs b')
    \<and> s3_lookup vparse S (objs b') = (manifests c)(art_id a \<mapsto> a)"
proof -
  let ?c = "catalog_add vshow a c"
  have wf: "catalog_wf vshow ?c" "catalog_plain ?c" "hex_digests ?c"
    using c a by (simp_all add: add_wf plain_add hex_add s3_valid_def)
  from flush_ok [OF b fits, of S] obtain b2 where
    2: "s3_flush C vshow S ?c b = (Ok (), b2)" "up b2"
      "objs b2 = (objs b)(s3_catalog_key S \<mapsto> Doc (catalog_ser vshow ?c), lock_key S := None)" by auto
  have cat: "s3_catalog (objs b2) vparse S = Ok ?c"
    using s3_keys(1) [of S] by (intro s3_catalog_flushed [OF wf(1,2)]) (simp add: 2(3))
  then show ?thesis using 2(1,2) s3_okI [OF cat wf S]
    by (intro exI [of _ b2]) (simp add: s3_lookup_def catalog_get_def fun_eq_iff)
qed

end

locale s3_store = s3_service C objs uploads up doc_size
  for C :: "'b s3_client" and objs :: "'b \<Rightarrow> string \<rightharpoonup> s3_body" and uploads :: "'b \<Rightarrow> uploads" and up :: "'b \<Rightarrow> bool"
    and doc_size :: "catalog_doc \<Rightarrow> nat" +
  fixes vshow :: "'v::linorder \<Rightarrow> string" and vparse :: "string \<Rightarrow> 'v option" and S :: s3_backend and K :: "'v catalog set"
  assumes small: "small_catalogs doc_size vshow K"
begin

definition stored :: "'b \<Rightarrow> bool" where
  "stored b \<longleftrightarrow> up b \<and> s3_ok vshow vparse S (objs b) \<and> (\<exists>c \<in> K. s3_catalog (objs b) vparse S = Ok c)"

definition storable :: "'b \<Rightarrow> 'v artifact \<Rightarrow> bool" where
  "storable b a \<longleftrightarrow> s3_valid vshow a \<and> (\<exists>c. s3_catalog (objs b) vparse S = Ok c \<and> catalog_add vshow a c \<in> K)"

lemma stored_save:
  assumes "stored b" and "storable b a"
  shows "\<exists>b'. s3_save C vshow vparse S a b = (Ok (), b') \<and> stored b'
    \<and> s3_lookup vparse S (objs b') = (s3_lookup vparse S (objs b))(art_id a \<mapsto> a)"
proof -
  from assms(2) obtain c where c: "s3_catalog (objs b) vparse S = Ok c" "catalog_add vshow a c \<in> K" "s3_valid vshow a"
    by (auto simp: storable_def)
  have "doc_size (catalog_ser vshow (catalog_add vshow a c)) \<le> PUT_LIMIT" using small c(2) by (simp add: small_catalogs_def)
  from save_law [OF _ _ c(3,1) this] assms(1) c(2) show ?thesis by (auto simp: stored_def)
qed

lemma stored_del:
  assumes "stored b"
  shows "\<exists>b'. s3_del C vshow vparse S i b = (Ok (), b') \<and> stored b'
    \<and> s3_lookup vparse S (objs b') = (s3_lookup vparse S (objs b))(i := None)"
proof -
  from assms obtain c where c: "s3_catalog (objs b) vparse S = Ok c" "c \<in> K" "up b" "s3_ok vshow vparse S (objs b)"
    by (auto simp: stored_def)
  have d: "catalog_del vshow i c \<in> K" using small c(2) by (simp add: small_catalogs_def)
  then have "doc_size (catalog_ser vshow (catalog_del vshow i c)) \<le> PUT_LIMIT" using small by (simp add: small_catalogs_def)
  from del_law [OF c(3,4,1) this] c(2) d show ?thesis by (auto simp: stored_def)
qed

end

sublocale s3_store \<subseteq> manifest: keyed_store stored storable art_id
    "\<lambda>b. s3_lookup vparse S (objs b)" "s3_save C vshow vparse S" "s3_del C vshow vparse S"
  by unfold_locales (rule stored_save stored_del; assumption)+

context s3_store
begin

lemma prune_law:
  assumes st: "stored b" and p: "id_prefix vshow i \<noteq> ''*''"
  shows "\<exists>b'. s3_prune C vshow vparse S i b = (Ok (), b') \<and> up b' \<and> s3_ok vshow vparse S (objs b')
    \<and> s3_lookup vparse S (objs b') =
        (\<lambda>j. if id_prefix vshow j = id_prefix vshow i \<and> j \<noteq> i then None else s3_lookup vparse S (objs b) j)"
proof -
  have b: "up b" and inv: "s3_ok vshow vparse S (objs b)" using st by (simp_all add: stored_def)
  from inv obtain c where c: "s3_catalog (objs b) vparse S = Ok c" "catalog_wf vshow c" by (rule s3_okE)
  from load_ok [OF b] c(1) obtain b1 where
    1: "s3_load C vparse S b = (Ok c, b1)" "up b1" "objs b1 = objs b" by metis
  let ?M = "catalog_matching vshow c i"
  let ?js = "filter (\<lambda>j. j \<noteq> i) (sorted_list_of_set ?M)"
  have M: "?M = {j \<in> dom (manifests c). id_prefix vshow j = id_prefix vshow i}"
    using c(2) index_wfD(4) [of vshow c] p by (simp add: catalog_matching_def catalog_wf_def)
  then have "finite ?M" using c(2) by (simp add: catalog_wf_def counts_wf_def)
  then have js: "set ?js = ?M - {i}" by auto
  have "stored b1" using 1 st by (simp add: stored_def)
  from manifest.del_all [OF this, of ?js] obtain b2 where
    2: "foreachS (s3_del C vshow vparse S) ?js b1 = (Ok (), b2)" "up b2" "s3_ok vshow vparse S (objs b2)"
      "s3_lookup vparse S (objs b2) = s3_lookup vparse S (objs b1) |` (- set ?js)" unfolding stored_def by blast
  have lk: "s3_lookup vparse S (objs b) = manifests c" by (simp add: s3_lookup_def c(1) catalog_get_def fun_eq_iff)
  have "s3_lookup vparse S (objs b2)
      = (\<lambda>j. if id_prefix vshow j = id_prefix vshow i \<and> j \<noteq> i then None else s3_lookup vparse S (objs b) j)"
    unfolding 2(4) js unfolding M 1(3) lk by (auto simp: restrict_map_def fun_eq_iff)
  with 2 show ?thesis by (simp add: s3_prune_def bindS_def 1(1))
qed

end

section \<open>A layer from the first byte to the last\<close>

context s3_service
begin

lemma finish_law:
  assumes s: "up (remote s)" "temp_files s = Some f" and dir: "is_absolute temp_dir"
    and x: "hex_text (hash x)" "length x \<le> 10000 * CHUNK_SIZE"
    and w: "s3_start_layer temp_dir u s = (Ok w, s1)" "write_polls cs (w, temp_files s1) = Some (x, ws2)"
      "poll_flush ev ws2 = (IoReady (), w3, f3)"
  shows "\<exists>b'. s3_finish_layer C hash temp_dir S media platform n w3 (s1\<lparr>temp_files := f3\<rparr>) =
      (Ok \<lparr>layer_media = media, layer_dig = LayerDigest (hash x), layer_size = length x, layer_platform = platform\<rparr>
         :: ('v s3_error, layer) res,
       s\<lparr>remote := b', temp_files := Some (f(w_target w := None))\<rparr>)
    \<and> up b' \<and> objs b' = (objs (remote s))(blob_path S (hash x) \<mapsto> Raw x)"
proof -
  define t where "t = path_join temp_dir (u @ ''.tmp'')"
  have t: "is_absolute t" using dir by (simp add: t_def path_join_is_absolute)
  have w1: "w = writer_new t" and s1: "s1 = s\<lparr>temp_files := Some (f(t \<mapsto> []))\<rparr>"
    using w(1) s(2) by (simp_all add: s3_start_layer_def Let_def t_def)
  have "write_ok f t [] (w, temp_files s1)" by (simp add: w1 s1 write_ok_def writer_new_def in_flight_def)
  from write_polls_ok [OF this w(2)] have "write_ok f t x ws2" by simp
  from poll_flush_ok [OF this w(3)] have w3: "w_target w3 = t" "w_digest w3 = None" "w_hashed w3 = x" "w_size w3 = length x"
    "w_pending w3 = None" "f3 = Some (f(t \<mapsto> x))" by (auto simp: write_ok_def in_flight_def)
  from upload_file_law [OF s(1) x(2), of "blob_path S (hash x)"] obtain b1 where
    1: "upload_file C (blob_path S (hash x)) x (remote s) = (Ok () :: ('v s3_error, unit) res, b1)" "up b1"
      "objs b1 = (objs (remote s))(blob_path S (hash x) \<mapsto> Raw x)" by blast
  have "f(t \<mapsto> x, t := None) = f(t := None)" by simp
  then show ?thesis using 1 t hex_digest [OF x(1)]
    by (intro exI [of _ b1]) (simp add: s3_finish_layer_def w3 s1 w1 writer_new_def writer_finish_def Let_def)
qed

lemma read_law:
  assumes "up b" and "objs b (blob_path S (layer_digest_text l)) = Some (Raw x)"
    and "\<forall>(n, w) \<in> set ps. 0 < n" and "3 * length x + 1 < length (filter (\<lambda>(n, w). \<not> w) ps)"
  shows "\<exists>r b'. s3_read C S l b = (Ok r :: ('v s3_error, object_reader) res, b') \<and> reader_run x ps r = Some x"
proof -
  let ?k = "blob_path S (layer_digest_text l)"
  from head_some [OF assms(1,2)] obtain b' where h: "head_object C ?k b = (Some (length x), b')"
    by (auto simp: body_length_def)
  let ?r = "\<lparr>or_key = ?k, or_buffer = [], or_position = 0, or_size = length x, or_active = Idle\<rparr>"
  have "reader_run x ps ?r = Some (undelivered x ?r)"
    using assms(3,4) by (intro reader_run_delivers) (simp_all add: reader_wf_def polls_left_def)
  then show ?thesis by (simp add: s3_read_def reader_new_def h undelivered_def)
qed

end

section \<open>Two writers\<close>

text \<open>The lock file is taken in \<open>flush\<close> only, after \<open>load\<close>. This is the run in which one client
  loads the catalog, another one saves \<open>a2\<close>, and then the first one flushes.\<close>

definition s3_racing_saves :: "'b s3_client \<Rightarrow> ('v::linorder \<Rightarrow> string) \<Rightarrow> (string \<Rightarrow> 'v option) \<Rightarrow> s3_backend
    \<Rightarrow> 'v artifact \<Rightarrow> 'v artifact \<Rightarrow> 'b \<Rightarrow> ('v s3_error, unit) res \<times> 'b" where
  "s3_racing_saves C vshow vparse S a1 a2 =
     bindS (s3_load C vparse S) (\<lambda>c.
     bindS (s3_save C vshow vparse S a2) (\<lambda>_.
     s3_flush C vshow S (catalog_add vshow a1 c)))"

section \<open>A bucket\<close>

text \<open>A service in memory, with a schedule of outages: the head of the list says whether the next
  request fails. It answers from the point where the schedule is used up.\<close>

record bucket =
  b_objects :: "string \<rightharpoonup> s3_body"
  b_uploads :: uploads
  b_fresh :: nat
  b_outages :: "bool list"

definition with_outage :: "'r \<Rightarrow> (bucket \<Rightarrow> 'r \<times> bucket) \<Rightarrow> bucket \<Rightarrow> 'r \<times> bucket" where
  "with_outage e f b =
     (case b_outages b of
        [] \<Rightarrow> f b
      | fails # rest \<Rightarrow> if fails then (e, b\<lparr>b_outages := rest\<rparr>) else f (b\<lparr>b_outages := rest\<rparr>))"

text \<open>This service takes every catalog for a text of 512 bytes.\<close>

definition doc_bytes :: "catalog_doc \<Rightarrow> nat" where
  "doc_bytes d = 512"

definition body_range :: "(nat \<times> nat) option \<Rightarrow> s3_body \<Rightarrow> s3_body" where
  "body_range rng x =
     (case (rng, x) of (Some (lo, hi), Raw y) \<Rightarrow> Raw (take (hi + 1 - lo) (drop lo y)) | _ \<Rightarrow> x)"

definition bucket_client :: "bucket s3_client" where
  "bucket_client = \<lparr>
     head_object = (\<lambda>k. with_outage None (\<lambda>b. (map_option (body_length doc_bytes) (b_objects b k), b))),
     get_object = (\<lambda>k rng. with_outage None (\<lambda>b. (map_option (\<lambda>x. Some (body_range rng x)) (b_objects b k), b))),
     put_object = (\<lambda>k x. with_outage False (\<lambda>b.
       if body_length doc_bytes x \<le> PUT_LIMIT then (True, b\<lparr>b_objects := (b_objects b)(k \<mapsto> x)\<rparr>) else (False, b))),
     delete_object = (\<lambda>k. with_outage False (\<lambda>b. (True, b\<lparr>b_objects := (b_objects b)(k := None)\<rparr>))),
     create_multipart_upload = (\<lambda>k. with_outage None (\<lambda>b. (Some (Some (b_fresh b)),
       b\<lparr>b_uploads := (b_uploads b)(b_fresh b \<mapsto> (k, Map.empty)), b_fresh := Suc (b_fresh b)\<rparr>))),
     upload_part = (\<lambda>k u n x. with_outage None (\<lambda>b. (case b_uploads b u of
         None \<Rightarrow> (None, b)
       | Some (k', m) \<Rightarrow>
           if 1 \<le> n \<and> n \<le> 10000 \<and> length x \<le> PUT_LIMIT
           then (Some (Some x), b\<lparr>b_uploads := (b_uploads b)(u \<mapsto> (k', m(n \<mapsto> (x, Some x))))\<rparr>)
           else (None, b)))),
     complete_multipart_upload = (\<lambda>k u ps. with_outage False (\<lambda>b. (case b_uploads b u of
         None \<Rightarrow> (False, b)
       | Some (k', m) \<Rightarrow> (True, b\<lparr>b_objects := (b_objects b)(k \<mapsto> Raw (concat (map (part_data m) ps))),
                                    b_uploads := (b_uploads b)(u := None)\<rparr>))))\<rparr>"

interpretation bucket_service: s3_service bucket_client b_objects b_uploads "\<lambda>b. b_outages b = []" doc_bytes
  by unfold_locales
    (auto simp: bucket_client_def with_outage_def body_range_def split: option.splits)

lemma all_small: "small_catalogs doc_bytes vshow UNIV"
  by (simp add: small_catalogs_def doc_bytes_def PUT_LIMIT_def)

interpretation bucket_store: s3_store bucket_client b_objects b_uploads "\<lambda>b. b_outages b = []" doc_bytes vshow vparse S UNIV
  for vshow :: "'v::linorder \<Rightarrow> string" and vparse :: "string \<Rightarrow> 'v option" and S :: s3_backend
  by unfold_locales (rule all_small)

section \<open>Properties\<close>

definition example_s3 :: s3_backend where
  "example_s3 = s3_new ''cache'' (Some ''team'')"

definition example_bucket :: "bool list \<Rightarrow> bucket" where
  "example_bucket outages = \<lparr>
     b_objects = [s3_catalog_key example_s3 \<mapsto> Doc (catalog_ser (\<lambda>_ :: nat. []) example_catalog),
                  blob_path example_s3 ''d'' \<mapsto> Raw ''x''],
     b_uploads = Map.empty, b_fresh = 0, b_outages = outages\<rparr>"

lemma example_s3_state:
  "s3_catalog (b_objects (example_bucket os)) (\<lambda>_. None :: nat option) example_s3 = Ok example_catalog"
  "s3_ok (\<lambda>_ :: nat. []) (\<lambda>_. None) example_s3 (b_objects (example_bucket os))"
proof -
  have "blob_path example_s3 ''d'' \<noteq> s3_catalog_key example_s3"
    by (rule s3_keys(2)) (auto simp: hex_text_def example_s3_def)
  then show cat: "s3_catalog (b_objects (example_bucket os)) (\<lambda>_. None :: nat option) example_s3 = Ok example_catalog"
    by (intro s3_catalog_flushed [OF example_wf]) (simp add: example_bucket_def)
  have "hex_digests example_catalog" by (simp add: hex_digests_def example_manifests hex_text_def)
  then show "s3_ok (\<lambda>_ :: nat. []) (\<lambda>_. None) example_s3 (b_objects (example_bucket os))"
    by (intro s3_okI [OF cat example_wf]) (simp_all add: example_s3_def s3_new_def)
qed

lemma example_s3_valid:
  "s3_valid (\<lambda>_. []) (example_artifact ''app'' ''h2'' [''d''])"
  "s3_valid (\<lambda>_. []) (example_artifact ''doc'' ''h3'' [''e''])"
proof -
  have plain: "art_plain (example_artifact ''app'' ''h2'' [''d''])" "art_plain (example_artifact ''doc'' ''h3'' [''e''])"
    by (rule example_plain; simp add: name_ok_def UNSUPPORTED_CHARS_def)+
  show "s3_valid (\<lambda>_. []) (example_artifact ''app'' ''h2'' [''d''])"
    unfolding s3_valid_def by (simp add: id_prefix_def hex_text_def plain)
  show "s3_valid (\<lambda>_. []) (example_artifact ''doc'' ''h3'' [''e''])"
    unfolding s3_valid_def by (simp add: id_prefix_def hex_text_def plain)
qed

text \<open>C24: on a service that answers and a bucket with a readable, well-formed catalog, small enough
  for one request before and after, \<open>save\<close> and \<open>del\<close> implement a map from identifiers to manifests:
  \<open>save\<close> adds the artifact, \<open>del\<close> removes it and leaves every blob that a remaining manifest refers
  to, \<open>prune\<close> removes exactly the other artifacts with the same prefix, \<open>open\<close> looks up; all keep the
  bucket well formed. None of them looks at the blobs: the results are the same whatever the bucket
  holds under the digests of the artifact, and whether it holds anything, so a blob that does not
  match its digest is neither rejected by \<open>save\<close> nor by \<open>open\<close>.\<close>

theorem s3_store_laws:
  assumes "s3_service C objs uploads up doc_size" and "up b" and "s3_ok vshow vparse S (objs b)"
    and "s3_valid vshow a" and "id_prefix vshow i \<noteq> ''*''"
    and "small_catalogs doc_size vshow K" and "s3_catalog (objs b) vparse S = Ok c" and "c \<in> K" and "catalog_add vshow a c \<in> K"
  shows "(\<exists>b'. s3_save C vshow vparse S a b = (Ok (), b') \<and> up b' \<and> s3_ok vshow vparse S (objs b')
        \<and> s3_lookup vparse S (objs b') = (s3_lookup vparse S (objs b))(art_id a \<mapsto> a)
        \<and> (\<forall>d. hex_text d \<longrightarrow> objs b' (blob_path S d) = objs b (blob_path S d)))
    \<and> (\<exists>b'. s3_del C vshow vparse S i b = (Ok (), b') \<and> up b' \<and> s3_ok vshow vparse S (objs b')
        \<and> s3_lookup vparse S (objs b') = (s3_lookup vparse S (objs b))(i := None)
        \<and> (\<forall>j y. s3_lookup vparse S (objs b') j = Some y \<longrightarrow>
              (\<forall>d \<in> set (art_digests y). objs b' (blob_path S d) = objs b (blob_path S d))))
    \<and> (\<exists>b'. s3_prune C vshow vparse S i b = (Ok (), b') \<and> up b' \<and> s3_ok vshow vparse S (objs b')
        \<and> s3_lookup vparse S (objs b') =
            (\<lambda>j. if id_prefix vshow j = id_prefix vshow i \<and> j \<noteq> i then None else s3_lookup vparse S (objs b) j))
    \<and> (\<exists>b'. s3_open C vparse S i b = (ok_or (S3NotFound i) (s3_lookup vparse S (objs b) i), b') \<and> objs b' = objs b)"
proof -
  have store: "s3_store C objs uploads up doc_size vshow K" using assms(1,6) by (simp add: s3_store_def s3_store_axioms_def)
  have "catalog_del vshow i c \<in> K" using assms(6,8) by (simp add: small_catalogs_def)
  then have fits: "doc_size (catalog_ser vshow (catalog_add vshow a c)) \<le> PUT_LIMIT"
    "doc_size (catalog_ser vshow (catalog_del vshow i c)) \<le> PUT_LIMIT" using assms(6,9) by (simp_all add: small_catalogs_def)
  have st: "s3_store.stored objs up vshow vparse S K b"
    using assms(2,3,7,8) by (auto simp: s3_store.stored_def [OF store])
  have "S = s3_new (s3_bucket S) (s3_prefix S)" using assms(3) by (simp add: s3_ok_def)
  note keys = s3_keys(2,3) [OF _ this]
  from s3_service.save_law [OF assms(1-4,7) fits(1)] obtain b1 where
    1: "s3_save C vshow vparse S a b = (Ok (), b1)" "up b1" "s3_ok vshow vparse S (objs b1)"
      "s3_lookup vparse S (objs b1) = (s3_lookup vparse S (objs b))(art_id a \<mapsto> a)"
      "\<forall>k. k \<noteq> s3_catalog_key S \<longrightarrow> k \<noteq> lock_key S \<longrightarrow> objs b1 k = objs b k" by blast
  then have "\<forall>d. hex_text d \<longrightarrow> objs b1 (blob_path S d) = objs b (blob_path S d)" using keys by blast
  with 1 show ?thesis
    using s3_service.del_law [OF assms(1-3,7) fits(2)]
      s3_store.prune_law [OF store st assms(5)] s3_service.query_laws(2) [OF assms(1-3), of i] by blast
qed

theorem s3_store_laws_witness:
  "\<exists>b'. s3_save bucket_client (\<lambda>_ :: nat. []) (\<lambda>_. None) example_s3 (example_artifact ''app'' ''h2'' [''d'']) (example_bucket [])
      = (Ok (), b')
    \<and> s3_lookup (\<lambda>_. None) example_s3 (b_objects b') (Id (Name ''app'') None None None ''h2'')
        = Some (example_artifact ''app'' ''h2'' [''d''])
    \<and> s3_lookup (\<lambda>_. None) example_s3 (b_objects b') (Id (Name ''gcc'') None None None ''h1'')
        = Some (example_artifact ''gcc'' ''h1'' [''d''])"
proof -
  have up: "b_outages (example_bucket []) = []" by (simp add: example_bucket_def)
  have "id_prefix (\<lambda>_. []) (Id (Name ''gcc'') None None None ''h1'' :: nat artifact_id) \<noteq> ''*''" by (simp add: id_prefix_def)
  from s3_store_laws [OF bucket_service.s3_service_axioms up example_s3_state(2) example_s3_valid(1) this all_small example_s3_state(1)]
  obtain b' where "s3_save bucket_client (\<lambda>_ :: nat. []) (\<lambda>_. None) example_s3 (example_artifact ''app'' ''h2'' [''d'']) (example_bucket []) = (Ok (), b')"
    and lk: "s3_lookup (\<lambda>_. None) example_s3 (b_objects b')
      = (s3_lookup (\<lambda>_. None) example_s3 (b_objects (example_bucket [])))
          (art_id (example_artifact ''app'' ''h2'' [''d'']) \<mapsto> example_artifact ''app'' ''h2'' [''d''])" by blast
  moreover have "s3_lookup (\<lambda>_. None) example_s3 (b_objects (example_bucket [])) example_id = Some example_art"
    by (simp add: s3_lookup_def example_s3_state(1) catalog_get_def example_manifests)
  ultimately show ?thesis by (intro exI [of _ b']) (simp add: lk)
qed

text \<open>a layer written to the S3 backend in any pattern of partial writes, none of which reports an
  error, and flushed becomes the object named
  by the hash of the accepted bytes, in one request or, above the chunk size, by a multipart
  upload; its temporary file is gone; and a reader of that object, however it is polled (any
  buffer sizes, any polls that find the request waiting), ends after at most \<open>3n + 2\<close> effective
  polls and has then delivered exactly those bytes.\<close>

lemma s3_layer_round_trip:
  assumes "s3_service C objs uploads up doc_size" and "up (remote s)" and "temp_files s = Some f" and "is_absolute temp_dir"
    and "hex_text (hash x)" and "length x \<le> 10000 * CHUNK_SIZE"
    and "s3_start_layer temp_dir u s = (Ok w, s1)" and "write_polls cs (w, temp_files s1) = Some (x, ws2)"
    and "poll_flush ev ws2 = (IoReady (), w3, f3)"
    and "\<forall>(n, waiting) \<in> set ps. 0 < n" and "3 * length x + 1 < length (filter (\<lambda>(n, waiting). \<not> waiting) ps)"
  shows "\<exists>l s' r b'. s3_finish_layer C hash temp_dir S media platform k w3 (s1\<lparr>temp_files := f3\<rparr>) = (Ok l :: ('v s3_error, layer) res, s')
    \<and> layer_digest_text l = hash x \<and> layer_size l = length x
    \<and> objs (remote s') = (objs (remote s))(blob_path S (hash x) \<mapsto> Raw x)
    \<and> temp_files s' = Some (f(w_target w := None))
    \<and> s3_read C S l (remote s') = (Ok r :: ('v s3_error, object_reader) res, b') \<and> reader_run x ps r = Some x"
proof -
  let ?l = "\<lparr>layer_media = media, layer_dig = LayerDigest (hash x), layer_size = length x, layer_platform = platform\<rparr>"
  from s3_service.finish_law [where hash = hash and x = x, OF assms(1-9), of S media platform k] obtain b1 where
    1: "s3_finish_layer C hash temp_dir S media platform k w3 (s1\<lparr>temp_files := f3\<rparr>) = (Ok ?l :: ('v s3_error, layer) res,
        s\<lparr>remote := b1, temp_files := Some (f(w_target w := None))\<rparr>)" "up b1"
      "objs b1 = (objs (remote s))(blob_path S (hash x) \<mapsto> Raw x)" by blast
  have "objs b1 (blob_path S (layer_digest_text ?l)) = Some (Raw x)" by (simp add: 1(3))
  from s3_service.read_law [OF assms(1) 1(2) this assms(10,11)] obtain r b' where
    "s3_read C S ?l b1 = (Ok r :: ('v s3_error, object_reader) res, b')" "reader_run x ps r = Some x" by blast
  with 1 show ?thesis
    by (intro exI [of _ ?l] exI [of _ "s\<lparr>remote := b1, temp_files := Some (f(w_target w := None))\<rparr>"] exI [of _ r] exI [of _ b']) simp
qed

text \<open>C25: a file above the chunk size and of at most 100000 MiB (10000 parts) is uploaded in parts,
  the upload returns, and the bucket then holds exactly the file under the key and is otherwise as
  it was; for a file within the 5 GB that the service takes in one request these are the objects
  that putting it at once leaves.\<close>

theorem multipart_equals_put:
  assumes "s3_service C objs uploads up doc_size" and "up b" and "length x \<le> 10000 * CHUNK_SIZE" and "CHUNK_SIZE < length x"
  shows "\<exists>b1. upload_file C k x b = (Ok () :: ('v s3_error, unit) res, b1)
    \<and> multipart_upload C k x b = (Ok () :: ('v s3_error, unit) res, b1)
    \<and> objs b1 = (objs b)(k \<mapsto> Raw x)
    \<and> (length x \<le> PUT_LIMIT \<longrightarrow> (\<exists>b2. put_object C k (Raw x) b = (True, b2) \<and> objs b2 = objs b1))"
proof -
  have "upload_file C k x b = (multipart_upload C k x b :: ('v s3_error, unit) res \<times> _)"
    using assms(4) by (simp add: upload_file_def)
  with s3_service.upload_file_law [OF assms(1-3), of k, where 'v = 'v] s3_service.put_law [OF assms(1,2), of "Raw x" k]
  show ?thesis by (auto simp: body_length_def)
qed

theorem multipart_equals_put_witness:
  "\<exists>b1 b2. multipart_upload bucket_client ''k'' (replicate (CHUNK_SIZE + 1) CHR ''x'') (example_bucket [])
     = (Ok () :: (nat s3_error, unit) res, b1)
   \<and> b_objects b1 = (b_objects (example_bucket []))(''k'' \<mapsto> Raw (replicate (CHUNK_SIZE + 1) CHR ''x''))
   \<and> put_object bucket_client ''k'' (Raw (replicate (CHUNK_SIZE + 1) CHR ''x'')) (example_bucket []) = (True, b2)
   \<and> b_objects b2 = b_objects b1"
proof -
  define x where "x = replicate (CHUNK_SIZE + 1) CHR ''x''"
  have "b_outages (example_bucket []) = []" by (simp add: example_bucket_def)
  moreover have "length x \<le> 10000 * CHUNK_SIZE" "CHUNK_SIZE < length x" "length x \<le> PUT_LIMIT"
    by (simp_all add: x_def CHUNK_SIZE_def PUT_LIMIT_def)
  ultimately show ?thesis
    unfolding x_def [symmetric] using multipart_equals_put [OF bucket_service.s3_service_axioms, of "example_bucket []" x "''k''"] by blast
qed

text \<open>saving is not atomic. When a client saves \<open>a2\<close> between the moment another one has loaded the
  catalog and the moment that one flushes it with \<open>a1\<close>, both report success and \<open>a2\<close> is not in
  the catalog: the lock file protects the write only.\<close>

lemma s3_lost_update:
  assumes "s3_service C objs uploads up doc_size" and "up b" and "s3_ok vshow vparse S (objs b)"
    and "s3_valid vshow a1" and "s3_valid vshow a2"
    and fits: "\<And>c a. s3_catalog (objs b) vparse S = Ok c \<Longrightarrow> a \<in> {a1, a2} \<Longrightarrow> doc_size (catalog_ser vshow (catalog_add vshow a c)) \<le> PUT_LIMIT"
    and "art_id a1 \<noteq> art_id a2" and "s3_lookup vparse S (objs b) (art_id a2) = None"
  shows "\<exists>b'. s3_racing_saves C vshow vparse S a1 a2 b = (Ok (), b')
    \<and> s3_lookup vparse S (objs b') = (s3_lookup vparse S (objs b))(art_id a1 \<mapsto> a1)
    \<and> s3_lookup vparse S (objs b') (art_id a2) = None"
proof -
  from assms(3) obtain c where c: "s3_catalog (objs b) vparse S = Ok c" "catalog_wf vshow c" "catalog_plain c" "hex_digests c"
    "S = s3_new (s3_bucket S) (s3_prefix S)" by (rule s3_okE)
  have lk: "s3_lookup vparse S (objs b) = manifests c" by (simp add: s3_lookup_def c(1) catalog_get_def fun_eq_iff)
  from s3_service.load_ok [OF assms(1,2)] c(1) obtain b1 where
    1: "s3_load C vparse S b = (Ok c, b1)" "up b1" "objs b1 = objs b" by metis
  from s3_service.save_law [OF assms(1) 1(2) _ assms(5) _ fits [OF c(1)], of vparse S] assms(3) c(1) 1(3) obtain b2 where
    2: "s3_save C vshow vparse S a2 b1 = (Ok (), b2)" "up b2" by auto
  from s3_service.stale_flush [OF assms(1) 2(2) c(5,2,3,4) assms(4) fits [OF c(1)]] obtain b3 where
    3: "s3_flush C vshow S (catalog_add vshow a1 c) b2 = (Ok (), b3)"
      "s3_lookup vparse S (objs b3) = (manifests c)(art_id a1 \<mapsto> a1)" by auto
  have "s3_racing_saves C vshow vparse S a1 a2 b = (Ok (), b3)"
    by (simp add: s3_racing_saves_def bindS_def 1(1) 2(1) 3(1))
  then show ?thesis using 3(2) assms(7,8) lk by (intro exI [of _ b3]) auto
qed

lemma s3_lost_update_witness:
  "\<exists>b'. s3_racing_saves bucket_client (\<lambda>_ :: nat. []) (\<lambda>_. None) example_s3
      (example_artifact ''app'' ''h2'' [''d'']) (example_artifact ''doc'' ''h3'' [''e'']) (example_bucket []) = (Ok (), b')
    \<and> s3_lookup (\<lambda>_. None) example_s3 (b_objects b') (Id (Name ''doc'') None None None ''h3'' :: nat artifact_id) = None"
proof -
  have up: "b_outages (example_bucket []) = []" by (simp add: example_bucket_def)
  have ne: "art_id (example_artifact ''app'' ''h2'' [''d'']) \<noteq> art_id (example_artifact ''doc'' ''h3'' [''e''])" by simp
  have fresh: "s3_lookup (\<lambda>_. None) example_s3 (b_objects (example_bucket [])) (art_id (example_artifact ''doc'' ''h3'' [''e''])) = None"
    by (simp add: s3_lookup_def example_s3_state(1) catalog_get_def example_manifests)
  have fits: "doc_bytes d \<le> PUT_LIMIT" for d by (simp add: doc_bytes_def PUT_LIMIT_def)
  from s3_lost_update [OF bucket_service.s3_service_axioms up example_s3_state(2) example_s3_valid fits ne fresh]
  obtain b' where "s3_racing_saves bucket_client (\<lambda>_ :: nat. []) (\<lambda>_. None) example_s3
      (example_artifact ''app'' ''h2'' [''d'']) (example_artifact ''doc'' ''h3'' [''e'']) (example_bucket []) = (Ok (), b')"
    and "s3_lookup (\<lambda>_. None) example_s3 (b_objects b') (art_id (example_artifact ''doc'' ''h3'' [''e''])) = None" by blast
  then show ?thesis by (intro exI [of _ b']) simp
qed

text \<open>\<open>load\<close> takes every error of its first request for a missing catalog. One failed request
  while saving is enough: the save reports success, and the catalog then lists the saved
  artifact only, whatever it listed before.\<close>

lemma s3_outage_erases_catalog:
  assumes "s3_service C objs uploads up doc_size" and "S = s3_new bucket prefix" and "s3_valid vshow a"
    and "head_object C (s3_catalog_key S) b = (None, b1)" and "up b1"
    and "doc_size (catalog_ser vshow (catalog_add vshow a catalog_default)) \<le> PUT_LIMIT"
  shows "\<exists>b'. s3_save C vshow vparse S a b = (Ok (), b') \<and> s3_lookup vparse S (objs b') = [art_id a \<mapsto> a]"
proof -
  have S: "S = s3_new (s3_bucket S) (s3_prefix S)" by (simp add: assms(2) s3_new_def)
  have d: "catalog_wf vshow (catalog_default :: 'b catalog)" "catalog_plain (catalog_default :: 'b catalog)"
    "hex_digests (catalog_default :: 'b catalog)"
    by (rule default_wf) (simp_all add: catalog_plain_def hex_digests_def catalog_default_def)
  have "s3_load C vparse S b = (Ok catalog_default, b1)" by (simp add: s3_load_def assms(4))
  with s3_service.stale_flush [OF assms(1,5) S d assms(3,6), of vparse] show ?thesis
    by (auto simp: s3_save_def bindS_def catalog_default_def)
qed

lemma s3_outage_erases_catalog_witness:
  "s3_lookup (\<lambda>_. None) example_s3 (b_objects (example_bucket [True])) example_id = Some example_art
   \<and> (\<exists>b'. s3_save bucket_client (\<lambda>_ :: nat. []) (\<lambda>_. None) example_s3 (example_artifact ''app'' ''h2'' [''d'']) (example_bucket [True])
        = (Ok (), b') \<and> s3_lookup (\<lambda>_. None) example_s3 (b_objects b') example_id = None)"
proof -
  have h: "head_object bucket_client (s3_catalog_key example_s3) (example_bucket [True]) = (None, example_bucket [])"
    and up: "b_outages (example_bucket []) = []"
    by (simp_all add: bucket_client_def with_outage_def example_bucket_def)
  have fits: "doc_bytes d \<le> PUT_LIMIT" for d by (simp add: doc_bytes_def PUT_LIMIT_def)
  from s3_outage_erases_catalog [OF bucket_service.s3_service_axioms example_s3_def example_s3_valid(1) h up fits, of "\<lambda>_. None"]
  obtain b' where "s3_save bucket_client (\<lambda>_ :: nat. []) (\<lambda>_. None) example_s3 (example_artifact ''app'' ''h2'' [''d'']) (example_bucket [True])
        = (Ok (), b')"
    and lk: "s3_lookup (\<lambda>_. None) example_s3 (b_objects b')
      = [art_id (example_artifact ''app'' ''h2'' [''d'']) \<mapsto> example_artifact ''app'' ''h2'' [''d'']]" by blast
  moreover have "s3_lookup (\<lambda>_. None) example_s3 (b_objects b') example_id = None" unfolding lk by simp
  moreover have "s3_lookup (\<lambda>_. None) example_s3 (b_objects (example_bucket [True])) example_id = Some example_art"
    by (simp add: s3_lookup_def example_s3_state(1) catalog_get_def example_manifests)
  ultimately show ?thesis by blast
qed

end
