(* ===== verification/Environment.thy ===== *)
theory Environment
  imports Effects Paths
begin

text \<open>
  Where transforms run: the trait \<open>Environment\<close> (\<open>crates/edo/src/environment/mod.rs\<close>,
  \<open>error.rs\<close>), deferred scripts (\<open>command.rs\<close>), the filesystem view (\<open>vfs.rs\<close>), and the local
  implementation (\<open>crates/core/src/environment/local.rs\<close>, with \<open>util/command.rs\<close>).

  An environment is a record of the trait's operations over its state \<open>'n\<close>. Parameters: the
  handlebars renderer, the shell that runs a script in a directory, and the tar format. Log
  records are not kept.
\<close>

section \<open>The trait\<close>

datatype 'i env_error = EnvContext string | EnvImplementation 'i | EnvIo | EnvRun | EnvStorage string
  | EnvTemplate | EnvVfs string

type_synonym ('n, 'i, 'a) env_action = "('n, 'i env_error, 'a) action"

record ('n, 'i) environment =
  e_expand :: "string \<Rightarrow> 'n \<Rightarrow> ('i env_error, string) res"
  e_create_dir :: "string \<Rightarrow> ('n, 'i, unit) env_action"
  e_set_env :: "string \<Rightarrow> string \<Rightarrow> ('n, 'i, unit) env_action"
  e_get_env :: "string \<Rightarrow> 'n \<Rightarrow> string option"
  e_setup :: "('n, 'i, unit) env_action"
  e_up :: "('n, 'i, unit) env_action"
  e_down :: "('n, 'i, unit) env_action"
  e_clean :: "('n, 'i, unit) env_action"
  e_write :: "string \<Rightarrow> string \<Rightarrow> ('n, 'i, unit) env_action"
  e_unpack :: "string \<Rightarrow> string \<Rightarrow> ('n, 'i, unit) env_action"
  e_read :: "string \<Rightarrow> 'n \<Rightarrow> ('i env_error, string) res"
  e_cmd :: "string \<Rightarrow> string \<Rightarrow> ('n, 'i, bool) env_action"
  e_run :: "string \<Rightarrow> string \<Rightarrow> ('n, 'i, bool) env_action"

text \<open>What sources and transforms rely on: a file that was written can be read.\<close>

locale file_environment =
  fixes E :: "('n, 'i) environment"
  assumes write_read: "e_write E path bytes n = (Ok (), n') \<Longrightarrow> e_read E path n' = Ok bytes"

section \<open>Deferred commands\<close>

record script =
  c_interpreter :: string
  c_commands :: "string list"
  c_variables :: "string \<rightharpoonup> string"

type_synonym renderer = "(string \<rightharpoonup> string) \<Rightarrow> string \<Rightarrow> string option"

definition cmd_new :: script where
  "cmd_new = \<lparr>c_interpreter = ''bash'', c_commands = [], c_variables = Map.empty\<rparr>"

definition set_interpreter :: "string \<Rightarrow> script \<Rightarrow> script" where
  "set_interpreter i c = c\<lparr>c_interpreter := i\<rparr>"

definition cmd_sub :: "renderer \<Rightarrow> string \<Rightarrow> script \<Rightarrow> ('i env_error, string) res" where
  "cmd_sub render line c = ok_or EnvTemplate (render (c_variables c) line)"

definition push_line :: "string \<Rightarrow> (script, 'e, unit) action" where
  "push_line l = modifyS (\<lambda>c. c\<lparr>c_commands := c_commands c @ [l]\<rparr>)"

definition sub_line :: "renderer \<Rightarrow> string \<Rightarrow> (script, 'i env_error, string) action" where
  "sub_line render line c = (cmd_sub render line c, c)"

definition cmd_set :: "renderer \<Rightarrow> string \<Rightarrow> string \<Rightarrow> (script, 'i env_error, unit) action" where
  "cmd_set render key value =
     bindS (sub_line render value) (\<lambda>v. modifyS (\<lambda>c. c\<lparr>c_variables := (c_variables c)(key \<mapsto> v)\<rparr>))"

definition cmd_chdir :: "renderer \<Rightarrow> string \<Rightarrow> (script, 'i env_error, unit) action" where
  "cmd_chdir render path = bindS (sub_line render path) (\<lambda>p. push_line (''cd '' @ p))"

definition cmd_pushd :: "renderer \<Rightarrow> string \<Rightarrow> (script, 'i env_error, unit) action" where
  "cmd_pushd render path = bindS (sub_line render path) (\<lambda>p. push_line (''pushd '' @ p))"

definition cmd_popd :: "(script, 'i env_error, unit) action" where
  "cmd_popd = push_line ''popd''"

definition create_named_dir :: "renderer \<Rightarrow> ('n, 'i) environment \<Rightarrow> 'n \<Rightarrow> string \<Rightarrow> string
    \<Rightarrow> (script, 'i env_error, unit) action" where
  "create_named_dir render E n key path =
     bindS (sub_line render path) (\<lambda>p.
     bindS (liftS (e_expand E p n)) (\<lambda>full.
     bindS (modifyS (\<lambda>c. c\<lparr>c_variables := (c_variables c)(key \<mapsto> full)\<rparr>)) (\<lambda>_.
     push_line (''mkdir -p '' @ p))))"

definition cmd_create_dir :: "renderer \<Rightarrow> string \<Rightarrow> (script, 'i env_error, unit) action" where
  "cmd_create_dir render path = bindS (sub_line render path) (\<lambda>p. push_line (''mkdir -p '' @ p))"

definition cmd_remove_dir :: "renderer \<Rightarrow> string \<Rightarrow> (script, 'i env_error, unit) action" where
  "cmd_remove_dir render path = bindS (sub_line render path) (\<lambda>p. push_line (''rm -r '' @ p))"

definition cmd_remove_file :: "renderer \<Rightarrow> string \<Rightarrow> (script, 'i env_error, unit) action" where
  "cmd_remove_file render path = bindS (sub_line render path) (\<lambda>p. push_line (''rm '' @ p))"

definition cmd_mv :: "renderer \<Rightarrow> string \<Rightarrow> string \<Rightarrow> (script, 'i env_error, unit) action" where
  "cmd_mv render source dest =
     bindS (sub_line render source) (\<lambda>s. bindS (sub_line render dest) (\<lambda>d. push_line (''mv '' @ s @ '' '' @ d)))"

definition cmd_copy :: "renderer \<Rightarrow> string \<Rightarrow> string \<Rightarrow> (script, 'i env_error, unit) action" where
  "cmd_copy render source dest =
     bindS (sub_line render source) (\<lambda>s. bindS (sub_line render dest) (\<lambda>d. push_line (''cp -r '' @ s @ '' '' @ d)))"

definition cmd_run :: "renderer \<Rightarrow> string \<Rightarrow> (script, 'i env_error, unit) action" where
  "cmd_run render line = bindS (sub_line render line) push_line"

definition newline :: string where
  "newline = [CHR 0x0A]"

definition newline_free :: "string \<Rightarrow> bool" where
  "newline_free s \<longleftrightarrow> CHR 0x0A \<notin> set s"

definition cmd_to_string :: "script \<Rightarrow> string" where
  "cmd_to_string c = ''#!/usr/bin/env '' @ c_interpreter c @ newline @ join_with newline (c_commands c)"

definition cmd_send :: "renderer \<Rightarrow> ('n, 'i) environment \<Rightarrow> string \<Rightarrow> script \<Rightarrow> ('n, 'i, unit) env_action" where
  "cmd_send render E path c n =
     (case bindR (cmd_sub render path c) (\<lambda>p. e_expand E p n) of
        Inl e \<Rightarrow> (Inl e, n)
      | Inr dir \<Rightarrow>
          (case e_run E dir (cmd_to_string c) n of
             (Inl e, n1) \<Rightarrow> (Inl e, n1)
           | (Inr True, n1) \<Rightarrow> (Ok (), n1)
           | (Inr False, n1) \<Rightarrow> (Fail EnvRun, n1)))"

section \<open>The filesystem view\<close>

text \<open>\<open>{path:?}\<close>: the path in double quotes, with \<open>"\<close>, \<open>\\<close> and the usual control characters escaped.\<close>

definition debug_char :: "char \<Rightarrow> string" where
  "debug_char c =
     (if c = CHR 0x22 then [CHR 0x5C, CHR 0x22]
      else if c = CHR 0x5C then [CHR 0x5C, CHR 0x5C]
      else if c = CHR 0x0A then [CHR 0x5C, CHR ''n'']
      else if c = CHR 0x0D then [CHR 0x5C, CHR ''r'']
      else if c = CHR 0x09 then [CHR 0x5C, CHR ''t'']
      else if c = CHR 0x00 then [CHR 0x5C, CHR ''0'']
      else [c])"

definition debug_path :: "string \<Rightarrow> string" where
  "debug_path p = [CHR 0x22] @ concat (map debug_char p) @ [CHR 0x22]"

text \<open>A \<open>Vfs\<close> is its working path; the environment is shared.\<close>

type_synonym vfs = string

definition vfs_new :: vfs where
  "vfs_new = []"

definition canonicalize :: "('n, 'i) environment \<Rightarrow> vfs \<Rightarrow> string \<Rightarrow> 'n \<Rightarrow> ('i env_error, string) res" where
  "canonicalize E v path n = (if is_absolute path then Ok path else e_expand E (path_join v path) n)"

definition vfs_entry :: "vfs \<Rightarrow> string \<Rightarrow> vfs" where
  "vfs_entry v path = path_join v path"

definition at_path :: "('n, 'i) environment \<Rightarrow> vfs \<Rightarrow> string \<Rightarrow> ('n, 'i, string) env_action" where
  "at_path E v path n = (canonicalize E v path n, n)"

definition vfs_checked :: "('n, 'i) environment \<Rightarrow> vfs \<Rightarrow> string \<Rightarrow> string \<Rightarrow> ('n, 'i, unit) env_action" where
  "vfs_checked E v action line =
     bindS (e_cmd E v line) (\<lambda>done_ok. liftS (if done_ok then Ok () else Fail (EnvVfs action)))"

definition try_exists :: "('n, 'i) environment \<Rightarrow> vfs \<Rightarrow> string \<Rightarrow> ('n, 'i, bool) env_action" where
  "try_exists E v path = bindS (at_path E v path) (\<lambda>p. e_cmd E v (''stat '' @ debug_path p))"

definition vfs_set_env :: "('n, 'i) environment \<Rightarrow> string \<Rightarrow> string \<Rightarrow> ('n, 'i, unit) env_action" where
  "vfs_set_env E key value = e_set_env E key value"

definition vfs_get_env :: "('n, 'i) environment \<Rightarrow> string \<Rightarrow> 'n \<Rightarrow> ('i env_error, string option) res" where
  "vfs_get_env E key n = Ok (e_get_env E key n)"

definition vfs_create_dir :: "('n, 'i) environment \<Rightarrow> vfs \<Rightarrow> string \<Rightarrow> ('n, 'i, vfs) env_action" where
  "vfs_create_dir E v path =
     bindS (at_path E v path) (\<lambda>p.
     bindS (vfs_checked E v ''mkdir'' (''mkdir -p '' @ debug_path p)) (\<lambda>_. returnS p))"

definition vfs_remove_file :: "('n, 'i) environment \<Rightarrow> vfs \<Rightarrow> string \<Rightarrow> ('n, 'i, unit) env_action" where
  "vfs_remove_file E v path = bindS (at_path E v path) (\<lambda>p. vfs_checked E v ''rm'' (''rm '' @ debug_path p))"

definition vfs_remove_dir :: "('n, 'i) environment \<Rightarrow> vfs \<Rightarrow> string \<Rightarrow> ('n, 'i, unit) env_action" where
  "vfs_remove_dir E v path = bindS (at_path E v path) (\<lambda>p. vfs_checked E v ''rmdir'' (''rm -r '' @ debug_path p))"

definition vfs_copy :: "('n, 'i) environment \<Rightarrow> vfs \<Rightarrow> string \<Rightarrow> string \<Rightarrow> ('n, 'i, unit) env_action" where
  "vfs_copy E v source dest =
     bindS (at_path E v source) (\<lambda>s. bindS (at_path E v dest) (\<lambda>d.
       vfs_checked E v ''copy'' (''cp -r '' @ debug_path s @ '' '' @ debug_path d)))"

definition vfs_rename :: "('n, 'i) environment \<Rightarrow> vfs \<Rightarrow> string \<Rightarrow> string \<Rightarrow> ('n, 'i, unit) env_action" where
  "vfs_rename E v source dest =
     bindS (at_path E v source) (\<lambda>s. bindS (at_path E v dest) (\<lambda>d.
       vfs_checked E v ''rename'' (''mv '' @ debug_path s @ '' '' @ debug_path d)))"

definition vfs_command :: "('n, 'i) environment \<Rightarrow> vfs \<Rightarrow> string \<Rightarrow> string \<Rightarrow> string list \<Rightarrow> ('n, 'i, unit) env_action" where
  "vfs_command E v action program args = vfs_checked E v action (program @ '' '' @ join_with '' '' args)"

section \<open>The local environment\<close>

text \<open>The host's files by resolved absolute path (no symbolic links), the variables of the
  environment and its root path.\<close>

datatype fs_node = Dir | File string

type_synonym fs = "string list \<rightharpoonup> fs_node"

datatype local_env_error = LEAbsolute | LEArchive | LEContext | LECreateFile | LECreateDirectory | LEExtract | LEFailed
  | LEMutate string | LENotFound string | LEPathRequired | LEReadFile | LERemoveDirectory | LEWriteFile

record local_env =
  le_path :: string
  le_env :: "string \<rightharpoonup> string"
  le_fs :: fs

text \<open>The operating system and the tar crate: the working directory, \<open>sh -c\<close> with a command and \<open>sh\<close>
  with a script on its input (in a directory, with variables; \<open>None\<close> when the process could not
  be run), unpacking an archive into a directory and archiving one.\<close>

record host =
  cwd :: string
  sh_command :: "string list \<Rightarrow> string \<Rightarrow> (string \<rightharpoonup> string) \<Rightarrow> fs \<Rightarrow> bool option \<times> fs"
  sh_stdin :: "string list \<Rightarrow> string \<Rightarrow> (string \<rightharpoonup> string) \<Rightarrow> fs \<Rightarrow> bool option \<times> fs"
  untar :: "string \<Rightarrow> string list \<Rightarrow> fs \<Rightarrow> bool \<times> fs"
  tar :: "string list \<Rightarrow> fs \<Rightarrow> string option"

text \<open>How the system resolves a path, without symbolic links: \<open>..\<close> leaves a directory (one that does not
  exist too, which a system refuses).\<close>

definition resolve_steps :: "string list \<Rightarrow> string list" where
  "resolve_steps cs = foldl (\<lambda>acc c. if c = ''..'' then butlast acc else acc @ [c]) [] cs"

definition path_steps :: "host \<Rightarrow> string \<Rightarrow> string list" where
  "path_steps H p = (if is_absolute p then [] else path_segments (cwd H)) @ path_segments p"

definition resolve_path :: "host \<Rightarrow> string \<Rightarrow> string list" where
  "resolve_path H p = resolve_steps (path_steps H p)"

text \<open>\<open>create_dir_all\<close>: every missing prefix becomes a directory; a file on the way is an error.\<close>

definition prefixes_of :: "'a list \<Rightarrow> 'a list list" where
  "prefixes_of p = map (\<lambda>n. take n p) [0..<Suc (length p)]"

definition make_dirs :: "string list \<Rightarrow> fs \<Rightarrow> fs option" where
  "make_dirs p fs =
     (let dirs = map resolve_steps (prefixes_of p)
      in if \<exists>q \<in> set dirs. fs q \<noteq> None \<and> fs q \<noteq> Some Dir then None
         else Some (\<lambda>q. if q \<in> set dirs then Some Dir else fs q))"

text \<open>\<open>remove_dir_all\<close>.\<close>

definition remove_tree :: "string list \<Rightarrow> fs \<Rightarrow> fs" where
  "remove_tree p fs = (\<lambda>q. if take (length p) q = p then None else fs q)"

definition le_join :: "local_env \<Rightarrow> string \<Rightarrow> string" where
  "le_join n path = path_join (le_path n) path"

definition le_dirs :: "string list \<Rightarrow> (local_env, local_env_error env_error, unit) action" where
  "le_dirs p n =
     (case make_dirs p (le_fs n) of
        None \<Rightarrow> (Fail (EnvImplementation LECreateDirectory), n)
      | Some fs \<Rightarrow> (Ok (), n\<lparr>le_fs := fs\<rparr>))"

definition local_farm_create :: "string \<Rightarrow> fs \<Rightarrow> local_env" where
  "local_farm_create path fs = \<lparr>le_path = path, le_env = Map.empty, le_fs = fs\<rparr>"

definition le_expand :: "host \<Rightarrow> string \<Rightarrow> local_env \<Rightarrow> (local_env_error env_error, string) res" where
  "le_expand H path n =
     (if is_absolute path \<and> \<not> path_starts_with (le_path n) path then Fail (EnvImplementation (LEMutate path))
      else if path_starts_with (le_path n) path then Ok path
      else ok_or (EnvImplementation LEAbsolute) (path_absolute (cwd H) (le_join n path)))"

definition le_set_env :: "string \<Rightarrow> string \<Rightarrow> (local_env, local_env_error env_error, unit) action" where
  "le_set_env key value = modifyS (\<lambda>n. n\<lparr>le_env := (le_env n)(key \<mapsto> value)\<rparr>)"

text \<open>\<open>get_env\<close> maps the entry to its key.\<close>

definition le_get_env :: "string \<Rightarrow> local_env \<Rightarrow> string option" where
  "le_get_env key n = map_option (\<lambda>_. key) (le_env n key)"

definition le_setup :: "host \<Rightarrow> (local_env, local_env_error env_error, unit) action" where
  "le_setup H n =
     (let p = path_steps H (le_path n) in if le_fs n (resolve_steps p) = None then le_dirs p n else (Ok (), n))"

definition le_up :: "(local_env, local_env_error env_error, unit) action" where
  "le_up = returnS ()"

definition le_down :: "(local_env, local_env_error env_error, unit) action" where
  "le_down = returnS ()"

definition le_clean :: "host \<Rightarrow> (local_env, local_env_error env_error, unit) action" where
  "le_clean H n =
     (let p = resolve_path H (le_path n)
      in case le_fs n p of
           None \<Rightarrow> (Ok (), n)
         | Some (File _) \<Rightarrow> (Fail (EnvImplementation LERemoveDirectory), n)
         | Some Dir \<Rightarrow> (Ok (), n\<lparr>le_fs := remove_tree p (le_fs n)\<rparr>))"

definition le_create_dir :: "host \<Rightarrow> string \<Rightarrow> (local_env, local_env_error env_error, unit) action" where
  "le_create_dir H path n = le_dirs (path_steps H (le_join n path)) n"

definition le_write :: "host \<Rightarrow> string \<Rightarrow> string \<Rightarrow> (local_env, local_env_error env_error, unit) action" where
  "le_write H path bytes n =
     (let p = resolve_path H (le_join n path);
          parent = butlast (path_steps H (le_join n path))
      in case (if le_fs n (resolve_steps parent) = None then le_dirs parent n else (Ok (), n)) of
           (Inl e, n1) \<Rightarrow> (Inl e, n1)
         | (Inr _, n1) \<Rightarrow>
             if p = [] \<or> le_fs n1 p = Some Dir \<or> le_fs n1 (resolve_steps parent) \<noteq> Some Dir
             then (Fail (EnvImplementation LECreateFile), n1)
             else (Ok (), n1\<lparr>le_fs := (le_fs n1)(p \<mapsto> File bytes)\<rparr>))"

definition le_unpack :: "host \<Rightarrow> string \<Rightarrow> string \<Rightarrow> (local_env, local_env_error env_error, unit) action" where
  "le_unpack H path bytes n =
     (let p = resolve_path H (le_join n path)
      in case (if le_fs n p = None then le_dirs (path_steps H (le_join n path)) n else (Ok (), n)) of
           (Inl e, n1) \<Rightarrow> (Inl e, n1)
         | (Inr _, n1) \<Rightarrow>
             (case untar H bytes p (le_fs n1) of
                (False, fs) \<Rightarrow> (Fail (EnvImplementation LEExtract), n1\<lparr>le_fs := fs\<rparr>)
              | (True, fs) \<Rightarrow> (Ok (), n1\<lparr>le_fs := fs\<rparr>)))"

definition le_read :: "host \<Rightarrow> string \<Rightarrow> local_env \<Rightarrow> (local_env_error env_error, string) res" where
  "le_read H path n =
     (let p = resolve_path H (le_join n path)
      in case le_fs n p of
           None \<Rightarrow> Fail (EnvImplementation (LENotFound path))
         | Some (File x) \<Rightarrow> Ok x
         | Some Dir \<Rightarrow> ok_or (EnvImplementation LEArchive) (tar H p (le_fs n)))"

definition run_process :: "(string list \<Rightarrow> string \<Rightarrow> (string \<rightharpoonup> string) \<Rightarrow> fs \<Rightarrow> bool option \<times> fs) \<Rightarrow> host \<Rightarrow> string \<Rightarrow> string
    \<Rightarrow> (local_env, local_env_error env_error, bool) action" where
  "run_process sh H path input n =
     (case sh (resolve_path H (le_join n path)) input (le_env n) (le_fs n) of
        (None, fs) \<Rightarrow> (Fail (EnvImplementation LEFailed), n\<lparr>le_fs := fs\<rparr>)
      | (Some success, fs) \<Rightarrow> (Ok success, n\<lparr>le_fs := fs\<rparr>))"

definition le_cmd :: "host \<Rightarrow> string \<Rightarrow> string \<Rightarrow> (local_env, local_env_error env_error, bool) action" where
  "le_cmd H path line = run_process (sh_command H) H path line"

definition le_run :: "host \<Rightarrow> string \<Rightarrow> string \<Rightarrow> (local_env, local_env_error env_error, bool) action" where
  "le_run H path text = run_process (sh_stdin H) H path text"

text \<open>The interactive shell, on what is typed into it; its exit status is not looked at.\<close>

definition le_shell :: "host \<Rightarrow> string \<Rightarrow> string \<Rightarrow> (local_env, local_env_error env_error, unit) action" where
  "le_shell H terminal path = bindS (run_process (sh_stdin H) H path terminal) (\<lambda>_. returnS ())"

definition local_env_ops :: "host \<Rightarrow> (local_env, local_env_error) environment" where
  "local_env_ops H = \<lparr>
     e_expand = le_expand H, e_create_dir = le_create_dir H, e_set_env = le_set_env, e_get_env = le_get_env,
     e_setup = le_setup H, e_up = le_up, e_down = le_down, e_clean = le_clean H,
     e_write = le_write H, e_unpack = le_unpack H, e_read = le_read H,
     e_cmd = le_cmd H, e_run = le_run H\<rparr>"

section \<open>Where paths lead\<close>

lemma path_segments_simps:
  "path_segments [] = []" "path_segments ''/'' = []" "path_segments ''//'' = []"
  by (simp_all add: path_segments_def)

lemma path_segment_props:
  assumes "c \<in> set (path_segments p)"
  shows "c \<noteq> []" "c \<noteq> ''.''" "CHR ''/'' \<notin> set c" "\<not> is_absolute c" "path_segments c = [c]"
proof -
  show 1: "c \<noteq> []" "c \<noteq> ''.''" using assms by (auto simp: path_segments_def)
  show 2: "CHR ''/'' \<notin> set c" using assms split_on_no_sep by (auto simp: path_segments_def)
  show "\<not> is_absolute c" using 1(1) 2 hd_in_set by (metis is_absolute_def)
  show "path_segments c = [c]" using 1 split_on_word [OF 2] by (simp add: path_segments_def)
qed

lemma path_segments_foldl:
  "set cs \<subseteq> set (path_segments p) \<Longrightarrow> path_segments (foldl path_join b cs) = path_segments b @ cs"
proof (induction cs arbitrary: b)
  case (Cons c cs)
  then have "c \<in> set (path_segments p)" by simp
  then have "path_segments (path_join b c) = path_segments b @ [c]"
    using path_segments_join path_segment_props(4,5) by metis
  then show ?case using Cons by simp
qed simp

lemma foldl_absolute: "is_absolute b \<Longrightarrow> is_absolute (foldl path_join b cs)"
  by (induction cs arbitrary: b) (simp_all add: path_join_is_absolute)

lemma path_absolute_resolves:
  assumes q: "path_absolute (cwd H) p = Some q" and "is_absolute (cwd H)"
  shows "is_absolute q" and "resolve_path H q = resolve_path H p"
proof -
  define base where "base = (if is_absolute p then (if starts_with ''//'' p \<and> \<not> starts_with ''///'' p then ''//'' else ''/'') else cwd H)"
  define r where "r = foldl path_join base (path_segments p)"
  have base: "is_absolute base" using assms(2) by (auto simp: base_def is_absolute_def)
  have r: "is_absolute r" "path_segments r = path_segments base @ path_segments p"
    using foldl_absolute [OF base] path_segments_foldl [of "path_segments p" p base] by (simp_all add: r_def)
  have q: "q = r \<or> q = path_join r []"
    using q by (auto simp: path_absolute_def Let_def r_def base_def split: if_splits)
  then show abs: "is_absolute q" using r(1) by (auto simp: path_join_is_absolute)
  have "path_segments q = path_segments r"
    using q path_segments_join [of "[]" r] by (auto simp: path_segments_simps is_absolute_def)
  moreover have "path_segments base = (if is_absolute p then [] else path_segments (cwd H))"
    by (auto simp: base_def path_segments_simps)
  ultimately show "resolve_path H q = resolve_path H p" using abs by (simp add: resolve_path_def resolve_steps_def path_steps_def r(2))
qed

lemma resolve_plain:
  "''..'' \<notin> set cs \<Longrightarrow> foldl (\<lambda>acc c. if c = ''..'' then butlast acc else acc @ [c]) as cs = as @ cs"
  by (induction cs arbitrary: as) auto

lemma resolve_under_root:
  assumes "is_absolute root" and "''..'' \<notin> set (path_segments root)" and "\<not> is_absolute path"
  shows "resolve_path H (path_join root path) =
    foldl (\<lambda>acc c. if c = ''..'' then butlast acc else acc @ [c]) (path_segments root) (path_segments path)"
  using assms by (simp add: resolve_path_def resolve_steps_def path_steps_def path_join_is_absolute path_segments_join resolve_plain)

lemma relative_components:
  assumes "\<not> is_absolute p" and "p \<noteq> []"
  obtains c cs where "path_components p = c # cs" and "c \<noteq> ''/''"
proof (cases "hd (split_on (CHR ''/'') p) = ''.''")
  case True
  then show ?thesis using that assms by (simp add: path_components_def)
next
  case False
  obtain c cs where split: "split_on (CHR ''/'') p = c # cs" by (meson list.exhaust split_on_ne)
  have "c \<noteq> []" using split assms by (cases p) (auto simp: is_absolute_def split: if_splits)
  then have seg: "path_segments p = c # filter (\<lambda>c. c \<noteq> [] \<and> c \<noteq> ''.'') cs"
    using split False by (simp add: path_segments_def)
  then have "CHR ''/'' \<notin> set c" using path_segment_props(3) [of c p] by simp
  then have "c \<noteq> ''/''" by auto
  then show ?thesis using that seg assms False by (simp add: path_components_def)
qed

lemma starts_with_absolute:
  assumes "is_absolute root" and "path_starts_with root p"
  shows "is_absolute p"
proof (rule ccontr)
  assume rel: "\<not> is_absolute p"
  show False
  proof (cases "p = []")
    case True
    then show False using assms by (simp add: path_starts_with_def path_components_def path_segments_simps is_absolute_def)
  next
    case False
    from relative_components [OF rel False] obtain c cs where "path_components p = c # cs" "c \<noteq> ''/''" .
    then show False using assms by (simp add: path_starts_with_def path_components_def)
  qed
qed

lemma starts_with_segments:
  assumes "is_absolute root" and "is_absolute p"
  shows "path_starts_with root p \<longleftrightarrow> take (length (path_segments root)) (path_segments p) = path_segments root"
  using assms by (simp add: path_starts_with_def path_components_def)

lemma expand_relative:
  assumes cwd: "is_absolute (cwd H)" and root: "is_absolute (le_path n)" and path: "\<not> is_absolute path"
  obtains q where "le_expand H path n = Ok q" and "is_absolute q"
    and "path_segments q = path_segments (le_path n) @ path_segments path"
    and "resolve_path H q = resolve_path H (le_join n path)"
proof -
  have join: "is_absolute (le_join n path)" using root by (simp add: le_join_def path_join_is_absolute)
  then have "le_join n path \<noteq> []" by (auto simp: is_absolute_def)
  then obtain q where q: "path_absolute (cwd H) (le_join n path) = Some q" by (auto simp: path_absolute_def Let_def)
  have "\<not> path_starts_with (le_path n) path" using starts_with_absolute [OF root] path by blast
  then have "le_expand H path n = Ok q" using path q by (simp add: le_expand_def)
  moreover have "path_segments q = path_segments (le_join n path)"
  proof -
    have "path_segments (foldl path_join b (path_segments (le_join n path))) = path_segments (le_join n path)"
      if "path_segments b = []" for b using path_segments_foldl [of "path_segments (le_join n path)" "le_join n path" b] that by simp
    then show ?thesis using q join path_segments_join [of "[]"]
      by (auto simp: path_absolute_def Let_def path_segments_simps is_absolute_def split: if_splits)
  qed
  ultimately show ?thesis
    using that path_absolute_resolves [OF q cwd] path_segments_join [OF path, of "le_path n"] by (simp add: le_join_def)
qed

text \<open>A concrete host for the witnesses: its shell runs nothing but skips comment lines.\<close>

fun skip_comments :: "string list \<Rightarrow> string list" where
  "skip_comments [] = []"
| "skip_comments (l # ls) = (if starts_with ''#'' l then skip_comments ls else l # ls)"

definition test_host :: host where
  "test_host = \<lparr>cwd = ''/w'', sh_command = (\<lambda>d l vars fs. (Some True, fs)),
     sh_stdin = (\<lambda>d text vars fs. (Some (skip_comments (split_on (CHR 0x0A) text) = [''true'']), fs)),
     untar = (\<lambda>a d fs. (True, fs)), tar = (\<lambda>d fs. None)\<rparr>"

definition test_env :: "string \<Rightarrow> local_env" where
  "test_env root = local_farm_create root [[] \<mapsto> Dir]"

lemma make_dirs_keeps: "make_dirs p fs = Some fs' \<Longrightarrow> fs q \<noteq> None \<Longrightarrow> fs' q = fs q"
  by (fastforce simp: make_dirs_def Let_def split: if_splits)

lemma le_write_then_read:
  assumes "le_write H path bytes n = (Ok (), n')"
  shows "le_read H path n' = Ok bytes \<and> le_path n' = le_path n \<and> le_env n' = le_env n
    \<and> (\<forall>q. q \<noteq> resolve_path H (le_join n path) \<and> le_fs n q \<noteq> None \<longrightarrow> le_fs n' q = le_fs n q)"
proof -
  define p where "p = resolve_path H (le_join n path)"
  let ?parent = "butlast (path_steps H (le_join n path))"
  obtain fs1 where fs1: "fs1 = le_fs n \<or> make_dirs ?parent (le_fs n) = Some fs1"
    and n': "n' = n\<lparr>le_fs := fs1(p \<mapsto> File bytes)\<rparr>"
    using assms by (cases "le_fs n (resolve_steps ?parent)"; cases "make_dirs ?parent (le_fs n)")
      (auto simp: le_write_def le_dirs_def Let_def p_def split: if_splits)
  have keep: "fs1 q = le_fs n q" if "le_fs n q \<noteq> None" for q
    using fs1 that make_dirs_keeps by metis
  have "le_join n' path = le_join n path" using n' by (simp add: le_join_def)
  then have "le_read H path n' = Ok bytes" using n' by (simp add: le_read_def Let_def p_def [symmetric])
  then show ?thesis using keep n' by (simp add: p_def [symmetric])
qed

interpretation local_files: file_environment "local_env_ops H"
  by unfold_locales (use le_write_then_read in \<open>simp add: local_env_ops_def\<close>)

section \<open>Properties\<close>

text \<open>C26: in a local environment with an absolute root, a path without \<open>..\<close> that \<open>expand\<close> accepts leads
  into the root directory.\<close>

theorem expand_contained:
  assumes "is_absolute (cwd H)" and "is_absolute (le_path n)"
    and "''..'' \<notin> set (path_segments (le_path n))" and "''..'' \<notin> set (path_segments path)"
    and "le_expand H path n = Ok q"
  shows "take (length (resolve_path H (le_path n))) (resolve_path H q) = resolve_path H (le_path n)"
proof -
  have root: "resolve_path H (le_path n) = path_segments (le_path n)"
    using assms(2,3) by (simp add: resolve_path_def resolve_steps_def path_steps_def resolve_plain)
  show ?thesis
  proof (cases "is_absolute path")
    case True
    then have q: "q = path" "path_starts_with (le_path n) path" using assms(5) by (auto simp: le_expand_def split: if_splits)
    have "resolve_path H path = path_segments path" using True assms(4) by (simp add: resolve_path_def resolve_steps_def path_steps_def resolve_plain)
    then show ?thesis using q starts_with_segments [OF assms(2) True] by (simp add: root)
  next
    case False
    from expand_relative [OF assms(1,2) False] obtain q' where "le_expand H path n = Ok q'"
      "resolve_path H q' = resolve_path H (le_join n path)" by blast
    then show ?thesis using assms(5) resolve_under_root [OF assms(2,3) False, of H] resolve_plain [OF assms(4)]
      by (simp add: root le_join_def)
  qed
qed

theorem expand_contained_witness:
  "take (length (resolve_path test_host ''/r'')) (resolve_path test_host ''/r/a/b'') = resolve_path test_host ''/r''"
  using expand_contained [of test_host "test_env ''/r''" "''a/b''" "''/r/a/b''"]
  by (simp add: test_host_def test_env_def local_farm_create_def le_expand_def le_join_def path_join_def is_absolute_def
      path_starts_with_def path_components_def path_segments_def path_absolute_def starts_with_def)

text \<open>but \<open>..\<close> is not refused: \<open>expand\<close> accepts \<open>../c\<close>, which is outside of the root (unless \<open>c\<close> is the
  root's own name).\<close>

lemma expand_escapes:
  assumes "is_absolute (cwd H)" and "is_absolute (le_path n)"
    and "''..'' \<notin> set (path_segments (le_path n))" and "path_segments (le_path n) \<noteq> []"
    and "path_segments c = [c]" and "c \<noteq> ''..''" and "c \<noteq> last (path_segments (le_path n))"
  shows "\<exists>q. le_expand H (''../'' @ c) n = Ok q
    \<and> resolve_path H q = butlast (resolve_path H (le_path n)) @ [c]
    \<and> take (length (resolve_path H (le_path n))) (resolve_path H q) \<noteq> resolve_path H (le_path n)"
proof -
  have root: "resolve_path H (le_path n) = path_segments (le_path n)"
    using assms(2,3) by (simp add: resolve_path_def resolve_steps_def path_steps_def resolve_plain)
  have rel: "\<not> is_absolute (''../'' @ c)" by (simp add: is_absolute_def)
  have seg: "path_segments (''../'' @ c) = [''..'', c]"
    using assms(5) split_on_append_sep [of "CHR ''/''" "''..''" c] by (simp add: path_segments_def)
  from expand_relative [OF assms(1,2) rel] obtain q where
    q: "le_expand H (''../'' @ c) n = Ok q" "resolve_path H q = resolve_path H (le_join n (''../'' @ c))" by blast
  have r: "resolve_path H q = butlast (path_segments (le_path n)) @ [c]"
    using resolve_under_root [OF assms(2,3) rel, of H] assms(6) by (simp only: q(2) le_join_def seg) simp
  have "take (length (path_segments (le_path n))) (butlast (path_segments (le_path n)) @ [c]) \<noteq> path_segments (le_path n)"
  proof
    assume "take (length (path_segments (le_path n))) (butlast (path_segments (le_path n)) @ [c]) = path_segments (le_path n)"
    moreover have "length (butlast (path_segments (le_path n)) @ [c]) = length (path_segments (le_path n))"
      using assms(4) by simp
    ultimately have "butlast (path_segments (le_path n)) @ [c] = path_segments (le_path n)" by (metis take_all_iff order_refl)
    then have "c = last (path_segments (le_path n))" by (metis last_snoc)
    with assms(7) show False by simp
  qed
  with q(1) r show ?thesis by (simp add: root)
qed

lemma expand_escapes_witness:
  "\<exists>q. le_expand test_host ''../etc'' (test_env ''/r'') = Ok q \<and> resolve_path test_host q = [''etc'']"
proof -
  have root: "le_path (test_env ''/r'') = ''/r''" by (simp add: test_env_def local_farm_create_def)
  have r: "resolve_path test_host ''/r'' = [''r'']"
    by (simp add: resolve_path_def resolve_steps_def path_steps_def is_absolute_def path_segments_def)
  have "is_absolute (cwd test_host)" by (simp add: test_host_def is_absolute_def)
  from expand_escapes [OF this, of "test_env ''/r''" "''etc''"] show ?thesis
    unfolding root r by (auto simp: is_absolute_def path_segments_def)
qed

text \<open>a \<open>Vfs\<close> of a local environment nests: from the directory that \<open>create_dir\<close> returned, a relative path
  leads to its join, when the root of the environment is absolute. When the root is relative
  (as with a relative storage path), every further relative operation is refused.\<close>

lemma vfs_nests_iff_absolute:
  assumes "is_absolute (cwd H)" and "\<not> is_absolute path" and "\<not> path_starts_with (le_path n) path"
    and "le_path n \<noteq> []" and "\<not> is_absolute sub"
    and "vfs_create_dir (local_env_ops H) vfs_new path n = (Ok v, n1)"
  shows "canonicalize (local_env_ops H) v sub n1 =
    (if is_absolute (le_path n) then Ok (path_join v sub) else Fail (EnvImplementation (LEMutate (path_join v sub))))"
proof -
  have v: "le_expand H path n = Ok v" and n1: "le_path n1 = le_path n"
    using assms(2,6)
    by (auto simp: vfs_create_dir_def vfs_new_def at_path_def canonicalize_def path_join_def vfs_checked_def
        local_env_ops_def le_cmd_def run_process_def bindS_def split: prod.splits sum.splits option.splits if_splits)
  have abs: "is_absolute v" using v assms(1-3) path_absolute_resolves(1) [OF _ assms(1)]
    by (auto simp: le_expand_def ok_or_eq_Ok)
  then have join: "is_absolute (path_join v sub)" by (rule path_join_is_absolute)
  have "path_starts_with (le_path n) (path_join v sub) \<longleftrightarrow> is_absolute (le_path n)"
  proof
    assume p: "path_starts_with (le_path n) (path_join v sub)"
    show "is_absolute (le_path n)"
    proof (rule ccontr)
      assume rel: "\<not> is_absolute (le_path n)"
      then obtain c cs where "path_components (le_path n) = c # cs" "c \<noteq> ''/''"
        using assms(4) relative_components by blast
      then show False using p join by (simp add: path_starts_with_def path_components_def)
    qed
  next
    assume root: "is_absolute (le_path n)"
    from expand_relative [OF assms(1) root assms(2)] v
    have "path_segments v = path_segments (le_path n) @ path_segments path" by (metis sum.inject(2))
    then show "path_starts_with (le_path n) (path_join v sub)"
      using starts_with_segments [OF root join] path_segments_join [OF assms(5), of v] by simp
  qed
  then show ?thesis using assms(5) join by (simp add: canonicalize_def local_env_ops_def le_expand_def n1)
qed

lemma vfs_nests_iff_absolute_witness:
  "canonicalize (local_env_ops test_host) ''/w/.edo/env/a'' ''b'' (test_env ''.edo/env'')
     = Fail (EnvImplementation (LEMutate ''/w/.edo/env/a/b''))"
proof -
  have "vfs_create_dir (local_env_ops test_host) vfs_new ''a'' (test_env ''.edo/env'') = (Ok ''/w/.edo/env/a'', test_env ''.edo/env'')"
    by (simp add: vfs_create_dir_def vfs_new_def at_path_def canonicalize_def vfs_checked_def local_env_ops_def le_cmd_def
        run_process_def bindS_def test_host_def test_env_def local_farm_create_def le_expand_def le_join_def path_join_def
        is_absolute_def path_starts_with_def path_components_def path_segments_def path_absolute_def starts_with_def)
  from vfs_nests_iff_absolute [OF _ _ _ _ _ this, of "''b''"] show ?thesis
    by (simp add: test_host_def test_env_def local_farm_create_def path_join_def
        is_absolute_def path_starts_with_def path_components_def path_segments_def)
qed

text \<open>what \<open>write\<close> stored, \<open>read\<close> returns, and \<open>write\<close> leaves every other file and directory as it was,
  and the path and variables of the environment.\<close>

lemma local_write_read:
  assumes "le_write H path bytes n = (Ok (), n')"
  shows "le_read H path n' = Ok bytes \<and> le_path n' = le_path n \<and> le_env n' = le_env n
    \<and> (\<forall>q. q \<noteq> resolve_path H (le_join n path) \<and> le_fs n q \<noteq> None \<longrightarrow> le_fs n' q = le_fs n q)"
  using assms by (rule le_write_then_read)

lemma local_write_read_witness:
  "\<exists>n'. le_write test_host ''d/f'' ''x'' (test_env ''/r'') = (Ok (), n') \<and> le_read test_host ''d/f'' n' = Ok ''x''"
proof -
  have "\<exists>n'. le_write test_host ''d/f'' ''x'' (test_env ''/r'') = (Ok (), n')"
    by (simp add: le_write_def le_dirs_def make_dirs_def prefixes_of_def resolve_path_def resolve_steps_def path_steps_def
        test_host_def test_env_def local_farm_create_def le_join_def path_join_def is_absolute_def path_segments_def Let_def)
  then obtain n' where n': "le_write test_host ''d/f'' ''x'' (test_env ''/r'') = (Ok (), n')" by blast
  then show ?thesis using local_write_read [OF n'] by blast
qed

text \<open>the interpreter of a script has no effect in a local environment. The environment feeds the script to
  \<open>sh\<close>, to which the first line \<open>#!/usr/bin/env ...\<close> is a comment; so whatever the interpreter was set to,
  the same commands run with the same result.\<close>

lemma interpreter_ignored:
  assumes comment: "\<And>d line rest vars fs. newline_free line \<Longrightarrow>
      sh_stdin H d (''#'' @ line @ newline @ rest) vars fs = sh_stdin H d rest vars fs"
    and "newline_free (c_interpreter c)" and "newline_free i"
  shows "cmd_send render (local_env_ops H) path (set_interpreter i c) n = cmd_send render (local_env_ops H) path c n"
proof -
  have head: "''#!/usr/bin/env '' = ''#'' @ ''!/usr/bin/env ''" by simp
  have free: "newline_free (''!/usr/bin/env '' @ j)" if "newline_free j" for j
    using that by (simp add: newline_free_def)
  have "sh_stdin H d (cmd_to_string s) vars fs = sh_stdin H d (join_with newline (c_commands s)) vars fs"
    if "newline_free (c_interpreter s)" for d s vars fs
    unfolding cmd_to_string_def head
    using comment [OF free [OF that], of d "join_with newline (c_commands s)" vars fs] by (simp only: append_assoc)
  then have "e_run (local_env_ops H) d (cmd_to_string (set_interpreter i c)) n = e_run (local_env_ops H) d (cmd_to_string c) n" for d
    using assms(2,3) by (simp add: set_interpreter_def local_env_ops_def le_run_def run_process_def)
  then show ?thesis by (simp add: cmd_send_def set_interpreter_def cmd_sub_def split: sum.split)
qed

lemma interpreter_ignored_witness:
  "cmd_send (\<lambda>vars l. Some l) (local_env_ops test_host) ''.''
     (set_interpreter ''python3'' (cmd_new\<lparr>c_commands := [''true'']\<rparr>)) (test_env ''/r'')
   = cmd_send (\<lambda>vars l. Some l) (local_env_ops test_host) ''.'' (cmd_new\<lparr>c_commands := [''true'']\<rparr>) (test_env ''/r'')"
proof (rule interpreter_ignored)
  fix d line rest vars fs
  assume "newline_free line"
  then have "split_on (CHR 0x0A) (''#'' @ line @ newline @ rest) = (''#'' @ line) # split_on (CHR 0x0A) rest"
    using split_on_word_sep [of "CHR 0x0A" "''#'' @ line" rest] by (simp add: newline_free_def newline_def)
  then show "sh_stdin test_host d (''#'' @ line @ newline @ rest) vars fs = sh_stdin test_host d rest vars fs"
    by (simp add: test_host_def starts_with_def)
qed (simp_all add: newline_free_def cmd_new_def)

end
