(* ===== verification/File_Copy.thy ===== *)
theory File_Copy
  imports Environment
begin

text \<open>
  The recursive copy of \<open>crates/edo/src/util/fs.rs\<close>: a stack of directories still to be walked,
  each mirrored below the output root. The order in which the system lists a directory is a
  parameter; symbolic links are not modelled. The loop has fuel, one unit for each directory.
\<close>

section \<open>The loop\<close>

type_synonym listing = "string list \<Rightarrow> fs \<Rightarrow> string list"

text \<open>One entry of a directory: a directory is pushed, a file is copied into \<open>dest\<close>. The copy fails when the entry is gone
  or when a directory is in its place.\<close>

definition copy_entry :: "string list \<Rightarrow> string list \<Rightarrow> string \<Rightarrow> string list list \<times> fs \<Rightarrow> (string list list \<times> fs) option" where
  "copy_entry path dest name st =
     (let (stack, F) = st
      in case F (path @ [name]) of
           Some Dir \<Rightarrow> Some (stack @ [path @ [name]], F)
         | Some (File x) \<Rightarrow> (if F (dest @ [name]) = Some Dir then None else Some (stack, F(dest @ [name] \<mapsto> File x)))
         | None \<Rightarrow> None)"

fun copy_entries :: "string list \<Rightarrow> string list \<Rightarrow> string list \<Rightarrow> string list list \<times> fs \<Rightarrow> (string list list \<times> fs) option" where
  "copy_entries path dest [] st = Some st"
| "copy_entries path dest (name # names) st =
     (case copy_entry path dest name st of None \<Rightarrow> None | Some st' \<Rightarrow> copy_entries path dest names st')"

text \<open>One turn of the loop, for the directory popped off the stack.\<close>

definition copy_dir :: "listing \<Rightarrow> string list \<Rightarrow> string list \<Rightarrow> string list \<Rightarrow> string list list \<times> fs \<Rightarrow> (string list list \<times> fs) option" where
  "copy_dir ls src out path st =
     (let (stack, F) = st; dest = out @ drop (length src) path
      in case (if F dest = None then make_dirs dest F else Some F) of
           None \<Rightarrow> None
         | Some F1 \<Rightarrow>
             if F1 path = Some Dir then copy_entries path dest (ls path F1) (stack, F1) else None)"

fun copy_loop :: "nat \<Rightarrow> listing \<Rightarrow> string list \<Rightarrow> string list \<Rightarrow> string list list \<times> fs \<Rightarrow> fs option option" where
  "copy_loop 0 ls src out st = (if fst st = [] then Some (Some (snd st)) else None)"
| "copy_loop (Suc n) ls src out st =
     (if fst st = [] then Some (Some (snd st))
      else case copy_dir ls src out (last (fst st)) (butlast (fst st), snd st) of
             None \<Rightarrow> Some None
           | Some st' \<Rightarrow> copy_loop n ls src out st')"

text \<open>\<open>copy_r src to\<close>: \<open>None\<close> out of fuel, \<open>Some None\<close> an error of the system.\<close>

definition copy_r :: "nat \<Rightarrow> listing \<Rightarrow> string list \<Rightarrow> string list \<Rightarrow> fs \<Rightarrow> fs option option" where
  "copy_r n ls src out F = copy_loop n ls src out ([src], F)"

section \<open>What the copy does\<close>

text \<open>Trees: every parent of an entry is a directory and no name is \<open>..\<close>. A listing names exactly the entries.\<close>

definition tree_ok :: "fs \<Rightarrow> bool" where
  "tree_ok F \<longleftrightarrow> finite (dom F) \<and> (\<forall>p c. F (p @ [c]) \<noteq> None \<longrightarrow> F p = Some Dir \<and> c \<noteq> ''..'')"

definition lists :: "listing \<Rightarrow> bool" where
  "lists ls \<longleftrightarrow> (\<forall>p F. finite {c. F (p @ [c]) \<noteq> None} \<longrightarrow>
     distinct (ls p F) \<and> set (ls p F) = {c. F (p @ [c]) \<noteq> None})"

definition is_file :: "fs_node option \<Rightarrow> bool" where
  "is_file e \<longleftrightarrow> (case e of Some (File _) \<Rightarrow> True | _ \<Rightarrow> False)"

lemma copy_entries_all:
  assumes "p \<noteq> dest" and "\<forall>c \<in> set names. F (p @ [c]) \<noteq> None \<and> (is_file (F (p @ [c])) \<longrightarrow> F (dest @ [c]) \<noteq> Some Dir)"
  shows "copy_entries p dest names (stack, F) =
    Some (stack @ map (\<lambda>c. p @ [c]) (filter (\<lambda>c. F (p @ [c]) = Some Dir) names),
     \<lambda>q. if q \<noteq> [] \<and> butlast q = dest \<and> last q \<in> set names \<and> is_file (F (p @ [last q])) then F (p @ [last q]) else F q)"
  using assms(2)
proof (induction names arbitrary: stack F)
  case (Cons c names)
  then consider "F (p @ [c]) = Some Dir" | x where "F (p @ [c]) = Some (File x)" "F (dest @ [c]) \<noteq> Some Dir"
    by (cases "F (p @ [c])"; cases "the (F (p @ [c]))") (auto simp: is_file_def)
  then show ?case
  proof cases
    case 1
    then have "copy_entry p dest c (stack, F) = Some (stack @ [p @ [c]], F)" by (simp add: copy_entry_def)
    then show ?thesis using 1 Cons by (auto simp: is_file_def fun_eq_iff)
  next
    case 2
    let ?F = "F(dest @ [c] \<mapsto> File x)"
    have other: "p @ [d] \<noteq> dest @ [c]" for d using assms(1) by simp
    have "\<forall>d \<in> set names. ?F (p @ [d]) \<noteq> None \<and> (is_file (?F (p @ [d])) \<longrightarrow> ?F (dest @ [d]) \<noteq> Some Dir)"
      using Cons.prems other by auto
    from Cons.IH [OF this, of stack] have IH: "copy_entries p dest names (stack, ?F) =
      Some (stack @ map (\<lambda>c. p @ [c]) (filter (\<lambda>c. ?F (p @ [c]) = Some Dir) names),
       \<lambda>q. if q \<noteq> [] \<and> butlast q = dest \<and> last q \<in> set names \<and> is_file (?F (p @ [last q])) then ?F (p @ [last q]) else ?F q)" .
    have "copy_entry p dest c (stack, F) = Some (stack, ?F)" using 2 by (simp add: copy_entry_def)
    then show ?thesis using 2 IH
      by (auto simp: other assms(1) [symmetric] is_file_def fun_eq_iff snoc_eq_iff_butlast)
  qed
qed (auto simp: fun_eq_iff)

lemma tree_prefix:
  assumes "tree_ok F" and "F (p @ q) \<noteq> None" and "q \<noteq> []"
  shows "F p = Some Dir"
  using assms
proof (induction q rule: rev_induct)
  case (snoc c q)
  then have "F (p @ q) = Some Dir" by (metis tree_ok_def append_assoc)
  then show ?case using snoc by (cases "q = []") auto
qed simp

lemma resolve_steps_plain: "''..'' \<notin> set p \<Longrightarrow> resolve_steps p = p"
  by (simp add: resolve_steps_def resolve_plain)

lemma make_dirs_new:
  assumes "''..'' \<notin> set p" and "\<And>n. n < length p \<Longrightarrow> F (take n p) = Some Dir" and "F p = None"
  shows "make_dirs p F = Some (F(p \<mapsto> Dir))"
proof -
  have "''..'' \<notin> set (take n p)" for n using assms(1) by (meson in_set_takeD)
  then have dirs: "map resolve_steps (prefixes_of p) = prefixes_of p"
    using assms(1) by (auto simp: prefixes_of_def resolve_steps_plain)
  have mem: "q \<in> set (prefixes_of p) \<longleftrightarrow> (\<exists>n < length p. q = take n p) \<or> q = p" for q
  proof -
    have "q \<in> set (prefixes_of p) \<longleftrightarrow> (\<exists>n \<le> length p. q = take n p)"
      unfolding prefixes_of_def set_map set_upt by (auto simp: image_iff Bex_def less_Suc_eq_le)
    then show ?thesis by (metis le_neq_implies_less less_or_eq_imp_le order_refl take_all)
  qed
  show ?thesis unfolding make_dirs_def Let_def dirs using assms(2,3) by (auto simp: mem fun_eq_iff)
qed

text \<open>The source and the output are apart, the source is a directory and the output an empty one.\<close>

definition copy_pre :: "string list \<Rightarrow> string list \<Rightarrow> fs \<Rightarrow> bool" where
  "copy_pre src out F0 \<longleftrightarrow> tree_ok F0 \<and> F0 src = Some Dir \<and> F0 out = Some Dir \<and> ''..'' \<notin> set out
     \<and> (\<forall>r. r \<noteq> [] \<longrightarrow> F0 (out @ r) = None) \<and> take (length src) out \<noteq> src"

text \<open>The state after the directories \<open>W\<close> below \<open>src\<close> were walked.\<close>

definition copied :: "string list \<Rightarrow> string list \<Rightarrow> fs \<Rightarrow> string list set \<Rightarrow> fs" where
  "copied src out F0 W = (\<lambda>q.
     if take (length out) q = out \<and> q \<noteq> out then
       (let r = drop (length out) q
        in if F0 (src @ r) = Some Dir then (if src @ r \<in> W then Some Dir else None)
           else if src @ butlast r \<in> W then F0 (src @ r) else None)
     else F0 q)"

definition dirs_below :: "string list \<Rightarrow> fs \<Rightarrow> string list set" where
  "dirs_below src F = {p. take (length src) p = src \<and> F p = Some Dir}"

definition walked :: "string list \<Rightarrow> fs \<Rightarrow> string list list \<Rightarrow> string list set \<Rightarrow> bool" where
  "walked src F0 stack W \<longleftrightarrow> W \<subseteq> dirs_below src F0 \<and> distinct stack
     \<and> (\<forall>p \<in> W. p \<noteq> src \<longrightarrow> butlast p \<in> W)
     \<and> set stack = {p \<in> dirs_below src F0 - W. p = src \<or> butlast p \<in> W}"

lemma below_cases: "take (length src) p = src \<longleftrightarrow> (\<exists>r. p = src @ r)"
  by (metis append_eq_conv_conj append_take_drop_id)

lemma walked_all:
  assumes "walked src F0 [] W" and "tree_ok F0"
  shows "W = dirs_below src F0"
proof -
  have "src @ r \<in> W" if "F0 (src @ r) = Some Dir" for r
    using that
  proof (induction r rule: rev_induct)
    case Nil
    then show ?case using assms(1) by (auto simp: walked_def dirs_below_def)
  next
    case (snoc c r)
    then have "F0 (src @ r) = Some Dir" using assms(2) by (metis tree_ok_def append_assoc option.distinct(1))
    then have "butlast (src @ r @ [c]) \<in> W" using snoc.IH by (simp add: butlast_append)
    moreover have "src @ r @ [c] \<in> dirs_below src F0" using snoc.prems by (simp add: dirs_below_def)
    ultimately show ?case using assms(1) unfolding walked_def by auto
  qed
  then show ?thesis using assms(1) unfolding walked_def dirs_below_def below_cases by blast
qed

lemma apart:
  assumes "copy_pre src out F0"
  shows "src @ r \<noteq> out @ r'"
proof
  assume eq: "src @ r = out @ r'"
  then obtain us where "src @ us = out \<or> src = out @ us" by (auto simp: append_eq_append_conv2)
  then show False
  proof
    assume "src @ us = out"
    then have "take (length src) out = src" by auto
    then show False using assms by (simp add: copy_pre_def)
  next
    assume us: "src = out @ us"
    show False
    proof (cases "us = []")
      case True
      then show False using us assms by (simp add: copy_pre_def)
    next
      case False
      then show False using us assms unfolding copy_pre_def by (metis option.distinct(1))
    qed
  qed
qed

lemma walked_ancestor:
  assumes "walked src F0 stack W" and "src @ r @ r' \<in> W"
  shows "src @ r \<in> W"
  using assms(2)
proof (induction r' rule: rev_induct)
  case (snoc c r')
  have "src @ r @ r' @ [c] \<noteq> src" by simp
  then have "butlast (src @ r @ r' @ [c]) \<in> W" using assms(1) snoc.prems unfolding walked_def by (metis append_assoc)
  moreover have "butlast (src @ r @ r' @ [c]) = src @ r @ r'" by (simp add: butlast_append)
  ultimately show ?case using snoc.IH by simp
qed simp

lemma copied_from:
  assumes "copy_pre src out F0"
  shows "copied src out F0 W (src @ r) = F0 (src @ r)"
proof -
  have "take (length out) (src @ r) \<noteq> out" using apart [OF assms] unfolding below_cases by blast
  then show ?thesis by (simp add: copied_def)
qed

lemma copied_out:
  "copied src out F0 W (out @ r) =
     (if r = [] then F0 out
      else if F0 (src @ r) = Some Dir then (if src @ r \<in> W then Some Dir else None)
      else if src @ butlast r \<in> W then F0 (src @ r) else None)"
  by (simp add: copied_def)

lemma tree_names: "tree_ok F \<Longrightarrow> F (p @ q) \<noteq> None \<Longrightarrow> ''..'' \<notin> set q"
proof (induction q rule: rev_induct)
  case (snoc c q)
  then have "F (p @ q) \<noteq> None" "c \<noteq> ''..''" by (metis tree_ok_def append_assoc option.distinct(1))+
  then show ?case using snoc by simp
qed simp

text \<open>The directory that mirrors the next one to walk is there, or can be made.\<close>

lemma mirror_dir:
  assumes pre: "copy_pre src out F0" and w: "walked src F0 (stack @ [src @ r]) W"
  shows "(if copied src out F0 W (out @ r) = None then make_dirs (out @ r) (copied src out F0 W) else Some (copied src out F0 W))
    = Some ((copied src out F0 W)(out @ r \<mapsto> Dir))"
proof (cases "r = []")
  case True
  have "copied src out F0 W out = Some Dir" using pre copied_out [of src out F0 W "[]"] by (simp add: copy_pre_def)
  then show ?thesis using True by (simp add: fun_upd_idem)
next
  case False
  have "src @ r \<in> {p \<in> dirs_below src F0 - W. p = src \<or> butlast p \<in> W}" "W \<subseteq> dirs_below src F0"
    using w unfolding walked_def by (metis in_set_conv_decomp, blast)
  then have mem: "F0 (src @ r) = Some Dir" "src @ r \<notin> W" "src @ butlast r \<in> W" "W \<subseteq> dirs_below src F0"
    using False by (auto simp: dirs_below_def butlast_append)
  have t: "tree_ok F0" using pre by (simp add: copy_pre_def)
  have new: "copied src out F0 W (out @ r) = None" using False mem by (simp add: copied_out)
  have "copied src out F0 W (take n (out @ r)) = Some Dir" if n: "n < length (out @ r)" for n
  proof (cases "n < length out")
    case True
    have "F0 (take n out) = Some Dir"
      using tree_prefix [OF t, of "take n out" "drop n out"] pre True by (simp add: copy_pre_def)
    moreover have "take (length out) (take n out) \<noteq> out" using True by (metis length_take min.absorb4 take_take min.commute nat_neq_iff)
    ultimately show ?thesis using True by (simp add: copied_def)
  next
    case n2: False
    let ?r = "take (n - length out) r"
    have "take (length ?r) (butlast r) = ?r" using n n2 by (simp add: take_butlast)
    then obtain r' where "butlast r = ?r @ r'" by (metis append_take_drop_id)
    then have "src @ ?r \<in> W" using walked_ancestor [OF w, of ?r r'] mem(3) by simp
    moreover from this have "F0 (src @ ?r) = Some Dir" using mem(4) by (auto simp: dirs_below_def)
    ultimately show ?thesis using n2 pre by (simp add: copied_out copy_pre_def)
  qed
  moreover have "''..'' \<notin> set (out @ r)" using pre tree_names [OF t, of src r] mem(1) by (simp add: copy_pre_def)
  ultimately have "make_dirs (out @ r) (copied src out F0 W) = Some ((copied src out F0 W)(out @ r \<mapsto> Dir))"
    using new by (intro make_dirs_new)
  then show ?thesis using new by simp
qed

lemma mirror_files:
  assumes pre: "copy_pre src out F0" and p: "F0 (src @ r) = Some Dir" "src @ r \<notin> W"
    and names: "set names = {c. F0 (src @ r @ [c]) \<noteq> None}"
  shows "(\<lambda>q. if q \<noteq> [] \<and> butlast q = out @ r \<and> last q \<in> set names \<and> is_file (F0 (src @ r @ [last q])) then F0 (src @ r @ [last q])
      else ((copied src out F0 W)(out @ r \<mapsto> Dir)) q) = copied src out F0 (insert (src @ r) W)" (is "?F = _")
proof
  fix q
  show "?F q = copied src out F0 (insert (src @ r) W) q"
  proof (cases "take (length out) q = out")
    case False
    then have "q \<noteq> out @ r" "\<not> (q \<noteq> [] \<and> butlast q = out @ r)"
      by (auto simp: below_cases) (metis append_butlast_last_id append_assoc)
    then show ?thesis using False by (auto simp: copied_def)
  next
    case True
    then obtain r' where q: "q = out @ r'" by (auto simp: below_cases)
    show ?thesis
    proof (cases "r' = []")
      case True
      then show ?thesis using pre q copied_out [of src out F0 _ "[]"] by (auto simp: copy_pre_def butlast_append)
        (metis append_Nil2 butlast.simps(1) length_butlast length_append diff_less length_greater_0_conv less_numeral_extra(1) not_add_less1)+
    next
      case False
      have "butlast q = out @ butlast r'" "last q = last r'" using False q by (simp_all add: butlast_append)
      moreover have "src @ r' = src @ r @ [last r']" if "butlast r' = r" using that False by (metis append_butlast_last_id)
      ultimately show ?thesis using False p names q
        by (cases "butlast r' = r"; cases "F0 (src @ r')"; cases "the (F0 (src @ r'))")
          (auto simp: copied_out is_file_def)
    qed
  qed
qed

lemma walked_step:
  assumes w: "walked src F0 (stack @ [p]) W" and names: "distinct names" "set names = {c. F0 (p @ [c]) \<noteq> None}"
  shows "walked src F0 (stack @ map (\<lambda>c. p @ [c]) (filter (\<lambda>c. F0 (p @ [c]) = Some Dir) names)) (insert p W)"
proof -
  note w' = w [unfolded walked_def]
  have p: "p \<in> dirs_below src F0" "p \<notin> W" "p = src \<or> butlast p \<in> W" using w' by (metis (mono_tags, lifting) DiffD1 DiffD2 in_set_conv_decomp mem_Collect_eq)+
  have stack: "set stack = {q \<in> dirs_below src F0 - insert p W. q = src \<or> butlast q \<in> W}" "distinct stack"
    using w' by auto
  have child: "p @ [c] \<noteq> src" "p @ [c] \<notin> W" for c
  proof -
    show "p @ [c] \<noteq> src" using p(1) by (auto simp: dirs_below_def below_cases)
    then show "p @ [c] \<notin> W" using w' p(2) by (metis butlast_snoc)
  qed
  have kids: "set (map (\<lambda>c. p @ [c]) (filter (\<lambda>c. F0 (p @ [c]) = Some Dir) names))
      = {q \<in> dirs_below src F0 - insert p W. q \<noteq> src \<and> butlast q = p}"
  proof -
    have "p @ [c] \<in> dirs_below src F0 \<longleftrightarrow> F0 (p @ [c]) = Some Dir" for c using p(1) by (auto simp: dirs_below_def below_cases)
    moreover have "\<exists>c. q = p @ [c]" if "q \<in> dirs_below src F0" "q \<noteq> src" "butlast q = p" for q
    proof -
      have "q \<noteq> []" using that(1,2) by (auto simp: dirs_below_def)
      then show ?thesis using that(3) by (metis append_butlast_last_id)
    qed
    ultimately have "q \<in> dirs_below src F0 - insert p W \<and> q \<noteq> src \<and> butlast q = p
        \<longleftrightarrow> (\<exists>c. q = p @ [c] \<and> F0 (p @ [c]) = Some Dir)" for q
      using child by (metis DiffD1 DiffI butlast_snoc insertE append_self_conv not_Cons_self2)
    then show ?thesis using names(2) by auto
  qed
  have "set stack \<inter> {q. q \<noteq> src \<and> butlast q = p} = {}" using stack(1) p(2) by auto
  then have "distinct (stack @ map (\<lambda>c. p @ [c]) (filter (\<lambda>c. F0 (p @ [c]) = Some Dir) names))"
    using stack(2) names(1) kids by (auto simp: distinct_map inj_on_def)
  moreover have "set stack \<union> {q \<in> dirs_below src F0 - insert p W. q \<noteq> src \<and> butlast q = p}
      = {q \<in> dirs_below src F0 - insert p W. q = src \<or> butlast q \<in> insert p W}" using stack(1) by auto
  ultimately show ?thesis unfolding walked_def set_append kids using p w' by auto
qed

lemma copy_dir_step:
  assumes pre: "copy_pre src out F0" and ls: "lists ls" and w: "walked src F0 (stack @ [p]) W"
  obtains stack' where "copy_dir ls src out p (stack, copied src out F0 W) = Some (stack', copied src out F0 (insert p W))"
    and "walked src F0 stack' (insert p W)"
proof -
  have "p \<in> {p \<in> dirs_below src F0 - W. p = src \<or> butlast p \<in> W}" using w unfolding walked_def by (metis in_set_conv_decomp)
  then obtain r where p: "p = src @ r" "F0 p = Some Dir" "p \<notin> W" by (auto simp: dirs_below_def below_cases)
  define F1 where "F1 = (copied src out F0 W)(out @ r \<mapsto> Dir)"
  have at: "F1 (src @ q) = F0 (src @ q)" for q using apart [OF pre, of q r] by (simp add: F1_def copied_from [OF pre])
  have "finite {c. F0 (p @ [c]) \<noteq> None}"
  proof -
    have "(\<lambda>c. p @ [c]) ` {c. F0 (p @ [c]) \<noteq> None} \<subseteq> dom F0" by auto
    moreover have "finite (dom F0)" using pre by (simp add: copy_pre_def tree_ok_def)
    ultimately show ?thesis by (meson finite_imageD finite_subset inj_onI same_append_eq list.inject)
  qed
  then have names: "distinct (ls p F1)" "set (ls p F1) = {c. F0 (p @ [c]) \<noteq> None}"
    using ls at [of "r @ [_]"] unfolding lists_def p(1) by simp_all
  have "copy_dir ls src out p (stack, copied src out F0 W) = copy_entries p (out @ r) (ls p F1) (stack, F1)"
  proof -
    have "drop (length src) p = r" "F1 p = Some Dir" using p at [of r] by simp_all
    then show ?thesis using mirror_dir [OF pre w [unfolded p(1)]]
      by (simp add: copy_dir_def F1_def [symmetric] Let_def del: fun_upd_apply)
  qed
  also have "copy_entries p (out @ r) (ls p F1) (stack, F1) =
      Some (stack @ map (\<lambda>c. p @ [c]) (filter (\<lambda>c. F0 (p @ [c]) = Some Dir) (ls p F1)), copied src out F0 (insert p W))"
  proof -
    have ne: "p \<noteq> out @ r" using apart [OF pre, of r r] p(1) by simp
    have kid: "F1 (p @ [c]) = F0 (src @ r @ [c])" "F0 (p @ [c]) = F0 (src @ r @ [c])" for c using at [of "r @ [c]"] p(1) by simp_all
    have "F1 ((out @ r) @ [c]) \<noteq> Some Dir" if "is_file (F0 (src @ r @ [c]))" for c
      using that copied_out [of src out F0 W "r @ [c]"] by (auto simp: F1_def is_file_def split: if_splits)
    then have free: "\<forall>c \<in> set (ls p F1). F1 (p @ [c]) \<noteq> None \<and> (is_file (F1 (p @ [c])) \<longrightarrow> F1 ((out @ r) @ [c]) \<noteq> Some Dir)"
      using names(2) unfolding kid by blast
    have "set (ls p F1) = {c. F0 (src @ r @ [c]) \<noteq> None}" using names(2) kid(2) by simp
    from mirror_files [OF pre _ _ this, of W, folded F1_def] p show ?thesis
      unfolding copy_entries_all [OF ne free] kid by simp
  qed
  finally show ?thesis using that walked_step [OF w names] by blast
qed

lemma copy_loop_walks:
  assumes pre: "copy_pre src out F0" and ls: "lists ls"
  shows "walked src F0 stack W \<Longrightarrow> card (dirs_below src F0 - W) \<le> n \<Longrightarrow>
    copy_loop n ls src out (stack, copied src out F0 W) = Some (Some (copied src out F0 (dirs_below src F0)))"
proof (induction n arbitrary: stack W)
  case 0
  have "finite (dirs_below src F0)"
    using pre by (auto simp: copy_pre_def tree_ok_def dirs_below_def intro: finite_subset [of _ "dom F0"])
  then have "dirs_below src F0 \<subseteq> W" using 0(2) by auto
  then have "stack = []" using 0(1) unfolding walked_def by (cases stack) auto
  moreover have "W = dirs_below src F0" using \<open>dirs_below src F0 \<subseteq> W\<close> 0(1) unfolding walked_def by auto
  ultimately show ?case by simp
next
  case (Suc n)
  have t: "tree_ok F0" using pre by (simp add: copy_pre_def)
  show ?case
  proof (cases "stack = []")
    case True
    then show ?thesis using walked_all [OF _ t] Suc.prems(1) by simp
  next
    case False
    then obtain st p where st: "stack = st @ [p]" by (metis append_butlast_last_id)
    from copy_dir_step [OF pre ls Suc.prems(1) [unfolded st]] obtain stack' where
      s: "copy_dir ls src out p (st, copied src out F0 W) = Some (stack', copied src out F0 (insert p W))"
        "walked src F0 stack' (insert p W)" .
    have fin: "finite (dirs_below src F0)"
      using t by (auto simp: tree_ok_def dirs_below_def intro: finite_subset [of _ "dom F0"])
    have "p \<in> dirs_below src F0 - W" using Suc.prems(1) st unfolding walked_def by (metis (mono_tags, lifting) in_set_conv_decomp mem_Collect_eq)
    then have "card (dirs_below src F0 - insert p W) < card (dirs_below src F0 - W)"
      using fin by (intro psubset_card_mono) auto
    then show ?thesis using Suc.IH [OF s(2)] Suc.prems(2) s(1) st by simp
  qed
qed

text \<open>An example: the directory \<open>/a\<close> with one file, and an empty \<open>/t\<close>.\<close>

definition example_tree :: fs where
  "example_tree = [[] \<mapsto> Dir, [''a''] \<mapsto> Dir, [''a'', ''f''] \<mapsto> File ''x'', [''t''] \<mapsto> Dir]"

definition sorted_listing :: listing where
  "sorted_listing p F = sorted_list_of_set {c. F (p @ [c]) \<noteq> None}"

lemma sorted_listing_lists: "lists sorted_listing"
  by (simp add: lists_def sorted_listing_def)

lemma example_tree_pre: "copy_pre [''a''] [''t''] example_tree"
proof -
  have t: "tree_ok example_tree"
    by (auto simp: tree_ok_def example_tree_def append_eq_Cons_conv split: if_splits)
  show ?thesis unfolding copy_pre_def using t by (auto simp: example_tree_def)
qed

lemma example_tree_dirs: "card (dirs_below [''a''] example_tree) \<le> 1"
proof -
  have "dirs_below [''a''] example_tree = {[''a'']}"
    by (auto simp: dirs_below_def example_tree_def split: if_splits)
  then show ?thesis by simp
qed

section \<open>Properties\<close>

text \<open>C33: the recursive copy of a directory ends, with fuel for each directory below it, and leaves below the
  output exactly the source tree and everything else as it was, in whatever order directories are listed.\<close>

theorem copy_r_copies:
  assumes "copy_pre src out F" and "lists ls" and "card (dirs_below src F) \<le> n"
  shows "copy_r n ls src out F =
    Some (Some (\<lambda>q. if take (length out) q = out then F (src @ drop (length out) q) else F q))"
proof -
  have start: "copied src out F {} = F"
  proof
    fix q
    show "copied src out F {} q = F q"
      using assms(1) by (auto simp: copied_def Let_def copy_pre_def below_cases)
  qed
  have "walked src F [src] {}" using assms(1) by (auto simp: walked_def dirs_below_def copy_pre_def)
  from copy_loop_walks [OF assms(1,2) this, of n] assms(3)
  have "copy_r n ls src out F = Some (Some (copied src out F (dirs_below src F)))" by (simp add: copy_r_def start)
  moreover have "copied src out F (dirs_below src F) q = (if take (length out) q = out then F (src @ drop (length out) q) else F q)" for q
  proof (cases "\<exists>r. r \<noteq> [] \<and> q = out @ r")
    case True
    then obtain r where r: "r \<noteq> []" "q = out @ r" by blast
    have "F (src @ butlast r) = Some Dir" if "F (src @ r) \<noteq> None"
      using that r(1) assms(1) unfolding copy_pre_def tree_ok_def by (metis append_assoc append_butlast_last_id)
    then show ?thesis using r by (cases "F (src @ r) = None") (auto simp: copied_out dirs_below_def)
  next
    case False
    then show ?thesis using assms(1) by (cases "q = out") (auto simp: copied_def copy_pre_def below_cases)
  qed
  ultimately show ?thesis by presburger
qed

theorem copy_r_copies_witness:
  "\<exists>F. copy_r 1 sorted_listing [''a''] [''t''] example_tree = Some (Some F) \<and> F [''t'', ''f''] = Some (File ''x'')"
  using copy_r_copies [OF example_tree_pre sorted_listing_lists example_tree_dirs] by (simp add: example_tree_def)

end
