(* ===== verification/Sources.thy ===== *)
theory Sources
  imports Storage Config_Node File_Copy
begin

text \<open>
  Where code comes from: the trait \<open>Source\<close> (\<open>crates/edo/src/source/mod.rs\<close>) and the five
  implementations of \<open>crates/core/src/source\<close>: \<open>git\<close>, \<open>remote\<close>, \<open>local\<close>, \<open>image\<close> (OCI) and \<open>vendor\<close>.

  A source computes its identifier, fetches its content into the local cache and stages it
  into an environment. The state of a fetch is the heap of storage backends (theory \<open>Storage\<close>),
  that of staging the environment (theory \<open>Environment\<close>). Parameters: git, HTTP, the registry client,
  the merkle hash, cargo and go, URLs, the tar format. Log records are not kept.
\<close>

section \<open>Errors\<close>

datatype 'c git_error = GitArchive | GitField string string | GitInvoke | GitProject 'c | GitTemp

datatype 'c remote_error = RemoteContext 'c | RemoteFailed string | RemoteDigest string string
  | RemoteField string string | RemoteIo | RemoteRequest | RemoteUrl

datatype 'c local_source_error = LSAbsolute | LSArchive | LSField string string | LSMerkle | LSProject 'c | LSReadFile

datatype 'c image_error = ImageContext 'c | ImageDigest string string | ImageOci | ImageField string string | ImageIo

datatype 'c vendor_error = VendorCargoNotFound | VendorContext 'c | VendorField string string | VendorGoNotFound
  | VendorIo | VendorMerkle

datatype 'c source_impl_error = IGit "'c git_error" | IRemote "'c remote_error" | ILocal "'c local_source_error"
  | IImage "'c image_error" | IVendor "'c vendor_error"

text \<open>The variants of \<open>SourceError\<close> that the operations of a source return.\<close>

datatype ('i, 'n, 'c) fetch_error = SrcStorage "'i storage_error" | SrcEnv "'n env_error" | SrcImpl "'c source_impl_error"

section \<open>Reading definitions\<close>

text \<open>\<open>node.get(key).unwrap()\<close>, then \<open>as_string\<close>.\<close>

definition unwrap_get :: "nat \<Rightarrow> string \<Rightarrow> ('v, 'q, 'f) nheap \<Rightarrow> ('e, nat) res" where
  "unwrap_get r key h = (case node_lookup r key h of None \<Rightarrow> Inl Panic | Some n \<Rightarrow> Ok n)"

definition string_field :: "(string \<Rightarrow> string \<Rightarrow> 'e) \<Rightarrow> nat \<Rightarrow> string \<Rightarrow> ('v, 'q, 'f) nheap \<Rightarrow> ('e, string) res" where
  "string_field mk r key h =
     bindR (unwrap_get r key h) (\<lambda>n. ok_or (mk key ''string'') (as_string (cell h n)))"

definition bool_field :: "(string \<Rightarrow> string \<Rightarrow> 'e) \<Rightarrow> nat \<Rightarrow> string \<Rightarrow> ('v, 'q, 'f) nheap \<Rightarrow> ('e, bool) res" where
  "bool_field mk r key h =
     bindR (unwrap_get r key h) (\<lambda>n. ok_or (mk key ''bool'') (as_bool (cell h n)))"

text \<open>\<open>node.get(key).and_then(|x| x.as_...())\<close>.\<close>

definition maybe_string :: "nat \<Rightarrow> string \<Rightarrow> ('v, 'q, 'f) nheap \<Rightarrow> string option" where
  "maybe_string r key h = Option.bind (node_lookup r key h) (\<lambda>n. as_string (cell h n))"

definition maybe_bool :: "nat \<Rightarrow> string \<Rightarrow> ('v, 'q, 'f) nheap \<Rightarrow> bool option" where
  "maybe_bool r key h = Option.bind (node_lookup r key h) (\<lambda>n. as_bool (cell h n))"

section \<open>What the sources call\<close>

text \<open>Each external program or crate is a field: \<open>clone url reference\<close> gives the exit status (\<open>None\<close> when git
  could not be started) and the tree left in the temporary directory; \<open>http_get\<close> whether the HTTP status is a success, the
  bytes of the body that arrive and whether they end without an error; \<open>merkle\<close> the hash of a file tree; \<open>manifests\<close> the digests of an image index and \<open>to_oci\<close> its
  archive; \<open>temp_dir\<close> is the directory that \<open>TempDir::new\<close> makes and \<open>read_dir\<close> lists one in the system's order;
  \<open>cargo_vendor_out\<close> (with its output) and \<open>go_mod_vendor\<close> run in a directory.\<close>

record ('u, 'r) tools =
  temp_ok :: bool
  clone :: "string \<Rightarrow> string \<Rightarrow> bool option \<times> fs"
  hex :: "string \<Rightarrow> string"
  json_object :: "(string \<times> string) list \<Rightarrow> string"
  url_parse :: "string \<Rightarrow> 'u option"
  url_path :: "'u \<Rightarrow> string"
  url_text :: "'u \<Rightarrow> string"
  http_get :: "'u \<Rightarrow> (bool \<times> string \<times> bool) option"
  merkle :: "string list \<Rightarrow> fs \<Rightarrow> string option"
  blake3 :: "string \<Rightarrow> string"
  uri_parse :: "string \<Rightarrow> 'r option"
  uri_text :: "'r \<Rightarrow> string"
  platform_from :: "string \<Rightarrow> string"
  platform_default :: string
  index_manifests :: "'r \<Rightarrow> string list option"
  to_oci :: "'r \<Rightarrow> string \<Rightarrow> string option"
  temp_dir :: string
  read_dir :: listing
  which_cargo :: bool
  which_go :: bool
  cargo_vendor_out :: "string list \<Rightarrow> fs \<Rightarrow> (bool option \<times> string) \<times> fs"
  go_mod_vendor :: "string list \<Rightarrow> fs \<Rightarrow> bool option \<times> fs"

section \<open>Storing a fetched layer\<close>

definition in_storage :: "((nat \<Rightarrow> 's) \<Rightarrow> ('i storage_error, 'a) res \<times> (nat \<Rightarrow> 's))
    \<Rightarrow> (nat \<Rightarrow> 's, ('i, 'n, 'c) fetch_error, 'a) action" where
  "in_storage m h = (let (r, h') = m h in (map_err SrcStorage r, h'))"

text \<open>\<open>copy\<close> into the writer (or the archive built on a clone of it), whose errors the source reports.
  The bytes have reached the file when it returns, as after a copy, which flushes; an archive whose end
  blocks are not flushed is taken to be whole as well.\<close>

definition write_to :: "(nat \<Rightarrow> ('s, 'w, 'i, 'v) backend) \<Rightarrow> storage \<Rightarrow> 'c source_impl_error \<Rightarrow> string option \<Rightarrow> 'w
    \<Rightarrow> (nat \<Rightarrow> 's, ('i, 'n, 'c) fetch_error, 'w) action" where
  "write_to V st e bytes w h =
     (case bytes of
        None \<Rightarrow> (Fail (SrcImpl e), h)
      | Some x \<Rightarrow> (let (r, h') = on_local (\<lambda>B. bk_write B x w) V st h in (map_err (\<lambda>_. SrcImpl e) r, h')))"

definition put_layer :: "(nat \<Rightarrow> ('s, 'w, 'i, 'v) backend) \<Rightarrow> storage \<Rightarrow> string \<Rightarrow> media_type \<Rightarrow> string option
    \<Rightarrow> 'c source_impl_error \<Rightarrow> string option \<Rightarrow> (nat \<Rightarrow> 's, ('i, 'n, 'c) fetch_error, layer) action" where
  "put_layer V st u media platform e bytes =
     bindS (in_storage (safe_start_layer V st u)) (\<lambda>w.
     bindS (write_to V st e bytes w) (\<lambda>w2.
     in_storage (safe_finish_layer V st media platform w2)))"

text \<open>The builders' defaults.\<close>

definition new_config :: "'v artifact_id \<Rightarrow> 'v config" where
  "new_config i = \<lparr>cfg_id = i, provides = {}, requires = [], metadata = ''null''\<rparr>"

definition new_artifact :: "media_type \<Rightarrow> 'v config \<Rightarrow> 'v artifact" where
  "new_artifact media c = \<lparr>art_media = media, art_config = c, art_layers = []\<rparr>"

definition push_layer :: "layer \<Rightarrow> 'v artifact \<Rightarrow> 'v artifact" where
  "push_layer l a = a\<lparr>art_layers := art_layers a @ [l]\<rparr>"

definition new_id :: "string \<Rightarrow> string option \<Rightarrow> string \<Rightarrow> 'v artifact_id" where
  "new_id name arch digest = Id (name_parse name) None None arch digest"

definition save_artifact :: "(nat \<Rightarrow> ('s, 'w, 'i, 'v) backend) \<Rightarrow> storage \<Rightarrow> 'v artifact
    \<Rightarrow> (nat \<Rightarrow> 's, ('i, 'n, 'c) fetch_error, 'v artifact) action" where
  "save_artifact V st a = bindS (in_storage (safe_save V st a)) (\<lambda>_. returnS a)"

section \<open>The trait\<close>

record ('s, 'e, 'i, 'n, 'c, 'v) source =
  src_id :: "(('i, 'n, 'c) fetch_error, 'v artifact_id) res"
  src_fetch :: "string \<Rightarrow> (nat \<Rightarrow> 's, ('i, 'n, 'c) fetch_error, 'v artifact) action"
  src_stage :: "(nat \<Rightarrow> 's) \<Rightarrow> string \<Rightarrow> ('e, ('i, 'n, 'c) fetch_error, unit) action"

definition source_cache :: "(nat \<Rightarrow> ('s, 'w, 'i, 'v) backend) \<Rightarrow> storage \<Rightarrow> string list \<Rightarrow> string \<Rightarrow> ('s, 'e, 'i, 'n, 'c, 'v) source
    \<Rightarrow> (nat \<Rightarrow> 's, ('i, 'n, 'c) fetch_error, 'v artifact) action" where
  "source_cache V st us u S =
     bindS (liftS (src_id S)) (\<lambda>i.
     bindS (in_storage (fetch_source V st us i)) (\<lambda>found.
     case found of Some a \<Rightarrow> returnS a | None \<Rightarrow> src_fetch S u))"

text \<open>The common part of \<open>stage\<close>: open the artifact, read its first layer.\<close>

definition first_layer :: "(nat \<Rightarrow> ('s, 'w, 'i, 'v) backend) \<Rightarrow> storage \<Rightarrow> (nat \<Rightarrow> 's) \<Rightarrow> 'v artifact_id
    \<Rightarrow> (('i, 'n, 'c) fetch_error, layer \<times> string) res" where
  "first_layer V st h i =
     bindR (map_err SrcStorage (safe_open V st i h)) (\<lambda>a.
     case art_layers a of
       [] \<Rightarrow> Inl Panic
     | l # _ \<Rightarrow> bindR (map_err SrcStorage (safe_read V st l h)) (\<lambda>x. Ok (l, x)))"

definition in_env :: "('e, 'n, 'a) env_action \<Rightarrow> ('e, ('i, 'n, 'c) fetch_error, 'a) action" where
  "in_env m n = (let (r, n') = m n in (map_err SrcEnv r, n'))"

section \<open>Git\<close>

record git_source =
  git_url :: string
  git_reference :: string
  git_out :: string

definition git_from_node :: "nat \<Rightarrow> ('v, 'q, 'f) nheap \<Rightarrow> (('v, 'q) context_error git_error, git_source) res" where
  "git_from_node r h =
     bindR (map_err GitProject (validate_keys [''url'', ''ref'', ''out''] (cell h r))) (\<lambda>_.
     bindR (string_field GitField r ''url'' h) (\<lambda>url.
     bindR (string_field GitField r ''ref'' h) (\<lambda>reference.
     bindR (string_field GitField r ''out'' h) (\<lambda>out.
     Ok \<lparr>git_url = url, git_reference = reference, git_out = out\<rparr>))))"

definition git_id :: "('u, 'r) tools \<Rightarrow> git_source \<Rightarrow> 'v artifact_id" where
  "git_id T G = new_id (git_url G @ ''@'' @ git_reference G) None (hex T (git_reference G))"

text \<open>The exit status of \<open>git clone\<close> is not looked at.\<close>

definition git_fetch :: "('u, 'r) tools \<Rightarrow> host \<Rightarrow> (nat \<Rightarrow> ('s, 'w, 'i, 'v) backend) \<Rightarrow> storage \<Rightarrow> git_source \<Rightarrow> string
    \<Rightarrow> (nat \<Rightarrow> 's, ('i, 'n, 'c) fetch_error, 'v artifact) action" where
  "git_fetch T H V st G u h =
     (if \<not> temp_ok T then (Fail (SrcImpl (IGit GitTemp)), h)
      else case clone T (git_url G) (git_reference G) of
             (None, _) \<Rightarrow> (Fail (SrcImpl (IGit GitInvoke)), h)
           | (Some _, tree) \<Rightarrow>
               bindS (put_layer V st u (Tar NoCompression) None (IGit GitArchive) (tar H [] tree)) (\<lambda>l.
               save_artifact V st (push_layer l (new_artifact Manifest
                 ((new_config (git_id T G))\<lparr>metadata :=
                    json_object T [(''repository'', git_url G), (''reference'', git_reference G)]\<rparr>)))) h)"

definition git_stage :: "('u, 'r) tools \<Rightarrow> (nat \<Rightarrow> ('s, 'w, 'i, 'v) backend) \<Rightarrow> storage \<Rightarrow> ('e, 'n) environment \<Rightarrow> git_source
    \<Rightarrow> (nat \<Rightarrow> 's) \<Rightarrow> string \<Rightarrow> ('e, ('i, 'n, 'c) fetch_error, unit) action" where
  "git_stage T V st E G h path =
     bindS (liftS (first_layer V st h (git_id T G))) (\<lambda>(l, x).
     in_env (e_unpack E (path_join path (git_out G)) x))"

definition git_ops :: "('u, 'r) tools \<Rightarrow> host \<Rightarrow> (nat \<Rightarrow> ('s, 'w, 'i, 'v) backend) \<Rightarrow> storage \<Rightarrow> ('e, 'n) environment \<Rightarrow> git_source
    \<Rightarrow> ('s, 'e, 'i, 'n, 'c, 'v) source" where
  "git_ops T H V st E G =
     \<lparr>src_id = Ok (git_id T G), src_fetch = git_fetch T H V st G, src_stage = git_stage T V st E G\<rparr>"

section \<open>Remote files\<close>

record 'u remote_source =
  rem_url :: 'u
  rem_digest :: string
  rem_out :: string
  rem_archive :: bool

definition remote_from_node :: "('u, 'r) tools \<Rightarrow> nat \<Rightarrow> ('v, 'q, 'f) nheap
    \<Rightarrow> (('v, 'q) context_error remote_error, 'u remote_source) res" where
  "remote_from_node T r h =
     bindR (map_err RemoteContext (validate_keys [''url'', ''out'', ''ref''] (cell h r))) (\<lambda>_.
     bindR (string_field RemoteField r ''url'' h) (\<lambda>url.
     bindR (string_field RemoteField r ''out'' h) (\<lambda>out.
     bindR (string_field RemoteField r ''ref'' h) (\<lambda>digest.
     bindR (ok_or RemoteUrl (url_parse T url)) (\<lambda>u.
     Ok \<lparr>rem_url = u, rem_digest = digest, rem_out = out,
         rem_archive = (case maybe_bool r ''is_archive'' h of Some b \<Rightarrow> b | None \<Rightarrow> False)\<rparr>)))))"

definition remote_id :: "('u, 'r) tools \<Rightarrow> 'u remote_source \<Rightarrow> 'v artifact_id" where
  "remote_id T R = new_id (url_path T (rem_url R)) None (rem_digest R)"

definition remote_fetch :: "('u, 'r) tools \<Rightarrow> (nat \<Rightarrow> ('s, 'w, 'i, 'v) backend) \<Rightarrow> storage \<Rightarrow> 'u remote_source \<Rightarrow> string
    \<Rightarrow> (nat \<Rightarrow> 's, ('i, 'n, 'c) fetch_error, 'v artifact) action" where
  "remote_fetch T V st R u h =
     (case http_get T (rem_url R) of
        None \<Rightarrow> (Fail (SrcImpl (IRemote RemoteRequest)), h)
      | Some (False, body, whole) \<Rightarrow> (Fail (SrcImpl (IRemote (if whole then RemoteFailed body else RemoteRequest))), h)
      | Some (True, body, False) \<Rightarrow>
          bindS (in_storage (safe_start_layer V st u)) (\<lambda>w.
          bindS (write_to V st (IRemote RemoteIo) (Some body) w) (\<lambda>_.
          liftS (Fail (SrcImpl (IRemote RemoteIo))))) h
      | Some (True, body, True) \<Rightarrow>
          bindS (put_layer V st u (media_type.File NoCompression) None (IRemote RemoteIo) (Some body)) (\<lambda>l.
          bindS (liftS (if layer_digest_text l = id_digest (remote_id T R :: 'v artifact_id) then Ok ()
                        else Fail (SrcImpl (IRemote (RemoteDigest (layer_digest_text l) (id_digest (remote_id T R :: 'v artifact_id))))))) (\<lambda>_.
          save_artifact V st (push_layer l (new_artifact Manifest
            ((new_config (remote_id T R))\<lparr>metadata := json_object T [(''source'', url_text T (rem_url R))]\<rparr>))))) h)"

definition remote_stage :: "('u, 'r) tools \<Rightarrow> (nat \<Rightarrow> ('s, 'w, 'i, 'v) backend) \<Rightarrow> storage \<Rightarrow> ('e, 'n) environment \<Rightarrow> 'u remote_source
    \<Rightarrow> (nat \<Rightarrow> 's) \<Rightarrow> string \<Rightarrow> ('e, ('i, 'n, 'c) fetch_error, unit) action" where
  "remote_stage T V st E R h path =
     bindS (liftS (first_layer V st h (remote_id T R))) (\<lambda>(l, x).
     in_env (if rem_archive R then e_unpack E (path_join path (rem_out R)) x
             else e_write E (path_join path (rem_out R)) x))"

definition remote_ops :: "('u, 'r) tools \<Rightarrow> (nat \<Rightarrow> ('s, 'w, 'i, 'v) backend) \<Rightarrow> storage \<Rightarrow> ('e, 'n) environment \<Rightarrow> 'u remote_source
    \<Rightarrow> ('s, 'e, 'i, 'n, 'c, 'v) source" where
  "remote_ops T V st E R =
     \<lparr>src_id = Ok (remote_id T R), src_fetch = remote_fetch T V st R, src_stage = remote_stage T V st E R\<rparr>"

section \<open>Local paths\<close>

record local_source =
  loc_path :: string
  loc_out :: string
  loc_archive :: bool

definition local_source_from_node :: "nat \<Rightarrow> ('v, 'q, 'f) nheap
    \<Rightarrow> (('v, 'q) context_error local_source_error, local_source) res" where
  "local_source_from_node r h =
     bindR (map_err LSProject (validate_keys [''path'', ''out'', ''is_archive''] (cell h r))) (\<lambda>_.
     bindR (string_field LSField r ''path'' h) (\<lambda>path.
     bindR (string_field LSField r ''out'' h) (\<lambda>out.
     bindR (bool_field LSField r ''is_archive'' h) (\<lambda>arch.
     Ok \<lparr>loc_path = path, loc_out = out, loc_archive = arch\<rparr>))))"

text \<open>\<open>path.file_name().unwrap_or(path)\<close>.\<close>

definition file_name :: "string \<Rightarrow> string option" where
  "file_name p = (let cs = path_segments p in if cs = [] \<or> last cs = ''..'' then None else Some (last cs))"

definition path_name :: "string \<Rightarrow> string" where
  "path_name p = (case file_name p of Some n \<Rightarrow> n | None \<Rightarrow> p)"

text \<open>The identifier is the hash of the files \<open>F\<close> of the host at the time of the call.\<close>

definition local_source_id :: "('u, 'r) tools \<Rightarrow> host \<Rightarrow> fs \<Rightarrow> local_source \<Rightarrow> (('i, 'n, 'c) fetch_error, 'v artifact_id) res" where
  "local_source_id T H F S =
     bindR (ok_or (SrcImpl (ILocal LSAbsolute)) (path_absolute (cwd H) (loc_path S))) (\<lambda>apath.
     bindR (ok_or (SrcImpl (ILocal LSMerkle)) (merkle T (resolve_path H apath) F)) (\<lambda>hash.
     Ok (new_id (path_name (loc_path S)) None (hex T hash))))"

definition local_source_fetch :: "('u, 'r) tools \<Rightarrow> host \<Rightarrow> fs \<Rightarrow> (nat \<Rightarrow> ('s, 'w, 'i, 'v) backend) \<Rightarrow> storage \<Rightarrow> local_source \<Rightarrow> string
    \<Rightarrow> (nat \<Rightarrow> 's, ('i, 'n, 'c) fetch_error, 'v artifact) action" where
  "local_source_fetch T H F V st S u =
     bindS (liftS (local_source_id T H F S)) (\<lambda>i.
     bindS (case F (resolve_path H (loc_path S)) of
              Some (fs_node.File x) \<Rightarrow>
                put_layer V st u (media_type.File NoCompression) None (ILocal LSReadFile) (Some x)
            | _ \<Rightarrow>
                put_layer V st u (Tar NoCompression) None (ILocal LSArchive) (tar H (resolve_path H (loc_path S)) F)) (\<lambda>l.
     save_artifact V st (push_layer l (new_artifact (media_type.File NoCompression) (new_config i)))))"

definition is_tar :: "media_type \<Rightarrow> bool" where
  "is_tar m = (case m of Tar _ \<Rightarrow> True | _ \<Rightarrow> False)"

definition local_source_stage :: "('u, 'r) tools \<Rightarrow> host \<Rightarrow> fs \<Rightarrow> (nat \<Rightarrow> ('s, 'w, 'i, 'v) backend) \<Rightarrow> storage \<Rightarrow> ('e, 'n) environment
    \<Rightarrow> local_source \<Rightarrow> (nat \<Rightarrow> 's) \<Rightarrow> string \<Rightarrow> ('e, ('i, 'n, 'c) fetch_error, unit) action" where
  "local_source_stage T H F V st E S h path =
     bindS (liftS (local_source_id T H F S)) (\<lambda>i.
     bindS (liftS (first_layer V st h i)) (\<lambda>(l, x).
     in_env (if loc_archive S \<or> is_tar (layer_media l) then e_unpack E (path_join path (loc_out S)) x
             else e_write E (path_join path (loc_out S)) x)))"

definition local_source_ops :: "('u, 'r) tools \<Rightarrow> host \<Rightarrow> fs \<Rightarrow> (nat \<Rightarrow> ('s, 'w, 'i, 'v) backend) \<Rightarrow> storage \<Rightarrow> ('e, 'n) environment
    \<Rightarrow> local_source \<Rightarrow> ('s, 'e, 'i, 'n, 'c, 'v) source" where
  "local_source_ops T H F V st E S =
     \<lparr>src_id = local_source_id T H F S, src_fetch = local_source_fetch T H F V st S,
      src_stage = local_source_stage T H F V st E S\<rparr>"

section \<open>Container images\<close>

record 'r image_source =
  img_uri :: 'r
  img_digest :: string
  img_platform :: string

definition image_from_node :: "('u, 'r) tools \<Rightarrow> nat \<Rightarrow> ('v, 'q, 'f) nheap
    \<Rightarrow> (('v, 'q) context_error image_error, 'r image_source) res" where
  "image_from_node T r h =
     bindR (map_err ImageContext (validate_keys [''url'', ''ref''] (cell h r))) (\<lambda>_.
     bindR (string_field ImageField r ''url'' h) (\<lambda>url.
     bindR (string_field ImageField r ''ref'' h) (\<lambda>digest.
     bindR (ok_or ImageOci (uri_parse T url)) (\<lambda>uri.
     Ok \<lparr>img_uri = uri, img_digest = digest,
         img_platform = (case maybe_string r ''platform'' h of Some p \<Rightarrow> platform_from T p | None \<Rightarrow> platform_default T)\<rparr>))))"

definition image_id :: "('u, 'r) tools \<Rightarrow> 'r image_source \<Rightarrow> 'v artifact_id" where
  "image_id T I = new_id (uri_text T (img_uri I)) None (img_digest I)"

definition index_digest :: "('u, 'r) tools \<Rightarrow> string list \<Rightarrow> string" where
  "index_digest T ms = hex T (blake3 T (concat ms))"

definition image_fetch :: "('u, 'r) tools \<Rightarrow> (nat \<Rightarrow> ('s, 'w, 'i, 'v) backend) \<Rightarrow> storage \<Rightarrow> 'r image_source \<Rightarrow> string
    \<Rightarrow> (nat \<Rightarrow> 's, ('i, 'n, 'c) fetch_error, 'v artifact) action" where
  "image_fetch T V st I u h =
     (case index_manifests T (img_uri I) of
        None \<Rightarrow> (Fail (SrcImpl (IImage ImageOci)), h)
      | Some ms \<Rightarrow>
          if id_digest (image_id T I :: 'v artifact_id) \<noteq> index_digest T ms
          then (Fail (SrcImpl (IImage (ImageDigest (id_digest (image_id T I :: 'v artifact_id)) (index_digest T ms)))), h)
          else bindS (put_layer V st u (Oci NoCompression) (Some (img_platform I)) (IImage ImageOci)
                        (to_oci T (img_uri I) (img_platform I))) (\<lambda>l.
               save_artifact V st (push_layer l (new_artifact Manifest
                 ((new_config (image_id T I))\<lparr>provides := {uri_text T (img_uri I)}\<rparr>)))) h)"

definition image_stage :: "(nat \<Rightarrow> 's) \<Rightarrow> string \<Rightarrow> ('e, ('i, 'n, 'c) fetch_error, unit) action" where
  "image_stage h path = returnS ()"

definition image_ops :: "('u, 'r) tools \<Rightarrow> (nat \<Rightarrow> ('s, 'w, 'i, 'v) backend) \<Rightarrow> storage \<Rightarrow> 'r image_source
    \<Rightarrow> ('s, 'e, 'i, 'n, 'c, 'v) source" where
  "image_ops T V st I = \<lparr>src_id = Ok (image_id T I), src_fetch = image_fetch T V st I, src_stage = image_stage\<rparr>"

section \<open>Vendored dependencies\<close>

record vendor_source =
  ven_path :: string
  ven_inside :: string
  ven_out :: string
  ven_rust :: bool
  ven_go :: "string list"

definition go_field :: "nat \<Rightarrow> ('v, 'q, 'f) nheap \<Rightarrow> ('c vendor_error, string list) res" where
  "go_field r h =
     (case node_lookup r ''go'' h of
        None \<Rightarrow> Ok []
      | Some n \<Rightarrow>
          bindR (ok_or (VendorField ''go'' ''list of strings'') (as_list (cell h n)))
            (mapR (\<lambda>e. ok_or (VendorField ''go'' ''list of strings'') (as_string (cell h e)))))"

definition vendor_from_node :: "nat \<Rightarrow> ('v, 'q, 'f) nheap
    \<Rightarrow> (('v, 'q) context_error vendor_error, vendor_source) res" where
  "vendor_from_node r h =
     bindR (map_err VendorContext (validate_keys [''path'', ''inside'', ''out''] (cell h r))) (\<lambda>_.
     bindR (string_field VendorField r ''path'' h) (\<lambda>path.
     bindR (string_field VendorField r ''inside'' h) (\<lambda>inside.
     bindR (string_field VendorField r ''out'' h) (\<lambda>out.
     bindR (go_field r h) (\<lambda>go.
     Ok \<lparr>ven_path = path, ven_inside = inside, ven_out = out,
         ven_rust = (case maybe_bool r ''rust'' h of Some b \<Rightarrow> b | None \<Rightarrow> False), ven_go = go\<rparr>)))))"

definition vendor_id :: "('u, 'r) tools \<Rightarrow> host \<Rightarrow> fs \<Rightarrow> vendor_source \<Rightarrow> (('i, 'n, 'c) fetch_error, 'v artifact_id) res" where
  "vendor_id T H F S =
     bindR (ok_or (SrcImpl (IVendor VendorIo)) (path_absolute (cwd H) (ven_path S))) (\<lambda>apath.
     bindR (ok_or (SrcImpl (IVendor VendorMerkle)) (merkle T (resolve_path H apath) F)) (\<lambda>hash.
     Ok (new_id (path_name (ven_path S)) None (hex T hash))))"

text \<open>\<open>cargo vendor\<close>, its output appended to \<open>.cargo/config.toml\<close>; the exit status is dropped.\<close>

definition append_file :: "string list \<Rightarrow> string \<Rightarrow> fs \<Rightarrow> fs" where
  "append_file p x F = (case F p of Some (fs_node.File y) \<Rightarrow> F(p \<mapsto> fs_node.File (y @ x)) | _ \<Rightarrow> F)"

definition vendor_rust :: "('u, 'r) tools \<Rightarrow> host \<Rightarrow> string \<Rightarrow> fs \<Rightarrow> ('c vendor_error, fs) res" where
  "vendor_rust T H work F =
     (let target = path_join work ''.cargo'';
          cfg = resolve_path H (path_join target ''config.toml'')
      in if \<not> which_cargo T then Fail VendorCargoNotFound
         else case (if F (resolve_path H target) = None then make_dirs (path_steps H target) F else Some F) of
                None \<Rightarrow> Fail VendorIo
              | Some F1 \<Rightarrow>
                  if F1 cfg = Some Dir \<or> F1 (resolve_path H target) \<noteq> Some Dir then Fail VendorIo
                  else let F2 = (if F1 cfg = None then F1(cfg \<mapsto> fs_node.File []) else F1)
                       in case cargo_vendor_out T (resolve_path H work) F2 of
                            ((None, _), _) \<Rightarrow> Fail VendorIo
                          | ((Some _, text), F3) \<Rightarrow> Ok (append_file cfg text F3))"

fun vendor_go :: "('u, 'r) tools \<Rightarrow> host \<Rightarrow> string \<Rightarrow> string list \<Rightarrow> fs \<Rightarrow> ('c vendor_error, fs) res" where
  "vendor_go T H workspace [] F = Ok F"
| "vendor_go T H workspace (pkg # pkgs) F =
     (if \<not> which_go T then Fail VendorGoNotFound
      else case go_mod_vendor T (resolve_path H (path_join workspace pkg)) F of
             (None, _) \<Rightarrow> Fail VendorIo
           | (Some _, F1) \<Rightarrow> vendor_go T H workspace pkgs F1)"

text \<open>The tree that is archived: a copy of the source in a temporary directory, vendored there. \<open>n\<close> is the fuel
  of the copy, running out of it counts as an error.\<close>

definition vendor_tree :: "nat \<Rightarrow> ('u, 'r) tools \<Rightarrow> host \<Rightarrow> fs \<Rightarrow> vendor_source \<Rightarrow> ('c vendor_error, fs) res" where
  "vendor_tree n T H F S =
     (if \<not> temp_ok T then Fail VendorIo
      else let tmp = resolve_path H (temp_dir T); work = path_join (temp_dir T) (ven_inside S)
           in case copy_r n (read_dir T) (resolve_path H (ven_path S)) tmp (F(tmp \<mapsto> Dir)) of
                Some (Some F1) \<Rightarrow>
                  bindR (if ven_rust S then vendor_rust T H work F1 else Ok F1) (\<lambda>F2.
                  vendor_go T H work (ven_go S) F2)
              | _ \<Rightarrow> Fail VendorIo)"

definition vendor_fetch :: "nat \<Rightarrow> ('u, 'r) tools \<Rightarrow> host \<Rightarrow> fs \<Rightarrow> (nat \<Rightarrow> ('s, 'w, 'i, 'v) backend) \<Rightarrow> storage \<Rightarrow> vendor_source \<Rightarrow> string
    \<Rightarrow> (nat \<Rightarrow> 's, ('i, 'n, 'c) fetch_error, 'v artifact) action" where
  "vendor_fetch n T H F V st S u =
     bindS (liftS (vendor_id T H F S)) (\<lambda>i.
     bindS (liftS (map_err (\<lambda>e. SrcImpl (IVendor e)) (vendor_tree n T H F S))) (\<lambda>tree.
     bindS (put_layer V st u (Tar NoCompression) None (IVendor VendorIo) (tar H (resolve_path H (temp_dir T)) tree)) (\<lambda>l.
     save_artifact V st (push_layer l (new_artifact Manifest (new_config i))))))"

definition vendor_stage :: "('u, 'r) tools \<Rightarrow> host \<Rightarrow> fs \<Rightarrow> (nat \<Rightarrow> ('s, 'w, 'i, 'v) backend) \<Rightarrow> storage \<Rightarrow> ('e, 'n) environment
    \<Rightarrow> vendor_source \<Rightarrow> (nat \<Rightarrow> 's) \<Rightarrow> string \<Rightarrow> ('e, ('i, 'n, 'c) fetch_error, unit) action" where
  "vendor_stage T H F V st E S h path =
     bindS (liftS (vendor_id T H F S)) (\<lambda>i.
     bindS (liftS (first_layer V st h i)) (\<lambda>(l, x).
     in_env (e_unpack E (path_join path (ven_out S)) x)))"

definition vendor_source_ops :: "nat \<Rightarrow> ('u, 'r) tools \<Rightarrow> host \<Rightarrow> fs \<Rightarrow> (nat \<Rightarrow> ('s, 'w, 'i, 'v) backend) \<Rightarrow> storage \<Rightarrow> ('e, 'n) environment
    \<Rightarrow> vendor_source \<Rightarrow> ('s, 'e, 'i, 'n, 'c, 'v) source" where
  "vendor_source_ops n T H F V st E S =
     \<lparr>src_id = vendor_id T H F S, src_fetch = vendor_fetch n T H F V st S,
      src_stage = vendor_stage T H F V st E S\<rparr>"

section \<open>The built-in sources\<close>

datatype ('u, 'r) core_source = GitSource git_source | RemoteSource "'u remote_source" | LocalSource local_source
  | ImageSource "'r image_source" | VendorSource vendor_source

fun source_ops :: "nat \<Rightarrow> ('u, 'r) tools \<Rightarrow> host \<Rightarrow> fs \<Rightarrow> (nat \<Rightarrow> ('s, 'w, 'i, 'v) backend) \<Rightarrow> storage \<Rightarrow> ('e, 'n) environment
    \<Rightarrow> ('u, 'r) core_source \<Rightarrow> ('s, 'e, 'i, 'n, 'c, 'v) source" where
  "source_ops n T H F V st E (GitSource S) = git_ops T H V st E S"
| "source_ops n T H F V st E (RemoteSource S) = remote_ops T V st E S"
| "source_ops n T H F V st E (LocalSource S) = local_source_ops T H F V st E S"
| "source_ops n T H F V st E (ImageSource S) = image_ops T V st S"
| "source_ops n T H F V st E (VendorSource S) = vendor_source_ops n T H F V st E S"

section \<open>What a source needs of the local cache\<close>

text \<open>Beyond what transfers need: storing bytes returns the layer that names them, and a manifest with a plain
  identifier whose blobs are present can be saved.\<close>

definition layer_for :: "(string \<Rightarrow> string) \<Rightarrow> media_type \<Rightarrow> string option \<Rightarrow> string \<Rightarrow> layer" where
  "layer_for hash m p x =
     \<lparr>layer_media = m, layer_dig = LayerDigest (hash x), layer_size = length x, layer_platform = p\<rparr>"

locale artifact_store = blob_store B hash inv lookup content
  for B :: "('s, 'w, 'i, 'v) backend" and hash :: "string \<Rightarrow> string" and inv :: "'s \<Rightarrow> bool"
    and lookup :: "'s \<Rightarrow> 'v artifact_id \<Rightarrow> 'v artifact option" and content :: "'s \<Rightarrow> string \<Rightarrow> string option" +
  fixes plain :: "'v artifact_id \<Rightarrow> bool"
  assumes store_layer: "inv s \<Longrightarrow> \<exists>s'. store_bytes B u m p x s = (Ok (layer_for hash m p x), s') \<and> inv s'
      \<and> lookup s' = lookup s \<and> content s' = (content s)(hash x \<mapsto> x)"
    and save_new: "inv s \<Longrightarrow> plain (art_id a) \<Longrightarrow> media_plain (art_media a) \<Longrightarrow>
      \<forall>l \<in> set (art_layers a). media_plain (layer_media l) \<Longrightarrow> \<forall>d \<in> set (art_digests a). content s d \<noteq> None \<Longrightarrow>
      \<exists>s'. bk_save B a s = (Ok (), s') \<and> inv s' \<and> lookup s' = (lookup s)(art_id a \<mapsto> a) \<and> content s' = content s"
begin

text \<open>A fetch that has its bytes: the artifact with one layer is in the local cache.\<close>

definition stored :: "storage \<Rightarrow> string \<Rightarrow> 'v artifact \<Rightarrow> (nat \<Rightarrow> 's) \<Rightarrow> (nat \<Rightarrow> 's) \<Rightarrow> bool" where
  "stored st x a h h' \<longleftrightarrow> inv (h' (st_local st)) \<and> (\<forall>k. k \<noteq> st_local st \<longrightarrow> h' k = h k)
     \<and> lookup (h' (st_local st)) = (lookup (h (st_local st)))(art_id a \<mapsto> a)
     \<and> content (h' (st_local st)) = (content (h (st_local st)))(hash x \<mapsto> x)
     \<and> map layer_dig (art_layers a) = [LayerDigest (hash x)]"

lemma put_layer_ok:
  assumes "inv (h (st_local st))"
  shows "\<exists>h'. put_layer (\<lambda>_. B) st u m p e (Some x) h = (Ok (layer_for hash m p x), h') \<and> inv (h' (st_local st))
    \<and> (\<forall>k. k \<noteq> st_local st \<longrightarrow> h' k = h k) \<and> lookup (h' (st_local st)) = lookup (h (st_local st))
    \<and> content (h' (st_local st)) = (content (h (st_local st)))(hash x \<mapsto> x)"
proof -
  from store_layer [OF assms, of u m p x] obtain s' where s': "store_bytes B u m p x (h (st_local st)) = (Ok (layer_for hash m p x), s')"
    "inv s'" "lookup s' = lookup (h (st_local st))" "content s' = (content (h (st_local st)))(hash x \<mapsto> x)" by blast
  have "put_layer (\<lambda>_. B) st u m p e (Some x) h = (Ok (layer_for hash m p x), h(st_local st := s'))"
    using s'(1) by (auto simp: put_layer_def store_bytes_def bindS_def in_storage_def write_to_def safe_start_layer_def
        safe_finish_layer_def on_local_def Let_def split: prod.splits sum.splits)
  then show ?thesis using s'(2-4) by (intro exI [of _ "h(st_local st := s')"]) simp
qed

lemma put_layer_Ok_bytes:
  assumes "put_layer V st u m p e bytes h = (Ok l, h')"
  obtains x where "bytes = Some x"
  using assms by (cases bytes) (auto simp: put_layer_def write_to_def bindS_def split: prod.splits sum.splits)

lemma store_fetched:
  assumes h: "inv (h (st_local st))" and plain: "plain (art_id a0)" "media_plain (art_media a0)" "media_plain m"
    and a0: "art_layers a0 = []"
    and run: "bindS (put_layer (\<lambda>_. B) st u m p e bytes) (\<lambda>l. save_artifact (\<lambda>_. B) st (push_layer l a0)) h
      = (Ok a :: (('i, 'n, 'c) fetch_error, 'v artifact) res, h')"
  shows "\<exists>x. bytes = Some x \<and> a = push_layer (layer_for hash m p x) a0 \<and> stored st x a h h'"
proof -
  from run obtain l h1 where l: "put_layer (\<lambda>_. B) st u m p e bytes h = (Ok l :: (('i, 'n, 'c) fetch_error, layer) res, h1)"
    and sv: "save_artifact (\<lambda>_. B) st (push_layer l a0) h1 = (Ok a :: (('i, 'n, 'c) fetch_error, 'v artifact) res, h')"
    by (rule bindS_OkE)
  from l obtain x where x: "bytes = Some x" by (rule put_layer_Ok_bytes)
  obtain h2 where h2: "put_layer (\<lambda>_. B) st u m p e (Some x) h = (Ok (layer_for hash m p x) :: (('i, 'n, 'c) fetch_error, layer) res, h2)"
    "inv (h2 (st_local st))" "\<forall>k. k \<noteq> st_local st \<longrightarrow> h2 k = h k" "lookup (h2 (st_local st)) = lookup (h (st_local st))"
    "content (h2 (st_local st)) = (content (h (st_local st)))(hash x \<mapsto> x)"
    using put_layer_ok [where h = h and st = st, OF h] by blast
  then have "h2 = h1" "l = layer_for hash m p x" using l x by auto
  then have h1: "l = layer_for hash m p x" "inv (h1 (st_local st))"
    "\<forall>k. k \<noteq> st_local st \<longrightarrow> h1 k = h k" "lookup (h1 (st_local st)) = lookup (h (st_local st))"
    "content (h1 (st_local st)) = (content (h (st_local st)))(hash x \<mapsto> x)" using h2 by simp_all
  let ?a = "push_layer l a0"
  have "\<forall>d \<in> set (art_digests ?a). content (h1 (st_local st)) d \<noteq> None"
    by (simp add: push_layer_def art_digests_def a0 h1(1,5) layer_for_def)
  moreover have "plain (art_id ?a)" "media_plain (art_media ?a)" "\<forall>l \<in> set (art_layers ?a). media_plain (layer_media l)"
    using plain by (simp_all add: push_layer_def a0 h1(1) layer_for_def)
  ultimately obtain s' where s': "bk_save B ?a (h1 (st_local st)) = (Ok (), s')" "inv s'"
    "lookup s' = (lookup (h1 (st_local st)))(art_id ?a \<mapsto> ?a)" "content s' = content (h1 (st_local st))"
    using save_new [OF h1(2)] by blast
  have "a = ?a" "h' = h1(st_local st := s')"
    using sv s'(1) by (simp_all add: save_artifact_def bindS_def in_storage_def safe_save_def on_local_def)
  then show ?thesis using x h1 s' by (simp add: stored_def push_layer_def a0 layer_for_def)
qed

lemma store_bytes_ok:
  assumes h: "inv (h (st_local st))" and plain: "plain (art_id a0)" "media_plain (art_media a0)" "media_plain m"
    and a0: "art_layers a0 = []"
  shows "\<exists>h'. bindS (put_layer (\<lambda>_. B) st u m p e (Some x)) (\<lambda>l. save_artifact (\<lambda>_. B) st (push_layer l a0)) h
      = (Ok (push_layer (layer_for hash m p x) a0) :: (('i, 'n, 'c) fetch_error, 'v artifact) res, h')
    \<and> stored st x (push_layer (layer_for hash m p x) a0) h h'"
proof -
  obtain h1 where h1: "put_layer (\<lambda>_. B) st u m p e (Some x) h = (Ok (layer_for hash m p x) :: (('i, 'n, 'c) fetch_error, layer) res, h1)"
    "inv (h1 (st_local st))" "content (h1 (st_local st)) = (content (h (st_local st)))(hash x \<mapsto> x)"
    using put_layer_ok [where h = h and st = st, OF h] by blast
  let ?a = "push_layer (layer_for hash m p x) a0"
  have "\<forall>d \<in> set (art_digests ?a). content (h1 (st_local st)) d \<noteq> None" "plain (art_id ?a)" "media_plain (art_media ?a)"
    "\<forall>l \<in> set (art_layers ?a). media_plain (layer_media l)"
    using plain by (simp_all add: push_layer_def art_digests_def a0 h1(3) layer_for_def)
  then obtain s' where "bk_save B ?a (h1 (st_local st)) = (Ok (), s')" using save_new [OF h1(2)] by blast
  then have "bindS (put_layer (\<lambda>_. B) st u m p e (Some x)) (\<lambda>l. save_artifact (\<lambda>_. B) st (push_layer l a0)) h
      = (Ok ?a :: (('i, 'n, 'c) fetch_error, 'v artifact) res, h1(st_local st := s'))"
    using h1(1) by (simp add: bindS_def save_artifact_def in_storage_def safe_save_def on_local_def)
  from this store_fetched [where h = h and st = st, OF h plain a0 this] show ?thesis by auto
qed

lemma fetch_source_cases:
  assumes h: "inv (h (st_local st))" "\<forall>(n, b) \<in> set (st_source st). b \<noteq> st_local st \<and> inv (h b)"
    and us: "\<forall>(n, b) \<in> set (st_source st). \<forall>a. lookup (h b) i = Some a \<longrightarrow> length us = length (art_layers a)"
  obtains (here) a where "lookup (h (st_local st)) i = Some a" and "fetch_source (\<lambda>_. B) st us i h = (Ok (Some a), h)"
  | (remote) a h' where "lookup (h (st_local st)) i = None" and "fetch_source (\<lambda>_. B) st us i h = (Ok (Some a), h')"
      and "inv (h' (st_local st))" and "lookup (h' (st_local st)) = (lookup (h (st_local st)))(i \<mapsto> a)"
  | (nowhere) "lookup (h (st_local st)) i = None" and "fetch_source (\<lambda>_. B) st us i h = (Ok None, h)"
proof (cases "lookup (h (st_local st)) i")
  case (Some a)
  then show ?thesis using here by (simp add: fetch_source_def Let_def has_ok [OF h(1)] open_ok [OF h(1)])
next
  case None
  show ?thesis
  proof (cases "filter (\<lambda>(n, b). lookup (h b) i \<noteq> None) (st_source st)")
    case Nil
    have "find_source (\<lambda>_. B) st i h = Ok None"
      using h(2) find_in_ok [of "st_source st" h i] unfolding Nil by (auto simp: find_source_def)
    then show ?thesis using nowhere None by (simp add: fetch_source_def Let_def has_ok [OF h(1)])
  next
    case (Cons e rest)
    obtain n b where e: "e = (n, b)" by (cases e)
    have mem: "(n, b) \<in> set (st_source st)" "lookup (h b) i \<noteq> None"
      using Cons_eq_filterD [OF Cons [symmetric]] e by auto
    then obtain a where a: "lookup (h b) i = Some a" by blast
    with us mem(1) have "length us = length (art_layers a)" by blast
    from fetch_source_ok [where h = h and st = st, OF h None Cons [unfolded e] a this] show ?thesis using remote None by blast
  qed
qed

text \<open>Each of the built-in sources.\<close>

lemma git_stores:
  assumes "inv (h (st_local st))" and "plain (git_id T G)" and "git_fetch T H (\<lambda>_. B) st G u h = (Ok a :: (('i, 'n, 'c) fetch_error, _) res, h')"
  shows "art_id a = git_id T G \<and> (\<exists>x. stored st x a h h')"
proof -
  let ?a0 = "new_artifact Manifest ((new_config (git_id T G))\<lparr>metadata :=
    json_object T [(''repository'', git_url G), (''reference'', git_reference G)]\<rparr>)"
  have a0: "plain (art_id ?a0)" "media_plain (art_media ?a0)" "art_layers ?a0 = []"
    using assms(2) by (simp_all add: new_artifact_def new_config_def)
  from assms(3) obtain tree where
    "bindS (put_layer (\<lambda>_. B) st u (Tar NoCompression) None (IGit GitArchive) (tar H [] tree)) (\<lambda>l. save_artifact (\<lambda>_. B) st (push_layer l ?a0)) h
      = (Ok a :: (('i, 'n, 'c) fetch_error, _) res, h')"
    by (auto simp: git_fetch_def split: if_splits prod.splits option.splits)
  from store_fetched [where h = h and st = st, OF assms(1) a0(1,2) _ a0(3) this] show ?thesis
    by (auto simp: push_layer_def new_artifact_def new_config_def)
qed

lemma remote_stores:
  assumes "inv (h (st_local st))" and "plain (remote_id T R)" and "remote_fetch T (\<lambda>_. B) st R u h = (Ok a :: (('i, 'n, 'c) fetch_error, _) res, h')"
  shows "art_id a = remote_id T R \<and> (\<exists>x. http_get T (rem_url R) = Some (True, x, True) \<and> hash x = rem_digest R \<and> stored st x a h h')"
proof -
  let ?a0 = "new_artifact Manifest ((new_config (remote_id T R))\<lparr>metadata := json_object T [(''source'', url_text T (rem_url R))]\<rparr>)"
  have a0: "plain (art_id ?a0)" "media_plain (art_media ?a0)" "art_layers ?a0 = []"
    using assms(2) by (simp_all add: new_artifact_def new_config_def)
  from assms(3) obtain x where x: "http_get T (rem_url R) = Some (True, x, True)"
    by (auto simp: remote_fetch_def bindS_Ok split: option.splits prod.splits bool.splits)
  obtain h1 where h1: "put_layer (\<lambda>_. B) st u (media_type.File NoCompression) None (IRemote RemoteIo) (Some x) h
      = (Ok (layer_for hash (media_type.File NoCompression) None x) :: (('i, 'n, 'c) fetch_error, layer) res, h1)"
    using put_layer_ok [where h = h and st = st, OF assms(1)] by blast
  from assms(3) x h1 have dig: "hash x = rem_digest R"
    by (auto simp: remote_fetch_def bindS_def layer_for_def remote_id_def new_id_def split: if_splits)
  have "bindS (put_layer (\<lambda>_. B) st u (media_type.File NoCompression) None (IRemote RemoteIo) (Some x)) (\<lambda>l. save_artifact (\<lambda>_. B) st (push_layer l ?a0)) h
      = (Ok a :: (('i, 'n, 'c) fetch_error, _) res, h')"
    using assms(3) x h1 dig by (simp add: remote_fetch_def bindS_def layer_for_def remote_id_def new_id_def)
  from store_fetched [where h = h and st = st, OF assms(1) a0(1,2) _ a0(3) this] x dig show ?thesis
    by (auto simp: push_layer_def new_artifact_def new_config_def)
qed

lemma local_source_stores:
  assumes "inv (h (st_local st))" and i: "local_source_id T H F S = (Ok i :: (('i, 'n, 'c) fetch_error, _) res)" and "plain i"
    and run: "local_source_fetch T H F (\<lambda>_. B) st S u h = (Ok a :: (('i, 'n, 'c) fetch_error, _) res, h')"
  shows "art_id a = i \<and> (\<exists>x. stored st x a h h')"
proof -
  let ?a0 = "new_artifact (media_type.File NoCompression) (new_config i)"
  have a0: "plain (art_id ?a0)" "media_plain (art_media ?a0)" "art_layers ?a0 = []"
    using assms(3) by (simp_all add: new_artifact_def new_config_def)
  obtain m e bytes where m: "media_plain m"
    and "bindS (put_layer (\<lambda>_. B) st u m None e bytes) (\<lambda>l. save_artifact (\<lambda>_. B) st (push_layer l ?a0)) h
      = (Ok a :: (('i, 'n, 'c) fetch_error, _) res, h')"
  proof (cases "is_file (F (resolve_path H (loc_path S)))")
    case True
    then obtain x where "F (resolve_path H (loc_path S)) = Some (fs_node.File x)"
      by (auto simp: is_file_def split: option.splits fs_node.splits)
    then show ?thesis using run that [of "media_type.File NoCompression" "ILocal LSReadFile" "Some x"]
      by (simp add: local_source_fetch_def i)
  next
    case False
    then show ?thesis using run that [of "Tar NoCompression" "ILocal LSArchive" "tar H (resolve_path H (loc_path S)) F"]
      by (auto simp: local_source_fetch_def i is_file_def split: option.splits fs_node.splits)
  qed
  from store_fetched [where h = h and st = st, OF assms(1) a0(1,2) m a0(3) this(2)] show ?thesis
    by (auto simp: push_layer_def new_artifact_def new_config_def)
qed

lemma image_stores:
  assumes "inv (h (st_local st))" and "plain (image_id T I)" and "image_fetch T (\<lambda>_. B) st I u h = (Ok a :: (('i, 'n, 'c) fetch_error, _) res, h')"
  shows "art_id a = image_id T I \<and> (\<exists>x. stored st x a h h')"
proof -
  let ?a0 = "new_artifact Manifest ((new_config (image_id T I))\<lparr>provides := {uri_text T (img_uri I)}\<rparr>)"
  have a0: "plain (art_id ?a0)" "media_plain (art_media ?a0)" "art_layers ?a0 = []"
    using assms(2) by (simp_all add: new_artifact_def new_config_def)
  from assms(3) have
    "bindS (put_layer (\<lambda>_. B) st u (Oci NoCompression) (Some (img_platform I)) (IImage ImageOci)
        (to_oci T (img_uri I) (img_platform I))) (\<lambda>l. save_artifact (\<lambda>_. B) st (push_layer l ?a0)) h
      = (Ok a :: (('i, 'n, 'c) fetch_error, _) res, h')"
    by (auto simp: image_fetch_def split: if_splits option.splits)
  from store_fetched [where h = h and st = st, OF assms(1) a0(1,2) _ a0(3) this] show ?thesis
    by (auto simp: push_layer_def new_artifact_def new_config_def)
qed

lemma vendor_stores:
  assumes "inv (h (st_local st))" and i: "vendor_id T H F S = (Ok i :: (('i, 'n, 'c) fetch_error, _) res)" and "plain i"
    and run: "vendor_fetch n T H F (\<lambda>_. B) st S u h = (Ok a :: (('i, 'n, 'c) fetch_error, _) res, h')"
  shows "art_id a = i \<and> (\<exists>x. stored st x a h h')"
proof -
  let ?a0 = "new_artifact Manifest (new_config i)"
  have a0: "plain (art_id ?a0)" "media_plain (art_media ?a0)" "art_layers ?a0 = []"
    using assms(3) by (simp_all add: new_artifact_def new_config_def)
  obtain tree where "(vendor_tree n T H F S :: ('c vendor_error, fs) res) = Ok tree"
    using run i by (cases "vendor_tree n T H F S :: ('c vendor_error, fs) res" rule: res_cases) (auto simp: vendor_fetch_def)
  then have "bindS (put_layer (\<lambda>_. B) st u (Tar NoCompression) None (IVendor VendorIo) (tar H (resolve_path H (temp_dir T)) tree))
      (\<lambda>l. save_artifact (\<lambda>_. B) st (push_layer l ?a0)) h = (Ok a :: (('i, 'n, 'c) fetch_error, _) res, h')"
    using run i by (simp add: vendor_fetch_def)
  from store_fetched [where h = h and st = st, OF assms(1) a0(1,2) _ a0(3) this] show ?thesis
    by (auto simp: push_layer_def new_artifact_def new_config_def)
qed

lemma core_stores:
  assumes h: "inv (h (st_local st))" and i: "src_id (source_ops n T H F (\<lambda>_. B) st E S :: ('s, 'e, 'i, 'n, 'c, 'v) source) = Ok i"
    and p: "plain i" and run: "src_fetch (source_ops n T H F (\<lambda>_. B) st E S :: ('s, 'e, 'i, 'n, 'c, 'v) source) u h = (Ok a, h')"
  shows "art_id a = i \<and> (\<exists>x. stored st x a h h')"
proof (cases S)
  case (GitSource G)
  then show ?thesis using i p run git_stores [where h = h and st = st, OF h] by (simp add: git_ops_def) blast
next
  case (RemoteSource R)
  then show ?thesis using i p run remote_stores [where h = h and st = st, OF h] by (simp add: remote_ops_def) blast
next
  case (LocalSource L)
  then show ?thesis using i p run local_source_stores [where h = h and st = st, OF h] by (simp add: local_source_ops_def) blast
next
  case (ImageSource I)
  then show ?thesis using i p run image_stores [where h = h and st = st, OF h] by (simp add: image_ops_def) blast
next
  case (VendorSource W)
  then show ?thesis using i p run vendor_stores [where h = h and st = st, OF h] by (simp add: vendor_source_ops_def) blast
qed

end

section \<open>The contract of a source\<close>

text \<open>A fetch that succeeds has stored an artifact with one layer under the identifier of the source; the client
  is \<open>Source::cache\<close>.\<close>

locale source_contract = artifact_store B hash inv lookup content plain
  for B :: "('s, 'w, 'i, 'v) backend" and hash :: "string \<Rightarrow> string" and inv :: "'s \<Rightarrow> bool"
    and lookup :: "'s \<Rightarrow> 'v artifact_id \<Rightarrow> 'v artifact option" and content :: "'s \<Rightarrow> string \<Rightarrow> string option"
    and plain :: "'v artifact_id \<Rightarrow> bool" +
  fixes st :: storage and S :: "('s, 'e, 'i, 'n, 'c, 'v) source"
  assumes fetch_stores: "inv (h (st_local st)) \<Longrightarrow> src_id S = Ok i \<Longrightarrow> plain i \<Longrightarrow> src_fetch S u h = (Ok a, h') \<Longrightarrow>
    art_id a = i \<and> (\<exists>x. stored st x a h h')"
begin

lemma cache_ok:
  assumes h: "inv (h (st_local st))" "\<forall>(n, b) \<in> set (st_source st). b \<noteq> st_local st \<and> inv (h b)"
    and us: "\<forall>(n, b) \<in> set (st_source st). \<forall>a. lookup (h b) i = Some a \<longrightarrow> length us = length (art_layers a)"
    and i: "src_id S = Ok i" "plain i" and run: "source_cache (\<lambda>_. B) st us u S h = (Ok a, h')"
  shows "inv (h' (st_local st)) \<and> lookup (h' (st_local st)) = (lookup (h (st_local st)))(i \<mapsto> a)
    \<and> (lookup (h (st_local st)) i \<noteq> None \<longrightarrow> h' = h)"
  using h us
proof (cases rule: fetch_source_cases)
  case (here b)
  then show ?thesis using run i h(1) by (auto simp: source_cache_def bindS_def in_storage_def)
next
  case (remote b h1)
  then show ?thesis using run i by (simp add: source_cache_def bindS_def in_storage_def)
next
  case nowhere
  then have "src_fetch S u h = (Ok a, h')" using run i by (simp add: source_cache_def bindS_def in_storage_def)
  from fetch_stores [OF h(1) i this] nowhere(1) show ?thesis by (auto simp: stored_def)
qed

lemma cache_reads:
  assumes "inv (h (st_local st))" and "lookup (h (st_local st)) i = Some a" and "art_layers a = l # ls"
  shows "\<exists>x. first_layer (\<lambda>_. B) st h i = Ok (l, x) \<and> hash x = layer_digest_text l"
proof -
  have "layer_digest_text l \<in> set (art_digests a)" using assms(3) by (simp add: art_digests_def)
  from blobs_ok [OF assms(1,2) this] obtain x where x: "content (h (st_local st)) (layer_digest_text l) = Some x"
    "hash x = layer_digest_text l" by blast
  then show ?thesis using assms by (simp add: first_layer_def safe_open_def safe_read_def open_ok read_ok)
qed

end

section \<open>The local backend keeps the contracts\<close>

definition plain_id :: "('v \<Rightarrow> string) \<Rightarrow> 'v artifact_id \<Rightarrow> bool" where
  "plain_id vshow i \<longleftrightarrow> id_plain i \<and> id_prefix vshow i \<noteq> ''*''"

lemma store_layer_local:
  assumes "sound hash vshow vparse s"
  shows "\<exists>s'. store_bytes (local_ops hash vshow vparse) u m p x s = (Ok (layer_for hash m p x), s') \<and> sound hash vshow vparse s'
    \<and> local_lookup vparse s' = local_lookup vparse s \<and> content s' = (content s)(hash x \<mapsto> x)"
proof -
  from store_local_ok [OF assms, of u m p x] obtain l s' where s': "store_bytes (local_ops hash vshow vparse) u m p x s = (Ok l, s')"
    "sound hash vshow vparse s'" "local_lookup vparse s' = local_lookup vparse s" "content s' = (content s)(hash x \<mapsto> x)" by blast
  from soundD(2) [OF assms] obtain b where b: "layer_dir s = Some b" by (rule local_invE)
  obtain w s1 where w: "(start_layer u s :: ('a local_error, writer) res \<times> local_backend) = (Inr w, s1)"
    using b by (auto simp: start_layer_def Let_def)
  obtain w2 d2 where cp: "copy_in x (w, layer_dir s1) = (w2, d2)" by (cases "copy_in x (w, layer_dir s1)")
  have hex: "hex_text (hash x)" using soundD(1) [OF assms] by simp
  have "l = layer_for hash m p x"
    using s'(1) by (simp add: store_bytes_def local_ops_def w impl_step_def impl_err_def cp layer_for_def
        copy_in_written [where hash = hash, OF b hex w cp] del: fun_upd_apply)
  then show ?thesis using s' by blast
qed

lemma save_new_local:
  assumes s: "sound hash vshow vparse s" and a: "plain_id vshow (art_id a)" "media_plain (art_media a)"
    "\<forall>l \<in> set (art_layers a). media_plain (layer_media l)" "\<forall>d \<in> set (art_digests a). content s d \<noteq> None"
  shows "\<exists>s'. bk_save (local_ops hash vshow vparse) a s = (Ok (), s') \<and> sound hash vshow vparse s'
    \<and> local_lookup vparse s' = (local_lookup vparse s)(art_id a \<mapsto> a) \<and> content s' = content s"
proof -
  have blob: "blob_exists s d \<and> hex_text d" if "d \<in> set (art_digests a)" for d
    using that a(4) by (auto simp: content_def blob_exists_def split: option.splits if_splits)
  then have "save_valid vshow s a" using a by (simp add: save_valid_def plain_id_def art_plain_def)
  from backend_store.save_ok [OF soundD(2) [OF s] this] obtain s' where
    s': "local_save vshow vparse a s = (Ok (), s')" "local_inv vshow vparse s'"
      "local_lookup vparse s' = (local_lookup vparse s)(art_id a \<mapsto> a)" by blast
  have c: "content s' = content s"
    using save_layer_dir [of vshow vparse a s] s'(1) by (auto simp: content_def flush_at_def)
  have "sound hash vshow vparse s'" using s s'(2,3) blob by (auto simp: sound_def c)
  then show ?thesis using s' c by (simp add: local_ops_def impl_step_def impl_err_def)
qed

interpretation local_artifacts: artifact_store "local_ops hash vshow vparse" hash "sound hash vshow vparse"
    "local_lookup vparse" content "plain_id vshow"
  by unfold_locales (rule store_layer_local save_new_local; assumption)+

interpretation core_sources: source_contract "local_ops hash vshow vparse" hash "sound hash vshow vparse"
    "local_lookup vparse" content "plain_id vshow" st "source_ops n T H F (\<lambda>_. local_ops hash vshow vparse) st E S"
  for hash vshow vparse st n T H F E S
  by unfold_locales (rule local_artifacts.core_stores; assumption)

lemma same_path_same_id:
  assumes "local_source_id T H F L = Ok i" and "loc_path L = ven_path W"
  shows "vendor_id T H F W = Ok i"
  using assms by (auto simp: local_source_id_def vendor_id_def bindR_eq_Ok ok_or_eq_Ok)

lemma remote_fetch_good:
  assumes "sound hash vshow vparse (h (st_local st))" and "plain_id vshow (remote_id T R)"
    and "http_get T (rem_url R) = Some (True, x, True)" and "hash x = rem_digest R"
  shows "\<exists>a h'. remote_fetch T (\<lambda>_. local_ops hash vshow vparse) st R u h
        = (Ok a :: (('v::linorder local_error, 'n, 'c) fetch_error, 'v artifact) res, h')
    \<and> sound hash vshow vparse (h' (st_local st)) \<and> art_digests a = [hash x] \<and> content (h' (st_local st)) (hash x) = Some x
    \<and> local_lookup vparse (h' (st_local st)) = (local_lookup vparse (h (st_local st)))(remote_id T R \<mapsto> a)"
proof -
  let ?B = "local_ops hash vshow vparse"
  let ?m = "media_type.File NoCompression"
  let ?new = "new_artifact Manifest ((new_config (remote_id T R :: 'v artifact_id))\<lparr>metadata := json_object T [(''source'', url_text T (rem_url R))]\<rparr>)"
  let ?art = "push_layer (layer_for hash ?m None x) ?new"
  obtain h1 where h1: "put_layer (\<lambda>_. ?B) st u ?m None (IRemote RemoteIo) (Some x) h
      = (Ok (layer_for hash ?m None x) :: (('v local_error, 'n, 'c) fetch_error, layer) res, h1)"
    using local_artifacts.put_layer_ok [where h = h and st = st, OF assms(1)] by blast
  have new: "plain_id vshow (art_id ?new)" "media_plain (art_media ?new)" "media_plain ?m" "art_layers ?new = []"
    using assms(2) by (simp_all add: new_artifact_def new_config_def)
  obtain h2 where h2: "bindS (put_layer (\<lambda>_. ?B) st u ?m None (IRemote RemoteIo) (Some x)) (\<lambda>l. save_artifact (\<lambda>_. ?B) st (push_layer l ?new)) h
      = (Ok ?art :: (('v local_error, 'n, 'c) fetch_error, 'v artifact) res, h2)"
    "local_artifacts.stored hash vshow vparse st x ?art h h2"
    using local_artifacts.store_bytes_ok [where h = h and st = st, OF assms(1) new] by blast
  have "remote_fetch T (\<lambda>_. ?B) st R u h = (Ok ?art :: (('v local_error, 'n, 'c) fetch_error, 'v artifact) res, h2)"
    using h2(1) by (simp add: remote_fetch_def assms(3) bindS_def h1(1) layer_for_def remote_id_def new_id_def assms(4))
  then show ?thesis using h2(2)
    by (auto simp: local_artifacts.stored_def push_layer_def new_artifact_def new_config_def art_digests_def layer_for_def)
qed

lemma remote_fetch_bad:
  assumes "sound hash vshow vparse (h (st_local st))"
    and "http_get T (rem_url R) = Some (True, x, True)" and "hash x \<noteq> rem_digest R"
  shows "\<exists>h'. remote_fetch T (\<lambda>_. local_ops hash vshow vparse) st R u h
        = (Fail (SrcImpl (IRemote (RemoteDigest (hash x) (rem_digest R))))
          :: (('v::linorder local_error, 'n, 'c) fetch_error, 'v artifact) res, h')
    \<and> sound hash vshow vparse (h' (st_local st)) \<and> local_lookup vparse (h' (st_local st)) = local_lookup vparse (h (st_local st))"
proof -
  obtain h1 where h1: "put_layer (\<lambda>_. local_ops hash vshow vparse) st u (media_type.File NoCompression) None (IRemote RemoteIo) (Some x) h
      = (Ok (layer_for hash (media_type.File NoCompression) None x) :: (('v local_error, 'n, 'c) fetch_error, layer) res, h1)"
    "sound hash vshow vparse (h1 (st_local st))" "local_lookup vparse (h1 (st_local st)) = local_lookup vparse (h (st_local st))"
    using local_artifacts.put_layer_ok [where h = h and st = st, OF assms(1)] by blast
  then show ?thesis using assms(2,3) by (simp add: remote_fetch_def bindS_def layer_for_def remote_id_def new_id_def)
qed

section \<open>An example\<close>

text \<open>A network whose only file is \<open>x\<close> and a git that fails; the archive of any tree is \<open>x\<close> as well.\<close>

definition test_tools :: "(string, string) tools" where
  "test_tools = \<lparr>temp_ok = True, clone = (\<lambda>url r. (Some False, [[] \<mapsto> Dir])), hex = (\<lambda>r. ''d''), json_object = (\<lambda>es. ''{}''),
     url_parse = Some, url_path = (\<lambda>u. u), url_text = (\<lambda>u. u), http_get = (\<lambda>u. Some (True, ''x'', True)), merkle = (\<lambda>p F. Some ''m''),
     blake3 = (\<lambda>x. ''b''), uri_parse = Some, uri_text = (\<lambda>u. u), platform_from = (\<lambda>p. p), platform_default = ''linux'',
     index_manifests = (\<lambda>u. None), to_oci = (\<lambda>u p. None), temp_dir = ''/t'', read_dir = sorted_listing,
     which_cargo = False, which_go = False, cargo_vendor_out = (\<lambda>d F. ((None, []), F)), go_mod_vendor = (\<lambda>d F. (None, F))\<rparr>"

definition archive_host :: host where
  "archive_host = test_host\<lparr>tar := (\<lambda>d F. Some ''x'')\<rparr>"

definition test_remote :: "string remote_source" where
  "test_remote = \<lparr>rem_url = ''/f'', rem_digest = ''d'', rem_out = ''f'', rem_archive = False\<rparr>"

abbreviation test_cache :: storage where
  "test_cache \<equiv> storage_init 0"

abbreviation fresh_id :: "string \<Rightarrow> nat artifact_id" where
  "fresh_id n \<equiv> Id (Name n) None None None ''d''"

lemma test_cache_local [simp]: "st_local test_cache = 0" "st_source test_cache = []"
  by (simp_all add: storage_init_def)

lemma plain_fresh: "n = ''f'' \<or> n = ''u_r'' \<Longrightarrow> plain_id (\<lambda>_ :: nat. []) (fresh_id n)"
  by (auto simp: plain_id_def id_plain_def id_prefix_def name_ok_def UNSUPPORTED_CHARS_def)

lemma test_remote_id: "(remote_id test_tools test_remote :: nat artifact_id) = fresh_id ''f''"
  by (simp add: remote_id_def new_id_def test_tools_def test_remote_def name_parse_def strip_unsupported_def
      UNSUPPORTED_PREFIX_def UNSUPPORTED_CHARS_def replace_char_def trim_start_def)

lemma test_remote_body: "http_get test_tools (rem_url test_remote) = Some (True, ''x'', True)" "example_hash ''x'' = rem_digest test_remote"
  by (simp_all add: test_tools_def test_remote_def example_hash_def)

lemma test_remote_fetch:
  obtains a h' where "remote_fetch test_tools (\<lambda>_. example_ops) test_cache test_remote u example_heap
      = (Ok a :: ((nat local_error, 'n, 'c) fetch_error, nat artifact) res, h')"
    and "sound example_hash (\<lambda>_ :: nat. []) (\<lambda>_. None) (h' 0)" and "local_lookup (\<lambda>_. None) (h' 0) (fresh_id ''f'') = Some a"
proof -
  have s: "sound example_hash (\<lambda>_ :: nat. []) (\<lambda>_. None) (example_heap (st_local test_cache))" by (simp add: example_sound(1))
  have p: "plain_id (\<lambda>_ :: nat. []) (remote_id test_tools test_remote)" unfolding test_remote_id by (rule plain_fresh) simp
  obtain a h' where "remote_fetch test_tools (\<lambda>_. example_ops) test_cache test_remote u example_heap
      = (Ok a :: ((nat local_error, 'n, 'c) fetch_error, nat artifact) res, h')"
    "sound example_hash (\<lambda>_ :: nat. []) (\<lambda>_. None) (h' (st_local test_cache))"
    "local_lookup (\<lambda>_. None) (h' (st_local test_cache))
      = (local_lookup (\<lambda>_. None) (example_heap (st_local test_cache)))(remote_id test_tools test_remote \<mapsto> a)"
    using remote_fetch_good [where h = example_heap and st = test_cache, OF s p test_remote_body] by blast
  with that show ?thesis by (simp add: test_remote_id)
qed

definition test_git :: git_source where
  "test_git = \<lparr>git_url = ''u'', git_reference = ''r'', git_out = ''g''\<rparr>"

lemma test_git_id: "(git_id test_tools test_git :: nat artifact_id) = fresh_id ''u_r''"
  by (simp add: git_id_def new_id_def test_tools_def test_git_def name_parse_def strip_unsupported_def
      UNSUPPORTED_PREFIX_def UNSUPPORTED_CHARS_def replace_char_def trim_start_def)

definition test_local :: local_source where
  "test_local = \<lparr>loc_path = ''f'', loc_out = ''f'', loc_archive = False\<rparr>"

lemma test_local_id:
  "local_source_id test_tools test_host [[''w'', ''f''] \<mapsto> fs_node.File ''x''] test_local
     = (Ok (fresh_id ''f'') :: ((nat local_error, 'n, 'c) fetch_error, nat artifact_id) res)"
  by (simp add: local_source_id_def test_local_def test_tools_def test_host_def path_absolute_def is_absolute_def path_segments_def
      path_join_def new_id_def path_name_def file_name_def name_parse_def strip_unsupported_def Let_def
      UNSUPPORTED_PREFIX_def UNSUPPORTED_CHARS_def replace_char_def trim_start_def)

lemma test_local_fetch:
  obtains a h' where "local_source_fetch test_tools test_host [[''w'', ''f''] \<mapsto> fs_node.File ''x''] (\<lambda>_. example_ops) test_cache test_local u example_heap
      = (Ok a :: ((nat local_error, 'n, 'c) fetch_error, nat artifact) res, h')"
proof -
  have s: "sound example_hash (\<lambda>_ :: nat. []) (\<lambda>_. None) (example_heap (st_local test_cache))" by (simp add: example_sound(1))
  let ?new = "new_artifact (media_type.File NoCompression) (new_config (fresh_id ''f''))"
  have new: "plain_id (\<lambda>_ :: nat. []) (art_id ?new)" "media_plain (art_media ?new)" "media_plain (media_type.File NoCompression)" "art_layers ?new = []"
    using plain_fresh [of "''f''"] by (simp_all add: new_artifact_def new_config_def)
  have there: "[[''w'', ''f''] \<mapsto> fs_node.File ''x''] (resolve_path test_host (loc_path test_local)) = Some (fs_node.File ''x'')"
    by (simp add: test_local_def test_host_def resolve_path_def resolve_steps_def path_steps_def is_absolute_def path_segments_def)
  obtain a h' where "bindS (put_layer (\<lambda>_. example_ops) test_cache u (media_type.File NoCompression) None (ILocal LSReadFile) (Some ''x''))
      (\<lambda>l. save_artifact (\<lambda>_. example_ops) test_cache (push_layer l ?new)) example_heap
      = (Ok a :: ((nat local_error, 'n, 'c) fetch_error, nat artifact) res, h')"
    using local_artifacts.store_bytes_ok [where h = example_heap and st = test_cache, OF s new] by blast
  then show ?thesis using that by (simp add: local_source_fetch_def test_local_id there del: fun_upd_apply)
qed

text \<open>A remote file, from the network into any environment that keeps files.\<close>

context file_environment
begin

lemma remote_arrives:
  assumes "sound hash vshow vparse (h (st_local st))" and "plain_id vshow (remote_id T R)" and "\<not> rem_archive R"
    and "remote_fetch T (\<lambda>_. local_ops hash vshow vparse) st R u h
      = (Ok a :: (('v::linorder local_error, 'i, 'c) fetch_error, 'v artifact) res, h')"
    and "remote_stage T (\<lambda>_. local_ops hash vshow vparse) st E R h' path env
      = (Ok () :: (('v local_error, 'i, 'c) fetch_error, unit) res, env')"
  shows "\<exists>x. http_get T (rem_url R) = Some (True, x, True) \<and> hash x = rem_digest R
    \<and> e_read E (path_join path (rem_out R)) env' = Ok x"
proof -
  from local_artifacts.remote_stores [where h = h and st = st, OF assms(1,2,4)] obtain x where
    x: "art_id a = remote_id T R" "http_get T (rem_url R) = Some (True, x, True)" "hash x = rem_digest R"
      "local_artifacts.stored hash vshow vparse st x a h h'" by blast
  then have inv: "sound hash vshow vparse (h' (st_local st))" and lk: "local_lookup vparse (h' (st_local st)) (remote_id T R) = Some a"
    and ct: "content (h' (st_local st)) (hash x) = Some x" by (simp_all add: local_artifacts.stored_def)
  obtain l where l: "art_layers a = [l]" "layer_digest_text l = hash x"
    using x(4) by (auto simp: local_artifacts.stored_def)
  have "first_layer (\<lambda>_. local_ops hash vshow vparse) st h' (remote_id T R)
      = (Ok (l, x) :: (('v local_error, 'i, 'c) fetch_error, layer \<times> string) res)"
    using local_store.open_ok [OF inv lk] local_store.read_ok [OF inv, of l x] l ct by (simp add: first_layer_def safe_open_def safe_read_def)
  then have "e_write E (path_join path (rem_out R)) x env = (Ok (), env')"
    using assms(3,5) by (cases "fst (e_write E (path_join path (rem_out R)) x env)" rule: res_cases)
      (auto simp: remote_stage_def in_env_def bindS_def split: prod.splits)
  from write_read [OF this] x show ?thesis by blast
qed

end

section \<open>Properties\<close>

text \<open>C30: \<open>Source::cache\<close> of any built-in source: when it returns an artifact, that artifact is in the local cache under
  the identifier of the source, and everything else that was there still is; a source that was already
  there is returned without touching the caches.\<close>

theorem source_cached:
  assumes "sound hash vshow vparse (h (st_local st))"
    and "\<forall>(k, b) \<in> set (st_source st). b \<noteq> st_local st \<and> sound hash vshow vparse (h b)"
    and "\<forall>(k, b) \<in> set (st_source st). \<forall>a. local_lookup vparse (h b) i = Some a \<longrightarrow> length us = length (art_layers a)"
    and "src_id (source_ops n T H F (\<lambda>_. local_ops hash vshow vparse) st E S
        :: (local_backend, 'e, 'v::linorder local_error, 'n, 'c, 'v) source) = Ok i" and "plain_id vshow i"
    and "source_cache (\<lambda>_. local_ops hash vshow vparse) st us u (source_ops n T H F (\<lambda>_. local_ops hash vshow vparse) st E S
        :: (local_backend, 'e, 'v local_error, 'n, 'c, 'v) source) h = (Ok a, h')"
  shows "sound hash vshow vparse (h' (st_local st))
    \<and> local_lookup vparse (h' (st_local st)) = (local_lookup vparse (h (st_local st)))(i \<mapsto> a)
    \<and> (local_lookup vparse (h (st_local st)) i \<noteq> None \<longrightarrow> h' = h)"
  using assms by (rule core_sources.cache_ok)

theorem source_cached_witness:
  "\<exists>a h'. source_cache (\<lambda>_. example_ops) test_cache [] ''u'' (source_ops 0 test_tools test_host Map.empty (\<lambda>_. example_ops) test_cache
        (local_env_ops test_host) (RemoteSource test_remote) :: (local_backend, local_env, nat local_error, local_env_error, unit, nat) source) example_heap
      = (Ok a, h') \<and> local_lookup (\<lambda>_. None) (h' 0) (fresh_id ''f'') = Some a"
proof -
  let ?src = "source_ops 0 test_tools test_host Map.empty (\<lambda>_. example_ops) test_cache
    (local_env_ops test_host) (RemoteSource test_remote) :: (local_backend, local_env, nat local_error, local_env_error, unit, nat) source"
  have s: "sound example_hash (\<lambda>_ :: nat. []) (\<lambda>_. None) (example_heap (st_local test_cache))" by (simp add: example_sound(1))
  have i: "src_id ?src = Ok (fresh_id ''f'')" by (simp add: remote_ops_def test_remote_id)
  have none: "local_lookup (\<lambda>_. None) (example_heap 0) (fresh_id ''f'') = None"
    by (simp add: example_heap_def local_new_def local_lookup_def load_at_def catalog_default_def catalog_get_def)
  have "fetch_source (\<lambda>_. example_ops) test_cache [] (fresh_id ''f'') example_heap = (Ok None, example_heap)"
    using local_store.has_ok [OF example_sound(1), of "fresh_id ''f''"] none by (simp add: fetch_source_def find_source_def Let_def)
  moreover obtain a h' where "remote_fetch test_tools (\<lambda>_. example_ops) test_cache test_remote ''u'' example_heap
      = (Ok a :: ((nat local_error, local_env_error, unit) fetch_error, nat artifact) res, h')" by (rule test_remote_fetch)
  ultimately have c: "source_cache (\<lambda>_. example_ops) test_cache [] ''u'' ?src example_heap = (Ok a, h')"
    using i by (simp add: source_cache_def bindS_def in_storage_def remote_ops_def)
  have p: "plain_id (\<lambda>_ :: nat. []) (fresh_id ''f'')" by (rule plain_fresh) simp
  from source_cached [OF s _ _ i p c] c show ?thesis by auto
qed

text \<open>C31: a remote file is stored exactly when its hash is the one the definition asks for. Otherwise the fetch fails
  with both hashes and no artifact is added.\<close>

theorem remote_verified:
  assumes "sound hash vshow vparse (h (st_local st))" and "plain_id vshow (remote_id T R)"
    and "http_get T (rem_url R) = Some (True, x, True)"
  shows "\<exists>r h'. (remote_fetch T (\<lambda>_. local_ops hash vshow vparse) st R u h
        :: (('v::linorder local_error, 'n, 'c) fetch_error, 'v artifact) res \<times> (nat \<Rightarrow> local_backend)) = (r, h')
    \<and> sound hash vshow vparse (h' (st_local st))
    \<and> (if hash x = rem_digest R
        then (\<exists>a. r = Ok a \<and> art_digests a = [hash x] \<and> content (h' (st_local st)) (hash x) = Some x
          \<and> local_lookup vparse (h' (st_local st)) = (local_lookup vparse (h (st_local st)))(remote_id T R \<mapsto> a))
        else r = Fail (SrcImpl (IRemote (RemoteDigest (hash x) (rem_digest R))))
          \<and> local_lookup vparse (h' (st_local st)) = local_lookup vparse (h (st_local st)))"
proof (cases "hash x = rem_digest R")
  case True
  from remote_fetch_good [where h = h and st = st, OF assms True] obtain a h' where
    "remote_fetch T (\<lambda>_. local_ops hash vshow vparse) st R u h = (Ok a :: (('v local_error, 'n, 'c) fetch_error, 'v artifact) res, h')
      \<and> sound hash vshow vparse (h' (st_local st)) \<and> art_digests a = [hash x] \<and> content (h' (st_local st)) (hash x) = Some x
      \<and> local_lookup vparse (h' (st_local st)) = (local_lookup vparse (h (st_local st)))(remote_id T R \<mapsto> a)" by blast
  then show ?thesis using True by auto
next
  case False
  from remote_fetch_bad [where h = h and st = st, OF assms(1,3) False] obtain h' where
    "remote_fetch T (\<lambda>_. local_ops hash vshow vparse) st R u h = (Fail (SrcImpl (IRemote (RemoteDigest (hash x) (rem_digest R))))
        :: (('v local_error, 'n, 'c) fetch_error, 'v artifact) res, h')
      \<and> sound hash vshow vparse (h' (st_local st)) \<and> local_lookup vparse (h' (st_local st)) = local_lookup vparse (h (st_local st))" by blast
  then show ?thesis using False by auto
qed

theorem remote_verified_witness:
  "\<exists>a h'. (remote_fetch test_tools (\<lambda>_. example_ops) test_cache test_remote ''u'' example_heap
      :: ((nat local_error, unit, unit) fetch_error, nat artifact) res \<times> (nat \<Rightarrow> local_backend)) = (Ok a, h')
    \<and> content (h' 0) ''d'' = Some ''x''"
proof -
  have s: "sound example_hash (\<lambda>_ :: nat. []) (\<lambda>_. None) (example_heap (st_local test_cache))" by (simp add: example_sound(1))
  have p: "plain_id (\<lambda>_ :: nat. []) (remote_id test_tools test_remote)" unfolding test_remote_id by (rule plain_fresh) simp
  from remote_verified [where h = example_heap and st = test_cache and T = test_tools and R = test_remote and x = "''x''" and u = "''u''",
      OF s p test_remote_body(1)] show ?thesis
    by (simp add: example_hash_def test_remote_def) blast
qed

text \<open>a \<open>git clone\<close> that fails is cached: whatever it left in the temporary directory is stored under the identifier
  of the repository, and every later \<open>cache\<close> of that source returns it without asking git again.\<close>

lemma failed_clone_cached:
  assumes "sound hash vshow vparse (h (st_local st))" and "plain_id vshow (git_id T G)"
    and "temp_ok T" and "clone T (git_url G) (git_reference G) = (Some False, tree)" and "tar H [] tree = Some x"
  shows "\<exists>a h'. (git_fetch T H (\<lambda>_. local_ops hash vshow vparse) st G u h
        :: (('v::linorder local_error, 'n, 'c) fetch_error, 'v artifact) res \<times> (nat \<Rightarrow> local_backend)) = (Ok a, h')
    \<and> content (h' (st_local st)) (hash x) = Some x \<and> art_digests a = [hash x]
    \<and> (\<forall>T' H' E us u'. git_id T' G = (git_id T G :: 'v artifact_id) \<longrightarrow>
        source_cache (\<lambda>_. local_ops hash vshow vparse) st us u' (git_ops T' H' (\<lambda>_. local_ops hash vshow vparse) st E G
          :: (local_backend, 'e, 'v local_error, 'n, 'c, 'v) source) h' = (Ok a, h'))"
proof -
  let ?B = "local_ops hash vshow vparse"
  let ?new = "new_artifact Manifest ((new_config (git_id T G))\<lparr>metadata :=
    json_object T [(''repository'', git_url G), (''reference'', git_reference G)]\<rparr>)"
  let ?art = "push_layer (layer_for hash (Tar NoCompression) None x) ?new"
  have new: "plain_id vshow (art_id ?new)" "media_plain (art_media ?new)" "media_plain (Tar NoCompression)" "art_layers ?new = []"
    using assms(2) by (simp_all add: new_artifact_def new_config_def)
  obtain h2 where h2: "bindS (put_layer (\<lambda>_. ?B) st u (Tar NoCompression) None (IGit GitArchive) (Some x))
        (\<lambda>l. save_artifact (\<lambda>_. ?B) st (push_layer l ?new)) h = (Ok ?art :: (('v local_error, 'n, 'c) fetch_error, 'v artifact) res, h2)"
      "local_artifacts.stored hash vshow vparse st x ?art h h2"
    using local_artifacts.store_bytes_ok [where h = h and st = st, OF assms(1) new] by blast
  have fetch: "git_fetch T H (\<lambda>_. ?B) st G u h = (Ok ?art :: (('v local_error, 'n, 'c) fetch_error, 'v artifact) res, h2)"
    using h2(1) assms(3-5) by (simp add: git_fetch_def)
  have inv: "sound hash vshow vparse (h2 (st_local st))"
    and lk: "local_lookup vparse (h2 (st_local st)) (git_id T G) = Some ?art"
    and ct: "content (h2 (st_local st)) (hash x) = Some x" and dg: "art_digests ?art = [hash x]"
    using h2(2) by (simp_all add: local_artifacts.stored_def push_layer_def new_artifact_def new_config_def art_digests_def layer_for_def)
  have "fetch_source (\<lambda>_. ?B) st us (git_id T G) h2 = (Ok (Some ?art), h2)" for us
    using local_store.has_ok [OF inv, of "git_id T G"] local_store.open_ok [OF inv lk] lk by (simp add: fetch_source_def Let_def)
  then have "source_cache (\<lambda>_. ?B) st us u' (git_ops T' H' (\<lambda>_. ?B) st E G :: (local_backend, 'e, 'v local_error, 'n, 'c, 'v) source) h2 = (Ok ?art, h2)"
    if "git_id T' G = (git_id T G :: 'v artifact_id)" for T' H' E us u'
    using that by (simp add: source_cache_def git_ops_def bindS_def in_storage_def)
  with fetch ct dg show ?thesis by blast
qed

lemma failed_clone_cached_witness:
  "\<exists>a h'. (git_fetch test_tools archive_host (\<lambda>_. example_ops) test_cache test_git ''u'' example_heap
      :: ((nat local_error, unit, unit) fetch_error, nat artifact) res \<times> (nat \<Rightarrow> local_backend)) = (Ok a, h')
    \<and> content (h' 0) ''d'' = Some ''x''"
proof -
  have s: "sound example_hash (\<lambda>_ :: nat. []) (\<lambda>_. None) (example_heap (st_local test_cache))" by (simp add: example_sound(1))
  have p: "plain_id (\<lambda>_ :: nat. []) (git_id test_tools test_git)" unfolding test_git_id by (rule plain_fresh) simp
  have t: "temp_ok test_tools" "clone test_tools (git_url test_git) (git_reference test_git) = (Some False, [[] \<mapsto> Dir])"
    "tar archive_host [] [[] \<mapsto> Dir] = Some ''x''" by (simp_all add: test_tools_def archive_host_def)
  from failed_clone_cached [where h = example_heap and st = test_cache and u = "''u''", OF s p t] show ?thesis
    by (simp add: example_hash_def) blast
qed

text \<open>a vendor source and a local source of the same path have the same identifier, so once the local source was
  fetched the vendor source is served from the cache: neither cargo nor go runs, and nothing is vendored.\<close>

lemma vendor_shadowed:
  assumes "sound hash vshow vparse (h (st_local st))" and "loc_path L = ven_path W"
    and "local_source_id T H F L = (Ok i :: (('v::linorder local_error, 'n, 'c) fetch_error, 'v artifact_id) res)" and "plain_id vshow i"
    and "local_source_fetch T H F (\<lambda>_. local_ops hash vshow vparse) st L u h
      = (Ok a :: (('v local_error, 'n, 'c) fetch_error, 'v artifact) res, h')"
  shows "source_cache (\<lambda>_. local_ops hash vshow vparse) st us u' (vendor_source_ops n T H F (\<lambda>_. local_ops hash vshow vparse) st E W
      :: (local_backend, 'e, 'v local_error, 'n, 'c, 'v) source) h' = (Ok a, h')"
proof -
  from local_artifacts.local_source_stores [where h = h and st = st, OF assms(1,3,4,5)] obtain x where
    a: "art_id a = i" "local_artifacts.stored hash vshow vparse st x a h h'" by blast
  then have inv: "sound hash vshow vparse (h' (st_local st))" and lk: "local_lookup vparse (h' (st_local st)) i = Some a"
    by (simp_all add: local_artifacts.stored_def)
  have "fetch_source (\<lambda>_. local_ops hash vshow vparse) st us i h' = (Ok (Some a), h')"
    using local_store.has_ok [OF inv, of i] local_store.open_ok [OF inv lk] lk by (simp add: fetch_source_def Let_def)
  moreover have "vendor_id T H F W = (Ok i :: (('v local_error, 'n, 'c) fetch_error, 'v artifact_id) res)"
    by (rule same_path_same_id [OF assms(3,2)])
  ultimately show ?thesis by (simp add: source_cache_def vendor_source_ops_def bindS_def in_storage_def)
qed

lemma vendor_shadowed_witness:
  "\<exists>a h'. source_cache (\<lambda>_. example_ops) test_cache [] ''v'' (vendor_source_ops 1 test_tools test_host [[''w'', ''f''] \<mapsto> fs_node.File ''x'']
      (\<lambda>_. example_ops) test_cache (local_env_ops test_host)
      \<lparr>ven_path = ''f'', ven_inside = [], ven_out = [], ven_rust = True, ven_go = []\<rparr>
      :: (local_backend, local_env, nat local_error, local_env_error, unit, nat) source) h' = (Ok a, h')"
proof -
  have s: "sound example_hash (\<lambda>_ :: nat. []) (\<lambda>_. None) (example_heap (st_local test_cache))" by (simp add: example_sound(1))
  have p: "plain_id (\<lambda>_ :: nat. []) (fresh_id ''f'')" by (rule plain_fresh) simp
  obtain a h' where r: "local_source_fetch test_tools test_host [[''w'', ''f''] \<mapsto> fs_node.File ''x''] (\<lambda>_. example_ops) test_cache test_local ''u'' example_heap
      = (Ok a :: ((nat local_error, local_env_error, unit) fetch_error, nat artifact) res, h')" by (rule test_local_fetch)
  have path: "loc_path test_local = ven_path \<lparr>ven_path = ''f'', ven_inside = [], ven_out = [], ven_rust = True, ven_go = []\<rparr>"
    by (simp add: test_local_def)
  from vendor_shadowed [where h = example_heap and st = test_cache, OF s path test_local_id p r] show ?thesis by blast
qed

text \<open>C32: from the network into a local environment: when a remote file was fetched and then staged, the file at its
  place in the environment reads back as the body of the response, and that has the expected hash.\<close>

theorem remote_file_arrives:
  assumes "sound hash vshow vparse (h (st_local st))" and "plain_id vshow (remote_id T R)" and "\<not> rem_archive R"
    and "remote_fetch T (\<lambda>_. local_ops hash vshow vparse) st R u h
      = (Ok a :: (('v::linorder local_error, local_env_error, 'c) fetch_error, 'v artifact) res, h')"
    and "remote_stage T (\<lambda>_. local_ops hash vshow vparse) st (local_env_ops H) R h' path env
      = (Ok () :: (('v local_error, local_env_error, 'c) fetch_error, unit) res, env')"
  shows "\<exists>x. http_get T (rem_url R) = Some (True, x, True) \<and> hash x = rem_digest R
    \<and> le_read H (path_join path (rem_out R)) env' = Ok x"
  using local_files.remote_arrives [where h = h and st = st and H = H, OF assms] by (simp add: local_env_ops_def)

theorem remote_file_arrives_witness:
  "\<exists>n'. le_read test_host ''build-root/f'' n' = Ok ''x''"
proof -
  have s: "sound example_hash (\<lambda>_ :: nat. []) (\<lambda>_. None) (example_heap (st_local test_cache))" by (simp add: example_sound(1))
  have p: "plain_id (\<lambda>_ :: nat. []) (remote_id test_tools test_remote)" unfolding test_remote_id by (rule plain_fresh) simp
  obtain a h' where f: "remote_fetch test_tools (\<lambda>_. example_ops) test_cache test_remote ''u'' example_heap
      = (Ok a :: ((nat local_error, local_env_error, unit) fetch_error, nat artifact) res, h')"
    and inv: "sound example_hash (\<lambda>_ :: nat. []) (\<lambda>_. None) (h' 0)" and lk: "local_lookup (\<lambda>_. None) (h' 0) (fresh_id ''f'') = Some a"
    by (rule test_remote_fetch)
  from local_artifacts.remote_stores [where h = example_heap and st = test_cache, OF s p f] obtain x where
    st: "local_artifacts.stored example_hash (\<lambda>_ :: nat. []) (\<lambda>_. None) test_cache x a example_heap h'" by blast
  then obtain l where l: "art_layers a = [l]" "layer_digest_text l = example_hash x" "content (h' 0) (example_hash x) = Some x"
    by (auto simp: local_artifacts.stored_def)
  have fl: "first_layer (\<lambda>_. example_ops) test_cache h' (fresh_id ''f'')
      = (Ok (l, x) :: ((nat local_error, local_env_error, unit) fetch_error, layer \<times> string) res)"
    using local_store.open_ok [OF inv lk] local_store.read_ok [OF inv, of l x] l by (simp add: first_layer_def safe_open_def safe_read_def)
  have "\<exists>n'. le_write test_host ''build-root/f'' x (test_env ''/r'') = (Ok (), n')"
    by (simp add: le_write_def le_dirs_def make_dirs_def prefixes_of_def resolve_path_def resolve_steps_def path_steps_def
        test_host_def test_env_def local_farm_create_def le_join_def path_join_def is_absolute_def path_segments_def Let_def)
  then obtain n' where "le_write test_host ''build-root/f'' x (test_env ''/r'') = (Ok (), n')" by blast
  then have "remote_stage test_tools (\<lambda>_. example_ops) test_cache (local_env_ops test_host) test_remote h' ''build-root'' (test_env ''/r'')
      = (Ok () :: ((nat local_error, local_env_error, unit) fetch_error, unit) res, n')"
    using fl by (simp add: remote_stage_def test_remote_id bindS_def in_env_def local_env_ops_def)
      (simp add: test_remote_def path_join_def is_absolute_def)
  from remote_file_arrives [where h = example_heap and st = test_cache, OF s p _ f this] show ?thesis
    by (auto simp: test_remote_def test_tools_def path_join_def is_absolute_def)
qed

end
