(* ===== verification/Transforms.thy ===== *)
theory Transforms
  imports Build_Context Sources Scheduler
begin

text \<open>
  What turns sources into artifacts: the trait \<open>Transform\<close> (\<open>crates/edo/src/transform/mod.rs\<close>) and
  the five implementations of \<open>crates/core/src/transform\<close>: \<open>script\<close>, \<open>compose\<close>, \<open>import\<close>,
  \<open>cargo-vendor\<close> and \<open>go-vendor\<close>, with their constructors from definitions and the registration of
  \<open>crates/core/src/lib.rs\<close>.

  The identifier of a transform is computed through its dependencies; that recursion has fuel,
  and theorems say when some is enough. Running a transform acts on the environment and on the
  storage backends. Parameters as in theory \<open>Sources\<close>, and the handlebars renderer.
\<close>

section \<open>The transforms\<close>

record 'c script_transform =
  sc_addr :: addr
  sc_arch :: "string option"
  sc_environment :: addr
  sc_depends :: "addr list"
  sc_commands :: "string list"
  sc_interpreter :: string
  sc_artifact :: "string option"
  sc_sources :: "(string \<times> 'c) list"

record compose_transform =
  co_addr :: addr
  co_arch :: "string option"
  co_depends :: "addr list"

record 'c import_transform =
  im_addr :: addr
  im_sources :: "(string \<times> 'c) list"

record 'c cargo_transform =
  cv_addr :: addr
  cv_environment :: addr
  cv_sources :: "(string \<times> 'c) list"
  cv_tomls :: "(string \<times> string list) list"

record 'c go_transform =
  gv_addr :: addr
  gv_environment :: addr
  gv_source :: 'c
  gv_modules :: "string list"

datatype 'c core_transform = ScriptTransform "'c script_transform" | ComposeTransform compose_transform
  | ImportTransform "'c import_transform" | CargoVendorTransform "'c cargo_transform" | GoVendorTransform "'c go_transform"

text \<open>The errors of the five implementations.\<close>

datatype 'x transform_impl_error = TIContext 'x | TIField string string | TINotFound addr | TINoCargo | TIFailed string

datatype ('i, 'n, 'c, 'x) transform_error = TImplementation "'x transform_impl_error" | TEnvironment "'n env_error"
  | TSource "('i, 'n, 'c) fetch_error" | TStorage "'i storage_error"

section \<open>From definitions\<close>

text \<open>\<open>add\<close> is \<open>ctx.add_source(addr, ..)\<close>.\<close>

fun insert_sources :: "(nat \<Rightarrow> ('x, 'c) res) \<Rightarrow> nat list \<Rightarrow> ('v, 'q, 'f) nheap \<Rightarrow> (string \<times> 'c) list
    \<Rightarrow> ('x transform_impl_error, (string \<times> 'c) list) res" where
  "insert_sources add [] h acc = Ok acc"
| "insert_sources add (n # ns) h acc =
     bindR (map_err TIContext (add n)) (\<lambda>source.
     case get_name (cell h n) of
       None \<Rightarrow> Inl Panic
     | Some name \<Rightarrow> insert_sources add ns h (index_insert name source acc))"

definition parse_sources_with_name :: "string \<Rightarrow> (nat \<Rightarrow> ('x, 'c) res) \<Rightarrow> nat \<Rightarrow> ('v, 'q, 'f) nheap
    \<Rightarrow> ('x transform_impl_error, (string \<times> 'c) list) res" where
  "parse_sources_with_name fld add r h =
     bindR (case node_lookup r fld h of
              None \<Rightarrow> Ok []
            | Some n \<Rightarrow> ok_or (TIField ''source'' ''source definition'') (as_list (cell h n))) (\<lambda>l.
     insert_sources add l h [])"

definition parse_sources :: "(nat \<Rightarrow> ('x, 'c) res) \<Rightarrow> nat \<Rightarrow> ('v, 'q, 'f) nheap
    \<Rightarrow> ('x transform_impl_error, (string \<times> 'c) list) res" where
  "parse_sources = parse_sources_with_name ''source''"

definition parse_depends :: "string \<Rightarrow> nat \<Rightarrow> ('v, 'q, 'f) nheap \<Rightarrow> ('x transform_impl_error, addr list) res" where
  "parse_depends key r h =
     bindR (case node_lookup r key h of
              None \<Rightarrow> Ok []
            | Some n \<Rightarrow> ok_or (TIField key ''list of strings'') (as_list (cell h n))) (\<lambda>l.
     mapR (\<lambda>e. bindR (ok_or (TIField key ''string'') (as_string (cell h e))) addr_parse) l)"

definition environment_field :: "nat \<Rightarrow> ('v, 'q, 'f) nheap \<Rightarrow> ('x transform_impl_error, addr) res" where
  "environment_field r h =
     (case node_lookup r ''environment'' h of
        Some n \<Rightarrow> bindR (ok_or (TIField ''environment'' ''string'') (as_string (cell h n))) addr_parse
      | None \<Rightarrow> addr_parse ''//default'')"

definition optional_string :: "nat \<Rightarrow> string \<Rightarrow> ('v, 'q, 'f) nheap \<Rightarrow> ('x transform_impl_error, string option) res" where
  "optional_string r key h =
     (case node_lookup r key h of
        Some n \<Rightarrow> bindR (ok_or (TIField key ''string'') (as_string (cell h n))) (\<lambda>x. Ok (Some x))
      | None \<Rightarrow> Ok None)"

definition string_list :: "string \<Rightarrow> string \<Rightarrow> nat list \<Rightarrow> ('v, 'q, 'f) nheap \<Rightarrow> ('x transform_impl_error, string list) res" where
  "string_list key ty l h = mapR (\<lambda>e. ok_or (TIField key ty) (as_string (cell h e))) l"

text \<open>The architecture: the argument \<open>arch\<close> of the command line, else the field.\<close>

definition arch_field :: "(string \<times> string) list \<Rightarrow> nat \<Rightarrow> ('v, 'q, 'f) nheap \<Rightarrow> string option" where
  "arch_field args r h = (case map_of args ''arch'' of Some a \<Rightarrow> Some a | None \<Rightarrow> maybe_string r ''arch'' h)"

definition script_from_node :: "(string \<times> string) list \<Rightarrow> (nat \<Rightarrow> (('v, 'q) context_error, 'c) res) \<Rightarrow> addr \<Rightarrow> nat \<Rightarrow> ('v, 'q, 'f) nheap
    \<Rightarrow> (('v, 'q) context_error transform_impl_error, 'c script_transform) res" where
  "script_from_node args add a r h =
     bindR (map_err TIContext (validate_keys [''commands''] (cell h r))) (\<lambda>_.
     bindR (environment_field r h) (\<lambda>env.
     bindR (optional_string r ''interpreter'' h) (\<lambda>interp.
     bindR (unwrap_get r ''commands'' h) (\<lambda>n.
     bindR (ok_or (TIField ''commands'' ''list of strings'') (as_list (cell h n))) (\<lambda>l.
     bindR (string_list ''commands'' ''list of strings'' l h) (\<lambda>commands.
     bindR (optional_string r ''artifact'' h) (\<lambda>art.
     bindR (parse_depends ''depends'' r h) (\<lambda>depends.
     bindR (parse_sources add r h) (\<lambda>sources.
     Ok \<lparr>sc_addr = a, sc_arch = arch_field args r h, sc_environment = env, sc_depends = depends, sc_commands = commands,
         sc_interpreter = (case interp of Some i \<Rightarrow> i | None \<Rightarrow> ''bash''), sc_artifact = art, sc_sources = sources\<rparr>)))))))))"

definition compose_from_node :: "(string \<times> string) list \<Rightarrow> addr \<Rightarrow> nat \<Rightarrow> ('v, 'q, 'f) nheap
    \<Rightarrow> ('x transform_impl_error, compose_transform) res" where
  "compose_from_node args a r h =
     bindR (parse_depends ''depends'' r h) (\<lambda>depends.
     Ok \<lparr>co_addr = a, co_arch = arch_field args r h, co_depends = depends\<rparr>)"

definition import_from_node :: "(nat \<Rightarrow> ('x, 'c) res) \<Rightarrow> addr \<Rightarrow> nat \<Rightarrow> ('v, 'q, 'f) nheap
    \<Rightarrow> ('x transform_impl_error, 'c import_transform) res" where
  "import_from_node add a r h =
     bindR (parse_sources add r h) (\<lambda>sources. Ok \<lparr>im_addr = a, im_sources = sources\<rparr>)"

fun toml_lists :: "(string \<times> nat) list \<Rightarrow> ('v, 'q, 'f) nheap \<Rightarrow> ('x transform_impl_error, (string \<times> string list) list) res" where
  "toml_lists [] h = Ok []"
| "toml_lists ((key, n) # es) h =
     bindR (ok_or (TIField ''cargo_tomls'' ''table(list[string])'') (as_list (cell h n))) (\<lambda>l.
     bindR (string_list ''cargo_tomls'' ''table(list[string])'' l h) (\<lambda>ss.
     bindR (toml_lists es h) (\<lambda>rest. Ok (bt_insert key (sort ss) rest))))"

definition cargo_from_node :: "(nat \<Rightarrow> ('x, 'c) res) \<Rightarrow> addr \<Rightarrow> nat \<Rightarrow> ('v, 'q, 'f) nheap
    \<Rightarrow> ('x transform_impl_error, 'c cargo_transform) res" where
  "cargo_from_node add a r h =
     bindR (environment_field r h) (\<lambda>env.
     bindR (case Option.bind (node_lookup r ''cargo_tomls'' h) (\<lambda>n. as_table (cell h n)) of
              None \<Rightarrow> Ok []
            | Some t \<Rightarrow> toml_lists t h) (\<lambda>tomls.
     bindR (parse_sources add r h) (\<lambda>sources.
     Ok \<lparr>cv_addr = a, cv_environment = env, cv_sources = sources, cv_tomls = tomls\<rparr>)))"

definition go_from_node :: "(nat \<Rightarrow> ('x, 'c) res) \<Rightarrow> addr \<Rightarrow> nat \<Rightarrow> ('v, 'q, 'f) nheap
    \<Rightarrow> ('x transform_impl_error, 'c go_transform) res" where
  "go_from_node add a r h =
     bindR (environment_field r h) (\<lambda>env.
     bindR (ok_or (TIField ''source'' ''node'') (node_lookup r ''source'' h)) (\<lambda>n.
     bindR (map_err TIContext (add n)) (\<lambda>source.
     bindR (case Option.bind (node_lookup r ''modules'' h) (\<lambda>m. as_list (cell h m)) of
              None \<Rightarrow> Ok []
            | Some l \<Rightarrow> string_list ''modules'' ''list[string]'' l h) (\<lambda>modules.
     Ok \<lparr>gv_addr = a, gv_environment = env, gv_source = source, gv_modules = modules\<rparr>))))"

section \<open>Identifiers\<close>

fun core_source_id :: "('u, 'r) tools \<Rightarrow> host \<Rightarrow> fs \<Rightarrow> ('u, 'r) core_source \<Rightarrow> (('i, 'n, 'c) fetch_error, 'v artifact_id) res" where
  "core_source_id T H F (GitSource S) = Ok (git_id T S)"
| "core_source_id T H F (RemoteSource S) = Ok (remote_id T S)"
| "core_source_id T H F (LocalSource S) = local_source_id T H F S"
| "core_source_id T H F (ImageSource S) = Ok (image_id T S)"
| "core_source_id T H F (VendorSource S) = vendor_id T H F S"

lemma core_source_id: "src_id (source_ops n T H F V st E S) = core_source_id T H F S"
  by (cases S) (simp_all add: git_ops_def remote_ops_def local_source_ops_def image_ops_def vendor_source_ops_def)

fun core_depends :: "'c core_transform \<Rightarrow> addr list" where
  "core_depends (ScriptTransform t) = sc_depends t"
| "core_depends (ComposeTransform t) = co_depends t"
| "core_depends (ImportTransform t) = []"
| "core_depends (CargoVendorTransform t) = []"
| "core_depends (GoVendorTransform t) = []"

fun core_environment :: "'c core_transform \<Rightarrow> ('e, addr) res" where
  "core_environment (ScriptTransform t) = Ok (sc_environment t)"
| "core_environment (ComposeTransform t) = addr_parse ''//default''"
| "core_environment (ImportTransform t) = addr_parse ''//default''"
| "core_environment (CargoVendorTransform t) = Ok (cv_environment t)"
| "core_environment (GoVendorTransform t) = Ok (gv_environment t)"

text \<open>What is fed to the hasher, piece after piece, without separators.\<close>

definition source_ids :: "('u, 'r) tools \<Rightarrow> host \<Rightarrow> fs \<Rightarrow> (string \<times> ('u, 'r) core_source) list
    \<Rightarrow> (('i, 'n, 'c, 'x) transform_error, 'v artifact_id list) res" where
  "source_ids T H F ss = mapR (\<lambda>(_, S). map_err TSource (core_source_id T H F S)) ss"

definition digests :: "'v artifact_id list \<Rightarrow> string" where
  "digests is = concat (map id_digest is)"

definition hash_hex :: "('u, 'r) tools \<Rightarrow> string \<Rightarrow> string" where
  "hash_hex T x = hex T (blake3 T x)"

definition id_arch_of :: "(string \<times> string) list \<Rightarrow> string option \<Rightarrow> string option" where
  "id_arch_of args arch = map_option (\<lambda>a. case map_of args ''arch'' of Some b \<Rightarrow> b | None \<Rightarrow> a) arch"

definition script_id :: "('u, 'r) tools \<Rightarrow> host \<Rightarrow> fs \<Rightarrow> (string \<times> string) list \<Rightarrow> ('u, 'r) core_source script_transform \<Rightarrow> 'v artifact_id list
    \<Rightarrow> (('i, 'n, 'c, 'x) transform_error, 'v artifact_id) res" where
  "script_id T H F args t deps =
     bindR (source_ids T H F (sc_sources t)) (\<lambda>srcs :: 'v artifact_id list.
     Ok (new_id (addr_to_id (sc_addr t)) (id_arch_of args (sc_arch t))
          (hash_hex T (digests deps @ digests srcs @ join_with newline (sc_commands t)))))"

definition compose_id :: "('u, 'r) tools \<Rightarrow> (string \<times> string) list \<Rightarrow> compose_transform \<Rightarrow> 'v artifact_id list \<Rightarrow> 'v artifact_id" where
  "compose_id T args t deps = new_id (addr_to_id (co_addr t)) (id_arch_of args (co_arch t)) (hash_hex T (digests deps))"

definition import_id :: "('u, 'r) tools \<Rightarrow> host \<Rightarrow> fs \<Rightarrow> ('u, 'r) core_source import_transform
    \<Rightarrow> (('i, 'n, 'c, 'x) transform_error, 'v artifact_id) res" where
  "import_id T H F t =
     bindR (source_ids T H F (im_sources t)) (\<lambda>srcs :: 'v artifact_id list.
     case strip_prefix ''//'' (addr_to_string (im_addr t)) of
       None \<Rightarrow> Inl Panic
     | Some name \<Rightarrow> Ok (new_id name None (hash_hex T (digests srcs))))"

definition cargo_id :: "('u, 'r) tools \<Rightarrow> host \<Rightarrow> fs \<Rightarrow> ('u, 'r) core_source cargo_transform
    \<Rightarrow> (('i, 'n, 'c, 'x) transform_error, 'v artifact_id) res" where
  "cargo_id T H F t =
     bindR (source_ids T H F (cv_sources t)) (\<lambda>srcs :: 'v artifact_id list.
     Ok (new_id (addr_to_id (cv_addr t)) None
          (hash_hex T (addr_to_string (cv_environment t) @ digests srcs
             @ concat (map (\<lambda>(key, es). concat (map (\<lambda>e. key @ ''-'' @ e) es)) (cv_tomls t))))))"

definition go_id :: "('u, 'r) tools \<Rightarrow> host \<Rightarrow> fs \<Rightarrow> ('u, 'r) core_source go_transform
    \<Rightarrow> (('i, 'n, 'c, 'x) transform_error, 'v artifact_id) res" where
  "go_id T H F t =
     bindR (map_err TSource (core_source_id T H F (gv_source t))) (\<lambda>i :: 'v artifact_id.
     Ok (new_id (addr_to_id (gv_addr t)) None
          (hash_hex T (addr_to_string (gv_environment t) @ id_digest i @ concat (gv_modules t)))))"

text \<open>\<open>get_unique_id\<close>, which asks the dependencies for theirs. \<open>None\<close> is running out of fuel.\<close>

function unique_id :: "nat \<Rightarrow> ('u, 'r) tools \<Rightarrow> host \<Rightarrow> fs \<Rightarrow> ('u, 'r) core_source core_transform handle \<Rightarrow> ('u, 'r) core_source core_transform
    \<Rightarrow> (('i, 'n, 'c, 'x) transform_error, 'v artifact_id) res option"
  and deps_ids :: "nat \<Rightarrow> ('u, 'r) tools \<Rightarrow> host \<Rightarrow> fs \<Rightarrow> ('u, 'r) core_source core_transform handle \<Rightarrow> addr list
    \<Rightarrow> (('i, 'n, 'c, 'x) transform_error, 'v artifact_id list) res option" where
  "unique_id n T H F hdl (ScriptTransform t) =
     (case n of 0 \<Rightarrow> None
      | Suc m \<Rightarrow> map_option (\<lambda>d. bindR d (script_id T H F (hd_args hdl) t)) (deps_ids m T H F hdl (sort (sc_depends t))))"
| "unique_id n T H F hdl (ComposeTransform t) =
     (case n of 0 \<Rightarrow> None
      | Suc m \<Rightarrow> map_option (\<lambda>d. bindR d (\<lambda>x. Ok (compose_id T (hd_args hdl) t x))) (deps_ids m T H F hdl (sort (co_depends t))))"
| "unique_id n T H F hdl (ImportTransform t) = Some (import_id T H F t)"
| "unique_id n T H F hdl (CargoVendorTransform t) = Some (cargo_id T H F t)"
| "unique_id n T H F hdl (GoVendorTransform t) = Some (go_id T H F t)"
| "deps_ids n T H F hdl [] = Some (Ok [])"
| "deps_ids n T H F hdl (a # as) =
     (case handle_get hdl a of
        None \<Rightarrow> Some (Fail (TImplementation (TINotFound a)))
      | Some t \<Rightarrow>
          (case unique_id n T H F hdl t of
             None \<Rightarrow> None
           | Some (Inl e) \<Rightarrow> Some (Inl e)
           | Some (Inr i) \<Rightarrow>
               map_option (\<lambda>r. bindR r (\<lambda>rest. Ok (i # rest))) (deps_ids n T H F hdl as)))"
  by pat_completeness auto
termination
  by (relation "measures [\<lambda>x. case x of Inl (n, _) \<Rightarrow> n | Inr (n, _) \<Rightarrow> n,
      \<lambda>x. case x of Inl _ \<Rightarrow> 0 | Inr (_, _, _, _, _, as) \<Rightarrow> Suc (length as)]") auto

section \<open>What a transform acts on\<close>

record ('u, 'r, 's, 'w, 'i, 'v, 'e, 'n) site =
  si_fuel :: nat
  si_tools :: "('u, 'r) tools"
  si_host :: host
  si_files :: fs
  si_backends :: "nat \<Rightarrow> ('s, 'w, 'i, 'v) backend"
  si_env :: "('e, 'n) environment"
  si_render :: renderer
  si_vshow :: "'v \<Rightarrow> string"
  si_os :: string
  si_arch :: string
  si_platform :: "string \<Rightarrow> string \<Rightarrow> string"
  si_log :: string

type_synonym ('s, 'e, 'i, 'n, 'c, 'x, 'a) build_step = "('e \<times> (nat \<Rightarrow> 's), ('i, 'n, 'c, 'x) transform_error, 'a) action"

definition on_env :: "('e, 'n, 'a) env_action \<Rightarrow> ('s, 'e, 'i, 'n, 'c, 'x, 'a) build_step" where
  "on_env m s = (let (r, n) = m (fst s) in (map_err TEnvironment r, (n, snd s)))"

definition on_caches :: "(('b, 'a) res \<Rightarrow> (('i, 'n, 'c, 'x) transform_error, 'a) res) \<Rightarrow> ((nat \<Rightarrow> 's) \<Rightarrow> ('b, 'a) res \<times> (nat \<Rightarrow> 's))
    \<Rightarrow> ('s, 'e, 'i, 'n, 'c, 'x, 'a) build_step" where
  "on_caches f m s = (let (r, h) = m (snd s) in (f r, (fst s, h)))"

text \<open>\<open>get_unique_id\<close> as the operations call it; running out of fuel is the crash of an endless recursion.\<close>

definition uid :: "('u, 'r, 's, 'w, 'i, 'v, 'e, 'n) site \<Rightarrow> ('u, 'r) core_source core_transform handle \<Rightarrow> ('u, 'r) core_source core_transform
    \<Rightarrow> (('i, 'n, 'c, 'x) transform_error, 'v artifact_id) res" where
  "uid W hdl t =
     (case unique_id (si_fuel W) (si_tools W) (si_host W) (si_files W) hdl t of Some r \<Rightarrow> r | None \<Rightarrow> Inl Panic)"

definition source_at :: "('u, 'r, 's, 'w, 'i, 'v, 'e, 'n) site \<Rightarrow> storage \<Rightarrow> ('u, 'r) core_source \<Rightarrow> ('s, 'e, 'i, 'n, 'c, 'v) source" where
  "source_at W st S =
     source_ops (si_fuel W) (si_tools W) (si_host W) (si_files W) (si_backends W) st (si_env W) S"

section \<open>Preparing and staging\<close>

text \<open>\<open>names\<close> are the fresh names for the layers of each source. An import fetches where the others ask the caches.\<close>

definition prepare_source :: "('u, 'r, 's, 'w, 'i, 'v, 'e, 'n) site \<Rightarrow> storage \<Rightarrow> (string list \<times> string) \<times> ('u, 'r) core_source
    \<Rightarrow> ('s, 'e, 'i, 'n, 'c, 'x, unit) build_step" where
  "prepare_source W st p =
     bindS (on_caches (map_err TSource) (source_cache (si_backends W) st (fst (fst p)) (snd (fst p)) (source_at W st (snd p)))) (\<lambda>_. returnS ())"

definition fetch_again :: "('u, 'r, 's, 'w, 'i, 'v, 'e, 'n) site \<Rightarrow> storage \<Rightarrow> (string list \<times> string) \<times> ('u, 'r) core_source
    \<Rightarrow> ('s, 'e, 'i, 'n, 'c, 'x, unit) build_step" where
  "fetch_again W st p =
     bindS (on_caches (map_err TSource) (src_fetch (source_at W st (snd p)) (snd (fst p)))) (\<lambda>_. returnS ())"

definition script_prepare :: "('u, 'r, 's, 'w, 'i, 'v, 'e, 'n) site \<Rightarrow> ('u, 'r) core_source core_transform handle \<Rightarrow> (string list \<times> string) list \<Rightarrow> ('u, 'r) core_source script_transform
    \<Rightarrow> ('s, 'e, 'i, 'n, 'c, 'x, unit) build_step" where
  "script_prepare W hdl names t =
     foreachS (prepare_source W (hd_storage hdl)) (zip names (map snd (sc_sources t)))"

definition compose_prepare :: "('u, 'r, 's, 'w, 'i, 'v, 'e, 'n) site \<Rightarrow> ('u, 'r) core_source core_transform handle \<Rightarrow> (string list \<times> string) list \<Rightarrow> compose_transform
    \<Rightarrow> ('s, 'e, 'i, 'n, 'c, 'x, unit) build_step" where
  "compose_prepare W hdl names t =
     returnS ()"

definition import_prepare :: "('u, 'r, 's, 'w, 'i, 'v, 'e, 'n) site \<Rightarrow> ('u, 'r) core_source core_transform handle \<Rightarrow> (string list \<times> string) list \<Rightarrow> ('u, 'r) core_source import_transform
    \<Rightarrow> ('s, 'e, 'i, 'n, 'c, 'x, unit) build_step" where
  "import_prepare W hdl names t =
     foreachS (fetch_again W (hd_storage hdl)) (zip names (map snd (im_sources t)))"

definition cargo_prepare :: "('u, 'r, 's, 'w, 'i, 'v, 'e, 'n) site \<Rightarrow> ('u, 'r) core_source core_transform handle \<Rightarrow> (string list \<times> string) list \<Rightarrow> ('u, 'r) core_source cargo_transform
    \<Rightarrow> ('s, 'e, 'i, 'n, 'c, 'x, unit) build_step" where
  "cargo_prepare W hdl names t =
     foreachS (prepare_source W (hd_storage hdl)) (zip names (map snd (cv_sources t)))"

definition go_prepare :: "('u, 'r, 's, 'w, 'i, 'v, 'e, 'n) site \<Rightarrow> ('u, 'r) core_source core_transform handle \<Rightarrow> (string list \<times> string) list \<Rightarrow> ('u, 'r) core_source go_transform
    \<Rightarrow> ('s, 'e, 'i, 'n, 'c, 'x, unit) build_step" where
  "go_prepare W hdl names t =
     foreachS (prepare_source W (hd_storage hdl)) (zip names [gv_source t])"

fun core_prepare :: "('u, 'r, 's, 'w, 'i, 'v, 'e, 'n) site \<Rightarrow> ('u, 'r) core_source core_transform handle \<Rightarrow> (string list \<times> string) list
    \<Rightarrow> ('u, 'r) core_source core_transform \<Rightarrow> ('s, 'e, 'i, 'n, 'c, 'x, unit) build_step" where
  "core_prepare W hdl names (ScriptTransform t) = script_prepare W hdl names t"
| "core_prepare W hdl names (ComposeTransform t) = compose_prepare W hdl names t"
| "core_prepare W hdl names (ImportTransform t) = import_prepare W hdl names t"
| "core_prepare W hdl names (CargoVendorTransform t) = cargo_prepare W hdl names t"
| "core_prepare W hdl names (GoVendorTransform t) = go_prepare W hdl names t"

definition stage_layer :: "('u, 'r, 's, 'w, 'i, 'v, 'e, 'n) site \<Rightarrow> storage \<Rightarrow> string \<Rightarrow> layer \<Rightarrow> ('s, 'e, 'i, 'n, 'c, 'x, unit) build_step" where
  "stage_layer W st dir l =
     bindS (on_caches (map_err TStorage) (\<lambda>h. (safe_read (si_backends W) st l h, h))) (\<lambda>x.
     if is_tar (layer_media l) then on_env (e_unpack (si_env W) dir x) else returnS ())"

definition stage_dep :: "('u, 'r, 's, 'w, 'i, 'v, 'e, 'n) site \<Rightarrow> ('u, 'r) core_source core_transform handle \<Rightarrow> string \<Rightarrow> addr
    \<Rightarrow> ('s, 'e, 'i, 'n, 'c, 'x, unit) build_step" where
  "stage_dep W hdl dir a =
     (case handle_get hdl a of
        None \<Rightarrow> liftS (Fail (TImplementation (TINotFound a)))
      | Some t \<Rightarrow>
          bindS (liftS (uid W hdl t)) (\<lambda>i.
          bindS (on_caches (map_err TStorage) (\<lambda>h. (safe_open (si_backends W) (hd_storage hdl) i h, h))) (\<lambda>art.
          foreachS (stage_layer W (hd_storage hdl) dir) (art_layers art))))"

definition stage_source :: "('u, 'r, 's, 'w, 'i, 'v, 'e, 'n) site \<Rightarrow> storage \<Rightarrow> string \<Rightarrow> ('u, 'r) core_source
    \<Rightarrow> ('s, 'e, 'i, 'n, 'c, 'x, unit) build_step" where
  "stage_source W st dir S s =
     (let (r, n) = src_stage (source_at W st S) (snd s) dir (fst s) in (map_err TSource r, (n, snd s)))"

definition stage_in_own_dir :: "('u, 'r, 's, 'w, 'i, 'v, 'e, 'n) site \<Rightarrow> storage \<Rightarrow> ('u, 'r) core_source
    \<Rightarrow> ('s, 'e, 'i, 'n, 'c, 'x, unit) build_step" where
  "stage_in_own_dir W st S =
     bindS (liftS (map_err TSource (src_id (source_at W st S)))) (\<lambda>i.
     bindS (on_env (e_create_dir (si_env W) (id_to_string (si_vshow W) i))) (\<lambda>_.
     stage_source W st (id_to_string (si_vshow W) i) S))"

definition script_stage :: "('u, 'r, 's, 'w, 'i, 'v, 'e, 'n) site \<Rightarrow> ('u, 'r) core_source core_transform handle \<Rightarrow> ('u, 'r) core_source script_transform
    \<Rightarrow> ('s, 'e, 'i, 'n, 'c, 'x, unit) build_step" where
  "script_stage W hdl t =
     bindS (on_env (e_create_dir (si_env W) ''build-root'')) (\<lambda>_.
     bindS (on_env (e_create_dir (si_env W) ''install-root'')) (\<lambda>_.
     bindS (foreachS (stage_dep W hdl ''build-root'') (sc_depends t)) (\<lambda>_.
     foreachS (stage_source W (hd_storage hdl) ''build-root'') (map snd (sc_sources t)))))"

definition compose_stage :: "('u, 'r, 's, 'w, 'i, 'v, 'e, 'n) site \<Rightarrow> ('u, 'r) core_source core_transform handle \<Rightarrow> compose_transform
    \<Rightarrow> ('s, 'e, 'i, 'n, 'c, 'x, unit) build_step" where
  "compose_stage W hdl t =
     bindS (on_env (e_create_dir (si_env W) ''install-root'')) (\<lambda>_.
     foreachS (stage_dep W hdl ''install-root'') (co_depends t))"

definition import_stage :: "('u, 'r, 's, 'w, 'i, 'v, 'e, 'n) site \<Rightarrow> ('u, 'r) core_source core_transform handle \<Rightarrow> ('u, 'r) core_source import_transform
    \<Rightarrow> ('s, 'e, 'i, 'n, 'c, 'x, unit) build_step" where
  "import_stage W hdl t =
     bindS (on_env (e_create_dir (si_env W) ''output'')) (\<lambda>_.
     foreachS (stage_source W (hd_storage hdl) ''output'') (map snd (im_sources t)))"

definition cargo_stage :: "('u, 'r, 's, 'w, 'i, 'v, 'e, 'n) site \<Rightarrow> ('u, 'r) core_source core_transform handle \<Rightarrow> ('u, 'r) core_source cargo_transform
    \<Rightarrow> ('s, 'e, 'i, 'n, 'c, 'x, unit) build_step" where
  "cargo_stage W hdl t =
     foreachS (stage_in_own_dir W (hd_storage hdl)) (map snd (cv_sources t))"

definition go_stage :: "('u, 'r, 's, 'w, 'i, 'v, 'e, 'n) site \<Rightarrow> ('u, 'r) core_source core_transform handle \<Rightarrow> ('u, 'r) core_source go_transform
    \<Rightarrow> ('s, 'e, 'i, 'n, 'c, 'x, unit) build_step" where
  "go_stage W hdl t =
     bindS (on_env (e_create_dir (si_env W) ''build-root'')) (\<lambda>_.
     stage_source W (hd_storage hdl) ''build-root'' (gv_source t))"

fun core_stage :: "('u, 'r, 's, 'w, 'i, 'v, 'e, 'n) site \<Rightarrow> ('u, 'r) core_source core_transform handle \<Rightarrow> ('u, 'r) core_source core_transform
    \<Rightarrow> ('s, 'e, 'i, 'n, 'c, 'x, unit) build_step" where
  "core_stage W hdl (ScriptTransform t) = script_stage W hdl t"
| "core_stage W hdl (ComposeTransform t) = compose_stage W hdl t"
| "core_stage W hdl (ImportTransform t) = import_stage W hdl t"
| "core_stage W hdl (CargoVendorTransform t) = cargo_stage W hdl t"
| "core_stage W hdl (GoVendorTransform t) = go_stage W hdl t"

section \<open>Running\<close>

text \<open>The end of every transform: the result read from the environment becomes the single layer of a new artifact.
  An error of the copy is one of the environment.\<close>

definition archive_out :: "('u, 'r, 's, 'w, 'i, 'v, 'e, 'n) site \<Rightarrow> storage \<Rightarrow> string \<Rightarrow> string option \<Rightarrow> 'v artifact_id \<Rightarrow> string
    \<Rightarrow> ('s, 'e, 'i, 'n, 'c, 'x, 'v artifact) build_step" where
  "archive_out W st u platform i path =
     bindS (on_caches (map_err TStorage) (safe_start_layer (si_backends W) st u)) (\<lambda>w.
     bindS (on_env (\<lambda>n. (e_read (si_env W) path n, n))) (\<lambda>x.
     bindS (on_caches (map_err (\<lambda>_. TEnvironment EnvIo)) (on_local (\<lambda>B. bk_write B x w) (si_backends W) st)) (\<lambda>w2.
     bindS (on_caches (map_err TStorage) (safe_finish_layer (si_backends W) st (Tar NoCompression) platform w2)) (\<lambda>l.
     bindS (on_caches (map_err TStorage) (safe_save (si_backends W) st (push_layer l (new_artifact Manifest (new_config i))))) (\<lambda>_.
     returnS (push_layer l (new_artifact Manifest (new_config i))))))))"

definition script_build :: "('u, 'r, 's, 'w, 'i, 'v, 'e, 'n) site \<Rightarrow> 'y script_transform \<Rightarrow> (string \<times> string) list \<Rightarrow> 'e
    \<Rightarrow> (script, 'n env_error, unit) action" where
  "script_build W t args n =
     bindS (create_named_dir (si_render W) (si_env W) n ''build-root'' ''build-root'') (\<lambda>_.
     bindS (create_named_dir (si_render W) (si_env W) n ''install-root'' ''install-root'') (\<lambda>_.
     bindS (cmd_set (si_render W) ''arch'' (case sc_arch t of Some a \<Rightarrow> a | None \<Rightarrow> si_arch W)) (\<lambda>_.
     bindS (foreachS (\<lambda>(k, v). if k = ''arch'' then returnS () else cmd_set (si_render W) k v) args) (\<lambda>_.
     foreachS (cmd_run (si_render W)) (sc_commands t)))))"

definition script_exec :: "('u, 'r, 's, 'w, 'i, 'v, 'e, 'n) site \<Rightarrow> ('u, 'r) core_source core_transform handle \<Rightarrow> ('u, 'r) core_source script_transform
    \<Rightarrow> ('s, 'e, 'i, 'n, 'c, 'x, 'v artifact_id) build_step" where
  "script_exec W hdl t =
     bindS (liftS (uid W hdl (ScriptTransform t))) (\<lambda>i.
     bindS (on_env (\<lambda>n. case script_build W t (hd_args hdl) n (set_interpreter (sc_interpreter t) cmd_new) of
                            (Inl e, _) \<Rightarrow> (Inl e, n)
                          | (Inr _, c) \<Rightarrow> cmd_send (si_render W) (si_env W) ''{{build-root}}'' c n)) (\<lambda>_.
     returnS i))"

definition script_output :: "'y script_transform \<Rightarrow> string" where
  "script_output t = (case sc_artifact t of Some p \<Rightarrow> path_join ''install-root'' p | None \<Rightarrow> ''install-root'')"

definition script_run :: "('u, 'r, 's, 'w, 'i, 'v, 'e, 'n) site \<Rightarrow> ('u, 'r) core_source core_transform handle \<Rightarrow> string \<Rightarrow> ('u, 'r) core_source script_transform
    \<Rightarrow> ('s, 'e, 'i, 'n, 'c, 'x, 'v artifact) build_step" where
  "script_run W hdl u t =
     bindS (script_exec W hdl t) (\<lambda>i.
     archive_out W (hd_storage hdl) u
       (Some (si_platform W (si_os W) (case sc_arch t of Some a \<Rightarrow> a | None \<Rightarrow> si_os W))) i (script_output t))"

text \<open>\<open>cargo vendor\<close>: the manifests to pass, first the listed ones of a source, then its own.\<close>

definition cargo_manifests :: "('u, 'r, 's, 'w, 'i, 'v, 'e, 'n) site \<Rightarrow> storage \<Rightarrow> (string \<times> string list) list \<Rightarrow> string \<times> ('u, 'r) core_source
    \<Rightarrow> ('s, 'e, 'i, 'n, 'c, 'x, string list) build_step" where
  "cargo_manifests W st tomls e =
     bindS (liftS (map_err TSource (src_id (source_at W st (snd e))))) (\<lambda>i.
     let dir = vfs_entry vfs_new (id_to_string (si_vshow W) i);
         listed = (case map_of tomls (fst e) of Some l \<Rightarrow> map (vfs_entry dir) l | None \<Rightarrow> [])
     in bindS (on_env (try_exists (si_env W) dir ''Cargo.toml'')) (\<lambda>found.
        returnS (if found then listed @ [vfs_entry dir ''Cargo.toml''] else listed)))"

definition cargo_args :: "string \<Rightarrow> string list \<Rightarrow> string \<Rightarrow> string list" where
  "cargo_args first rest vendor_dir =
     [''vendor'', ''--locked'', ''--manifest-path'', first] @ concat (map (\<lambda>t. [''--sync'', t]) rest) @ [vendor_dir]"

definition cargo_config :: string where
  "cargo_config = ''[source.crates-io]'' @ newline @ ''replace-with = \"vendored-sources\"'' @ newline @ newline
     @ ''[source.vendored-sources]'' @ newline @ ''directory = \".cargo/vendor\"'' @ newline"

definition cargo_exec :: "('u, 'r, 's, 'w, 'i, 'v, 'e, 'n) site \<Rightarrow> ('u, 'r) core_source core_transform handle \<Rightarrow> ('u, 'r) core_source cargo_transform
    \<Rightarrow> ('s, 'e, 'i, 'n, 'c, 'x, 'v artifact_id \<times> string) build_step" where
  "cargo_exec W hdl t =
     bindS (liftS (uid W hdl (CargoVendorTransform t))) (\<lambda>i.
     bindS (on_env (vfs_create_dir (si_env W) vfs_new ''install-root'')) (\<lambda>root.
     bindS (on_env (vfs_create_dir (si_env W) root ''.cargo'')) (\<lambda>cargo.
     bindS (on_env (vfs_create_dir (si_env W) cargo ''vendor'')) (\<lambda>vendor.
     bindS (mapS (cargo_manifests W (hd_storage hdl) (cv_tomls t)) (cv_sources t)) (\<lambda>ms.
     case concat ms of
       [] \<Rightarrow> liftS (Fail (TImplementation TINoCargo))
     | first # rest \<Rightarrow>
         bindS (on_env (vfs_command (si_env W) vfs_new ''cargo-vendor'' ''cargo'' (cargo_args first rest vendor))) (\<lambda>_.
         bindS (on_env (e_write (si_env W) (vfs_entry cargo ''config.toml'') cargo_config)) (\<lambda>_.
         returnS (i, root))))))))"

definition cargo_run :: "('u, 'r, 's, 'w, 'i, 'v, 'e, 'n) site \<Rightarrow> ('u, 'r) core_source core_transform handle \<Rightarrow> string \<Rightarrow> ('u, 'r) core_source cargo_transform
    \<Rightarrow> ('s, 'e, 'i, 'n, 'c, 'x, 'v artifact) build_step" where
  "cargo_run W hdl u t = bindS (cargo_exec W hdl t) (\<lambda>(i, root). archive_out W (hd_storage hdl) u None i root)"

text \<open>\<open>go mod vendor\<close> in each module directory, the result copied below the install root.\<close>

definition go_module :: "('u, 'r, 's, 'w, 'i, 'v, 'e, 'n) site \<Rightarrow> vfs \<times> vfs \<Rightarrow> ('s, 'e, 'i, 'n, 'c, 'x, unit) build_step" where
  "go_module W p =
     bindS (on_env (try_exists (si_env W) (fst p) ''go.mod'')) (\<lambda>found.
     if found
     then bindS (on_env (vfs_command (si_env W) (fst p) ''go-vendor'' ''go'' [''mod'', ''vendor''])) (\<lambda>_.
          on_env (vfs_copy (si_env W) vfs_new (vfs_entry (fst p) ''vendor'') (vfs_entry (snd p) ''vendor'')))
     else returnS ())"

definition go_exec :: "('u, 'r, 's, 'w, 'i, 'v, 'e, 'n) site \<Rightarrow> ('u, 'r) core_source core_transform handle \<Rightarrow> ('u, 'r) core_source go_transform
    \<Rightarrow> ('s, 'e, 'i, 'n, 'c, 'x, 'v artifact_id \<times> string) build_step" where
  "go_exec W hdl t =
     bindS (liftS (uid W hdl (GoVendorTransform t))) (\<lambda>i.
     let build = vfs_entry vfs_new ''build-root''
     in bindS (on_env (vfs_create_dir (si_env W) vfs_new ''install-root'')) (\<lambda>root.
        bindS (if gv_modules t = [] then returnS [(build, root)]
               else mapS (\<lambda>m. bindS (on_env (vfs_create_dir (si_env W) root m)) (\<lambda>d. returnS (vfs_entry build m, d))) (gv_modules t)) (\<lambda>paths.
        bindS (foreachS (go_module W) paths) (\<lambda>_. returnS (i, root)))))"

definition go_run :: "('u, 'r, 's, 'w, 'i, 'v, 'e, 'n) site \<Rightarrow> ('u, 'r) core_source core_transform handle \<Rightarrow> string \<Rightarrow> ('u, 'r) core_source go_transform
    \<Rightarrow> ('s, 'e, 'i, 'n, 'c, 'x, 'v artifact) build_step" where
  "go_run W hdl u t = bindS (go_exec W hdl t) (\<lambda>(i, root). archive_out W (hd_storage hdl) u None i root)"

definition compose_run :: "('u, 'r, 's, 'w, 'i, 'v, 'e, 'n) site \<Rightarrow> ('u, 'r) core_source core_transform handle \<Rightarrow> string \<Rightarrow> compose_transform
    \<Rightarrow> ('s, 'e, 'i, 'n, 'c, 'x, 'v artifact) build_step" where
  "compose_run W hdl u t =
     bindS (liftS (uid W hdl (ComposeTransform t))) (\<lambda>i. archive_out W (hd_storage hdl) u None i ''install-root'')"

definition import_run :: "('u, 'r, 's, 'w, 'i, 'v, 'e, 'n) site \<Rightarrow> ('u, 'r) core_source core_transform handle \<Rightarrow> string \<Rightarrow> ('u, 'r) core_source import_transform
    \<Rightarrow> ('s, 'e, 'i, 'n, 'c, 'x, 'v artifact) build_step" where
  "import_run W hdl u t =
     bindS (liftS (uid W hdl (ImportTransform t))) (\<lambda>i. archive_out W (hd_storage hdl) u None i ''output'')"

fun core_run :: "('u, 'r, 's, 'w, 'i, 'v, 'e, 'n) site \<Rightarrow> ('u, 'r) core_source core_transform handle \<Rightarrow> string \<Rightarrow> ('u, 'r) core_source core_transform
    \<Rightarrow> ('s, 'e, 'i, 'n, 'c, 'x, 'v artifact) build_step" where
  "core_run W hdl u (ScriptTransform t) = script_run W hdl u t"
| "core_run W hdl u (ComposeTransform t) = compose_run W hdl u t"
| "core_run W hdl u (ImportTransform t) = import_run W hdl u t"
| "core_run W hdl u (CargoVendorTransform t) = cargo_run W hdl u t"
| "core_run W hdl u (GoVendorTransform t) = go_run W hdl u t"

text \<open>The status that \<open>transform\<close> returns; \<open>text\<close> renders an error.\<close>

fun failure_status :: "('u, 'r, 's, 'w, 'i, 'v, 'e, 'n) site \<Rightarrow> (('i, 'n, 'c, 'x) transform_error \<Rightarrow> string) \<Rightarrow> ('u, 'r) core_source core_transform
    \<Rightarrow> ('i, 'n, 'c, 'x) transform_error \<Rightarrow> 'v artifact attempt" where
  "failure_status W text (ScriptTransform t) e = TRetryable (Some (si_log W)) (text (TImplementation (TIFailed (text e))))"
| "failure_status W text (ComposeTransform t) e = TRetryable None (text e)"
| "failure_status W text (ImportTransform t) e = TRetryable None (text e)"
| "failure_status W text (CargoVendorTransform t) e = TRetryable (Some (si_log W)) (text e)"
| "failure_status W text (GoVendorTransform t) e = TRetryable (Some (si_log W)) (text e)"

definition core_attempt :: "('u, 'r, 's, 'w, 'i, 'v, 'e, 'n) site \<Rightarrow> (('i, 'n, 'c, 'x) transform_error \<Rightarrow> string) \<Rightarrow> ('u, 'r) core_source core_transform handle
    \<Rightarrow> string \<Rightarrow> ('u, 'r) core_source core_transform \<Rightarrow> 'e \<times> (nat \<Rightarrow> 's) \<Rightarrow> (unit, 'v artifact attempt) res \<times> ('e \<times> (nat \<Rightarrow> 's))" where
  "core_attempt W text hdl u t s =
     (case core_run W hdl u t s of
        (Inl Panic, s1) \<Rightarrow> (Inl Panic, s1)
      | (Inl (Err e), s1) \<Rightarrow> (Ok (failure_status W text t e), s1)
      | (Inr a, s1) \<Rightarrow> (Ok (TSuccess a), s1))"

fun can_shell :: "'c core_transform \<Rightarrow> bool" where
  "can_shell (ScriptTransform t) = True"
| "can_shell (ComposeTransform t) = False"
| "can_shell (ImportTransform t) = False"
| "can_shell (CargoVendorTransform t) = True"
| "can_shell (GoVendorTransform t) = True"

text \<open>What the prompt starts; \<open>sh\<close> is the shell of the environment.\<close>

fun core_shell :: "(string \<Rightarrow> ('e, 'n, unit) env_action) \<Rightarrow> 'c core_transform \<Rightarrow> ('e, 'n, unit) env_action" where
  "core_shell sh (ScriptTransform t) = sh ''build-root''"
| "core_shell sh (ComposeTransform t) = returnS ()"
| "core_shell sh (ImportTransform t) = returnS ()"
| "core_shell sh (CargoVendorTransform t) = sh ''.''"
| "core_shell sh (GoVendorTransform t) = sh ''.''"

lemma no_shell: "\<not> can_shell t \<Longrightarrow> core_shell sh t = returnS ()"
  by (cases t) simp_all

section \<open>Identifiers are well defined\<close>

lemma deps_ids_step:
  assumes "\<And>t (r :: (('i, 'n, 'c, 'x) transform_error, 'v artifact_id) res). unique_id n T H F hdl t = Some r \<Longrightarrow> unique_id m T H F hdl t = Some r"
    and "deps_ids n T H F hdl as = Some (q :: (('i, 'n, 'c, 'x) transform_error, 'v artifact_id list) res)"
  shows "deps_ids m T H F hdl as = Some q"
  using assms(2)
proof (induction as arbitrary: q)
  case (Cons a as)
  show ?case
  proof (cases "handle_get hdl a")
    case (Some t)
    then obtain i where i: "unique_id n T H F hdl t = Some (i :: (('i, 'n, 'c, 'x) transform_error, 'v artifact_id) res)"
      using Cons.prems by (auto split: option.splits)
    note i2 = assms(1) [OF i]
    show ?thesis
    proof (cases i)
      case (Inr j)
      then obtain z where z: "deps_ids n T H F hdl as = Some (z :: (('i, 'n, 'c, 'x) transform_error, 'v artifact_id list) res)"
        using Cons.prems Some i by auto
      then show ?thesis using Cons.IH [OF z] Cons.prems Some i i2 Inr by simp
    qed (use Cons.prems Some i i2 in simp)
  qed (use Cons.prems in simp)
qed simp

lemma unique_id_mono:
  "unique_id n T H F hdl t = Some (r :: (('i, 'n, 'c, 'x) transform_error, 'v artifact_id) res) \<Longrightarrow> unique_id (Suc n) T H F hdl t = Some r"
proof (induction n arbitrary: t r)
  case 0
  then show ?case by (cases t) simp_all
next
  case (Suc n)
  have deps: "deps_ids n T H F hdl as = Some q \<Longrightarrow> deps_ids (Suc n) T H F hdl as = Some q"
    for as and q :: "(('i, 'n, 'c, 'x) transform_error, 'v artifact_id list) res"
    by (rule deps_ids_step) (rule Suc.IH)
  show ?case using Suc.prems by (cases t) (auto dest: deps simp del: deps_ids.simps)
qed

lemma unique_id_more:
  assumes "unique_id n T H F hdl t = Some (r :: (('i, 'n, 'c, 'x) transform_error, 'v artifact_id) res)" and "n \<le> m"
  shows "unique_id m T H F hdl t = Some r"
  using assms(2,1) by (induction rule: dec_induct) (auto intro: unique_id_mono)

lemma deps_ids_more:
  assumes "deps_ids n T H F hdl as = Some (q :: (('i, 'n, 'c, 'x) transform_error, 'v artifact_id list) res)" and "n \<le> m"
  shows "deps_ids m T H F hdl as = Some q"
  by (rule deps_ids_step [OF _ assms(1)]) (rule unique_id_more [OF _ assms(2)])

text \<open>The dependencies a handle knows.\<close>

definition known_deps_of :: "'c core_transform handle \<Rightarrow> (addr \<times> addr) set" where
  "known_deps_of hdl = {(b, a). \<exists>t. handle_get hdl a = Some t \<and> b \<in> set (core_depends t) \<and> handle_get hdl b \<noteq> None}"

lemma deps_ids_total:
  assumes "\<And>a t. a \<in> set as \<Longrightarrow> handle_get hdl a = Some t \<Longrightarrow>
    \<exists>n. unique_id n T H F hdl t \<noteq> (None :: (('i, 'n, 'c, 'x) transform_error, 'v artifact_id) res option)"
  shows "\<exists>n. deps_ids n T H F hdl as \<noteq> (None :: (('i, 'n, 'c, 'x) transform_error, 'v artifact_id list) res option)"
  using assms
proof (induction as)
  case (Cons a as)
  show ?case
  proof (cases "handle_get hdl a")
    case (Some t)
    from Cons.prems [OF _ Some] obtain n i where n: "unique_id n T H F hdl t = Some (i :: (('i, 'n, 'c, 'x) transform_error, 'v artifact_id) res)"
      by auto
    from Cons.IH Cons.prems obtain m q where m: "deps_ids m T H F hdl as = Some (q :: (('i, 'n, 'c, 'x) transform_error, 'v artifact_id list) res)"
      by (metis list.set_intros(2) not_None_eq)
    have "unique_id (max n m) T H F hdl t = Some i" "deps_ids (max n m) T H F hdl as = Some q"
      using unique_id_more [OF n] deps_ids_more [OF m] by simp_all
    then have "deps_ids (max n m) T H F hdl (a # as) \<noteq> (None :: (('i, 'n, 'c, 'x) transform_error, 'v artifact_id list) res option)"
      using Some by (cases i) simp_all
    then show ?thesis by blast
  qed (simp add: exI [of _ 0])
qed (simp add: exI [of _ 0])

lemma unique_id_total:
  assumes "wf (known_deps_of hdl)" and "handle_get hdl a = Some t"
  shows "\<exists>n. unique_id n T H F hdl t \<noteq> (None :: (('i, 'n, 'c, 'x) transform_error, 'v artifact_id) res option)"
  using assms(2)
proof (induction a arbitrary: t rule: wf_induct_rule [OF assms(1)])
  case (1 a)
  note less = 1
  have "\<exists>n. deps_ids n T H F hdl (sort (core_depends t)) \<noteq> (None :: (('i, 'n, 'c, 'x) transform_error, 'v artifact_id list) res option)"
  proof (rule deps_ids_total)
    fix b t'
    assume "b \<in> set (sort (core_depends t))" "handle_get hdl b = Some t'"
    then show "\<exists>n. unique_id n T H F hdl t' \<noteq> (None :: (('i, 'n, 'c, 'x) transform_error, 'v artifact_id) res option)"
      using less(1) [of b t'] less(2) by (auto simp: known_deps_of_def)
  qed
  then obtain n where n: "deps_ids n T H F hdl (sort (core_depends t)) \<noteq> (None :: (('i, 'n, 'c, 'x) transform_error, 'v artifact_id list) res option)" ..
  then have "unique_id (Suc n) T H F hdl t \<noteq> (None :: (('i, 'n, 'c, 'x) transform_error, 'v artifact_id) res option)"
    by (cases t) auto
  then show ?case ..
qed

section \<open>Where the result goes\<close>

text \<open>Everything before the archive only acts on the environment.\<close>

named_theorems keeps_heap \<open>steps that leave the caches alone\<close>

definition heap_kept :: "('s, 'e, 'i, 'n, 'c, 'x, 'a) build_step \<Rightarrow> bool" where
  "heap_kept m \<longleftrightarrow> (\<forall>s. snd (snd (m s)) = snd s)"

lemma heap_keptD: "heap_kept m \<Longrightarrow> m s = (r, s') \<Longrightarrow> snd s' = snd s"
  by (metis heap_kept_def snd_conv)

lemma heap_kept_basic [keeps_heap]:
  "heap_kept (on_env m)" "heap_kept (returnS x)" "heap_kept (liftS r)" "heap_kept (Pair r)"
  by (simp_all add: heap_kept_def on_env_def Let_def split: prod.split)

lemma heap_kept_bind [keeps_heap]:
  assumes "heap_kept m" and "\<And>x. heap_kept (f x)"
  shows "heap_kept (bindS m f)"
  unfolding heap_kept_def
proof
  fix s
  obtain r s1 where m: "m s = (r, s1)" by (cases "m s")
  have "snd s1 = snd s" by (rule heap_keptD [OF assms(1) m])
  moreover have "snd (snd (f x s1)) = snd s1" for x using assms(2) unfolding heap_kept_def by blast
  ultimately show "snd (snd (bindS m f s)) = snd s" using m by (cases r) (simp_all add: bindS_def)
qed

lemma heap_kept_mapS [keeps_heap]:
  assumes "\<And>x. heap_kept (f x)"
  shows "heap_kept (mapS f xs)"
  by (induction xs) (auto intro!: keeps_heap assms)

lemma heap_kept_foreachS [keeps_heap]:
  assumes "\<And>x. heap_kept (f x)"
  shows "heap_kept (foreachS f xs)"
  unfolding heap_kept_def
proof
  fix s
  obtain r s' where run: "foreachS f xs s = (r, s')" by (cases "foreachS f xs s")
  from foreachS_keeps [OF run, of "\<lambda>t. snd t = snd s"] show "snd (snd (foreachS f xs s)) = snd s"
    using heap_keptD [OF assms] run by fastforce
qed




lemma on_caches_Ok: "on_caches (map_err g) m s = (Inr x, s') \<longleftrightarrow> m (snd s) = (Inr x, snd s') \<and> fst s' = fst s"
  by (cases s') (auto simp: on_caches_def map_err_eq_Ok split: prod.splits)

lemma on_env_Ok: "on_env m s = (Inr x, s') \<longleftrightarrow> m (fst s) = (Inr x, fst s') \<and> snd s' = snd s"
  by (cases s') (auto simp: on_env_def map_err_eq_Ok split: prod.splits)

lemma in_storage_Ok: "in_storage m h = (Inr x, h') \<longleftrightarrow> m h = (Inr x, h')"
  by (auto simp: in_storage_def map_err_eq_Ok split: prod.splits)

lemma write_to_Ok: "write_to V st e (Some x) w h = (Inr w2, h') \<longleftrightarrow> on_local (\<lambda>B. bk_write B x w) V st h = (Inr w2, h')"
  by (auto simp: write_to_def map_err_eq_Ok split: prod.splits)

text \<open>The archive is stored the way a source stores what it fetched.\<close>

lemma archive_out_Ok:
  "archive_out W st u p i path (n, h) = (Ok a :: (('i, 'n, 'c, 'x) transform_error, 'v artifact) res, s') \<longleftrightarrow>
    (\<exists>x h'. s' = (n, h') \<and> e_read (si_env W) path n = Ok x
      \<and> bindS (put_layer (si_backends W) st u (Tar NoCompression) p (IGit GitArchive) (Some x))
          (\<lambda>l. save_artifact (si_backends W) st (push_layer l (new_artifact Manifest (new_config i)))) h
        = (Ok a :: (('i, unit, unit) fetch_error, 'v artifact) res, h'))"
  (is "?run \<longleftrightarrow> ?stored")
proof
  assume ?run
  then show ?stored
    by (auto simp: archive_out_def put_layer_def save_artifact_def bindS_Ok on_caches_Ok on_env_Ok in_storage_Ok write_to_Ok)
next
  assume ?stored
  then show ?run
    by (auto simp: archive_out_def put_layer_def save_artifact_def bindS_Ok on_caches_Ok on_env_Ok in_storage_Ok write_to_Ok)
qed


context artifact_store
begin

lemma archive_out_ok:
  assumes h: "inv (h (st_local st))" and V: "si_backends W = (\<lambda>_. B)" and i: "plain i"
    and run: "archive_out W st u p i path (n, h) = (Ok a :: (('i, 'n, 'c, 'x) transform_error, 'v artifact) res, s')"
  shows "\<exists>x h'. s' = (n, h') \<and> e_read (si_env W) path n = Ok x \<and> art_id a = i
    \<and> art_layers a = [layer_for hash (Tar NoCompression) p x] \<and> stored st x a h h'"
proof -
  let ?new = "new_artifact Manifest (new_config i)"
  have new: "plain (art_id ?new)" "media_plain (art_media ?new)" "media_plain (Tar NoCompression)" "art_layers ?new = []"
    using i by (simp_all add: new_artifact_def new_config_def)
  from run obtain x h' where x: "s' = (n, h')" "e_read (si_env W) path n = Ok x"
    and "bindS (put_layer (\<lambda>_. B) st u (Tar NoCompression) p (IGit GitArchive) (Some x))
      (\<lambda>l. save_artifact (\<lambda>_. B) st (push_layer l ?new)) h = (Ok a :: (('i, unit, unit) fetch_error, 'v artifact) res, h')"
    unfolding archive_out_Ok V by blast
  from store_fetched [where h = h and st = st, OF h new this(3)] x show ?thesis
    by (auto simp: push_layer_def new_artifact_def new_config_def)
qed

end






lemma uid_env [simp]: "uid (W\<lparr>si_env := E\<rparr>) hdl t = uid W hdl t"
  by (simp add: uid_def)

section \<open>An example\<close>

text \<open>Two compositions, the second of the first, in the local environment.\<close>

definition test_dep :: "(string, string) core_source core_transform" where
  "test_dep = ComposeTransform \<lparr>co_addr = Addr [''f''], co_arch = None, co_depends = []\<rparr>"

definition test_handle :: "(string, string) core_source core_transform handle" where
  "test_handle = \<lparr>hd_config = [], hd_storage = test_cache, hd_transforms = [Addr [''f''] \<mapsto> test_dep], hd_farms = Map.empty,
     hd_args = [], hd_cancelled = False\<rparr>"

definition test_site :: "(string, string, local_backend, writer, nat local_error, nat, local_env, local_env_error) site" where
  "test_site = \<lparr>si_fuel = 2, si_tools = test_tools, si_host = archive_host, si_files = [[] \<mapsto> Dir], si_backends = (\<lambda>_. example_ops),
     si_env = local_env_ops archive_host, si_render = (\<lambda>vars x. Some x), si_vshow = (\<lambda>_. []), si_os = ''linux'', si_arch = ''x86_64'',
     si_platform = (\<lambda>os arch. os @ ''/'' @ arch), si_log = ''log''\<rparr>"



section \<open>Properties\<close>

text \<open>C29: \<open>get_unique_id\<close> returns: when no transform of the handle depends on itself, directly or through others, there is
  an amount of fuel from which on the identifier of every transform is computed, and it is always the same one.\<close>

theorem unique_id_terminates:
  assumes "finite (dom (hd_transforms hdl))" and "acyclic (known_deps_of hdl)" and "handle_get hdl a = Some t"
  shows "\<exists>n r. \<forall>m \<ge> n. unique_id m T H F hdl t = Some (r :: (('i, 'n, 'c, 'x) transform_error, 'v artifact_id) res)"
proof -
  have "known_deps_of hdl \<subseteq> dom (hd_transforms hdl) \<times> dom (hd_transforms hdl)"
    by (auto simp: known_deps_of_def handle_get_def)
  then have "finite (known_deps_of hdl)" by (rule finite_subset) (simp add: assms(1))
  then have "wf (known_deps_of hdl)" using assms(2) by (rule finite_acyclic_wf)
  from unique_id_total [OF this assms(3)] obtain n r where
    "unique_id n T H F hdl t = Some (r :: (('i, 'n, 'c, 'x) transform_error, 'v artifact_id) res)" by blast
  then show ?thesis using unique_id_more by blast
qed

theorem unique_id_terminates_witness:
  "\<exists>n r. \<forall>m \<ge> n. unique_id m test_tools test_host Map.empty test_handle test_dep
     = Some (r :: ((nat local_error, unit, unit, unit) transform_error, nat artifact_id) res)"
proof -
  have "known_deps_of test_handle = {}" by (auto simp: known_deps_of_def handle_get_def test_handle_def test_dep_def split: if_splits)
  then show ?thesis
    by (intro unique_id_terminates [of _ "Addr [''f'']"]) (simp_all add: test_handle_def handle_get_def acyclic_def)
qed

text \<open>C34: what the identifier of a script covers: its address and architecture, its sources and commands, and its
  dependencies in any order. It does not cover the interpreter, the environment or the path of the result, so
  a script changed only in these is taken from the cache instead of being run.\<close>

theorem script_id_covers:
  assumes "mset ds = mset (sc_depends t)"
  shows "unique_id n T H F hdl (ScriptTransform (t\<lparr>sc_depends := ds, sc_interpreter := prog, sc_environment := env, sc_artifact := path\<rparr>))
    = (unique_id n T H F hdl (ScriptTransform t) :: (('i, 'n, 'c, 'x) transform_error, 'v artifact_id) res option)"
proof -
  have "sort ds = sort (sc_depends t)" using assms by (metis properties_for_sort mset_sort sorted_sort)
  moreover have "script_id T H F args (t\<lparr>sc_depends := ds, sc_interpreter := prog, sc_environment := env, sc_artifact := path\<rparr>)
      = (script_id T H F args t :: _ \<Rightarrow> (('i, 'n, 'c, 'x) transform_error, 'v artifact_id) res)" for args
    by (rule ext) (simp add: script_id_def)
  ultimately show ?thesis by (cases n) simp_all
qed

definition test_script :: "(string, string) core_source script_transform" where
  "test_script = \<lparr>sc_addr = Addr [''s''], sc_arch = None, sc_environment = Addr [''default''], sc_depends = [Addr [''f''], Addr [''g'']],
     sc_commands = [''make''], sc_interpreter = ''bash'', sc_artifact = None, sc_sources = []\<rparr>"

theorem script_id_covers_witness:
  "unique_id 5 test_tools test_host Map.empty test_handle (ScriptTransform (test_script\<lparr>sc_depends := [Addr [''g''], Addr [''f'']],
       sc_interpreter := ''python3'', sc_environment := Addr [''vm''], sc_artifact := Some ''bin''\<rparr>))
   = (unique_id 5 test_tools test_host Map.empty test_handle (ScriptTransform test_script)
       :: ((nat local_error, unit, unit, unit) transform_error, nat artifact_id) res option)"
  by (rule script_id_covers) (simp add: test_script_def)

text \<open>the module list of a go vendor transform is hashed without separators: two transforms that vendor different
  modules have the same identifier when the names run together alike, so the second is answered with the result of the first.\<close>

lemma go_modules_run_together:
  assumes "concat ms = concat (gv_modules t)"
  shows "unique_id n T H F hdl (GoVendorTransform (t\<lparr>gv_modules := ms\<rparr>))
    = (unique_id n T H F hdl (GoVendorTransform t) :: (('i, 'n, 'c, 'x) transform_error, 'v artifact_id) res option)"
  using assms by (simp add: go_id_def)

lemma go_modules_run_together_witness:
  "unique_id 1 test_tools test_host Map.empty test_handle (GoVendorTransform \<lparr>gv_addr = Addr [''g''], gv_environment = Addr [''default''],
       gv_source = GitSource test_git, gv_modules = [''ab'', ''c'']\<rparr>)
   = (unique_id 1 test_tools test_host Map.empty test_handle (GoVendorTransform \<lparr>gv_addr = Addr [''g''], gv_environment = Addr [''default''],
       gv_source = GitSource test_git, gv_modules = [''a'', ''bc'']\<rparr>) :: ((nat local_error, unit, unit, unit) transform_error, nat artifact_id) res option)"
  using go_modules_run_together [of "[''ab'', ''c'']" "\<lparr>gv_addr = Addr [''g''], gv_environment = Addr [''default''],
       gv_source = GitSource test_git, gv_modules = [''a'', ''bc'']\<rparr>"] by simp





text \<open>an attempt of a built-in transform is never a final failure: it succeeds exactly when the run does, with the artifact
  of the run, and every error, also one that no retry can repair such as a missing \<open>Cargo.toml\<close>, is reported as retryable.\<close>

lemma failures_are_retryable:
  assumes "core_attempt W (text :: ('i, 'n, 'c, 'x) transform_error \<Rightarrow> string) hdl u t s = (Ok r, s')"
  shows "(\<exists>a. r = TSuccess a \<and> core_run W hdl u t s = (Ok a :: (('i, 'n, 'c, 'x) transform_error, 'v artifact) res, s'))
    \<or> (\<exists>e log message. r = TRetryable log message \<and> core_run W hdl u t s = (Fail (e :: ('i, 'n, 'c, 'x) transform_error), s')
        \<and> (can_shell t \<longleftrightarrow> log = Some (si_log W)))"
proof (cases "fst (core_run W hdl u t s :: (('i, 'n, 'c, 'x) transform_error, 'v artifact) res \<times> _)" rule: res_cases)
  case (Ok a)
  then show ?thesis using assms by (auto simp: core_attempt_def split: prod.splits)
next
  case (Fail e)
  then show ?thesis using assms by (cases t) (auto simp: core_attempt_def split: prod.splits)
next
  case Panic
  then show ?thesis using assms by (auto simp: core_attempt_def split: prod.splits)
qed

lemma failures_are_retryable_witness:
  "\<exists>e log. core_run test_site test_handle ''u'' (ComposeTransform \<lparr>co_addr = Addr [''c''], co_arch = None, co_depends = [Addr [''d'']]\<rparr>)
        (test_env ''/r'', example_heap) = (Fail e :: ((nat local_error, local_env_error, unit, unit) transform_error, nat artifact) res, (test_env ''/r'', example_heap))
    \<and> TRetryable None ''error'' = (TRetryable log ''error'' :: nat artifact attempt)"
proof -
  let ?t = "ComposeTransform \<lparr>co_addr = Addr [''c''], co_arch = None, co_depends = [Addr [''d'']]\<rparr> :: (string, string) core_source core_transform"
  have "core_attempt test_site (\<lambda>e :: (nat local_error, local_env_error, unit, unit) transform_error. ''error'') test_handle ''u'' ?t
      (test_env ''/r'', example_heap) = (Ok (TRetryable None ''error''), (test_env ''/r'', example_heap))"
    by (simp add: core_attempt_def compose_run_def uid_def test_site_def handle_get_def test_handle_def)
  from failures_are_retryable [OF this] show ?thesis by auto
qed

end
