(* ===== verification/Container.thy ===== *)
theory Container
  imports Sources
begin

text \<open>
  Processes (\<open>crates/edo/src/util/command.rs\<close>) and the environments that run in a container
  (\<open>crates/core/src/environment/container.rs\<close>): the farm with its configuration, the loading of the image
  into the container engine, and every operation of a container environment.

  The operating system that runs a process is a parameter; the container engine is one of the
  programs it can run, so its images and containers are part of the state that a process
  changes, next to the files of the host. Log output is left out.
\<close>

section \<open>Processes\<close>

text \<open>\<open>spawn\<close> runs a program in a directory with arguments, an input and additional variables and gives the exit
  status and the output, or \<open>None\<close> when it could not be run. \<open>which\<close> looks a program up, and \<open>entries\<close> is the
  order in which a concurrent map is iterated.\<close>

record 'g processes =
  spawn :: "string \<Rightarrow> string \<Rightarrow> string list \<Rightarrow> string \<Rightarrow> (string \<rightharpoonup> string) \<Rightarrow> 'g \<times> fs \<Rightarrow> (bool \<times> string) option \<times> ('g \<times> fs)"
  which :: "string \<Rightarrow> string option"
  entries :: "(string \<rightharpoonup> string) \<Rightarrow> (string \<times> string) list"

type_synonym ('g, 'a) process = "('g \<times> fs, unit, 'a) action"

definition cmd_input :: "'g processes \<Rightarrow> string \<Rightarrow> string \<Rightarrow> string list \<Rightarrow> string \<Rightarrow> (string \<rightharpoonup> string) \<Rightarrow> ('g, bool) process" where
  "cmd_input P path program args input vars m =
     (case spawn P path program args input vars m of
        (None, m1) \<Rightarrow> (Fail (), m1)
      | (Some (success, _), m1) \<Rightarrow> (Ok success, m1))"

definition cmd_collect_out :: "'g processes \<Rightarrow> string \<Rightarrow> string \<Rightarrow> string list \<Rightarrow> (string \<rightharpoonup> string) \<Rightarrow> ('g, string) process" where
  "cmd_collect_out P path program args vars m =
     (case spawn P path program args [] vars m of
        (None, m1) \<Rightarrow> (Fail (), m1)
      | (Some (_, out), m1) \<Rightarrow> (Ok out, m1))"

definition cmd_noinput :: "'g processes \<Rightarrow> string \<Rightarrow> string \<Rightarrow> string list \<Rightarrow> (string \<rightharpoonup> string) \<Rightarrow> ('g, bool) process" where
  "cmd_noinput P path program args vars m =
     (case spawn P path program args [] vars m of
        (None, m1) \<Rightarrow> (Fail (), m1)
      | (Some (success, _), m1) \<Rightarrow> (Ok success, m1))"

definition cmd_nulled :: "'g processes \<Rightarrow> string \<Rightarrow> string \<Rightarrow> string list \<Rightarrow> (string \<rightharpoonup> string) \<Rightarrow> ('g, bool) process" where
  "cmd_nulled P path program args vars m =
     (case spawn P path program args [] vars m of
        (None, m1) \<Rightarrow> (Fail (), m1)
      | (Some (success, _), m1) \<Rightarrow> (Ok success, m1))"

text \<open>Two more, for the vendor source and the interactive shell: the output goes to a file that the caller has opened, or
  to the terminal.\<close>

definition cmd_pipeout :: "'g processes \<Rightarrow> string \<Rightarrow> string \<Rightarrow> string list \<Rightarrow> (string \<rightharpoonup> string) \<Rightarrow> ('g, bool \<times> string) process" where
  "cmd_pipeout P path program args vars m =
     (case spawn P path program args [] vars m of
        (None, m1) \<Rightarrow> (Fail (), m1)
      | (Some (success, out), m1) \<Rightarrow> (Ok (success, out), m1))"

definition cmd_noredirect :: "'g processes \<Rightarrow> string \<Rightarrow> string \<Rightarrow> string list \<Rightarrow> string \<Rightarrow> (string \<rightharpoonup> string) \<Rightarrow> ('g, bool) process" where
  "cmd_noredirect P path program args terminal vars m =
     (case spawn P path program args terminal vars m of
        (None, m1) \<Rightarrow> (Fail (), m1)
      | (Some (success, _), m1) \<Rightarrow> (Ok success, m1))"

section \<open>The farm\<close>

text \<open>\<open>'x\<close> is the error of a source.\<close>

datatype 'x container_error = CEArchive | CEContext string | CECreateDirectory | CECreateFile | CEExtract | CEIo | CELoad | CENoRuntime
  | CENoSource | CENotFound string | CEReadFile | CERuntime | CESource 'x | CEStorage string | CETagMissing | CEWorkspace | CEWriteFile

record container_config =
  cc_runtime :: "string option"
  cc_cli :: string
  cc_network :: bool

definition config_default :: container_config where
  "config_default = \<lparr>cc_runtime = None, cc_cli = [], cc_network = False\<rparr>"

record 'c container_farm =
  cf_config :: container_config
  cf_addr :: addr
  cf_user :: string
  cf_source :: 'c

definition container_config_from_node :: "nat \<Rightarrow> ('v, 'q, 'f) nheap \<Rightarrow> ('e, container_config) res" where
  "container_config_from_node r h =
     Ok (config_default\<lparr>cc_runtime := maybe_string r ''runtime'' h,
       cc_network := (case maybe_bool r ''network'' h of Some b \<Rightarrow> b | None \<Rightarrow> False)\<rparr>)"

text \<open>\<open>add\<close> is \<open>ctx.add_source(addr, ..)\<close> and \<open>text\<close> renders its error.\<close>

definition container_farm_from_node :: "(nat \<Rightarrow> ('d, 'c) res) \<Rightarrow> ('d \<Rightarrow> string) \<Rightarrow> addr \<Rightarrow> nat \<Rightarrow> ('v, 'q, 'f) nheap
    \<Rightarrow> ('x container_error env_error, 'c container_farm) res" where
  "container_farm_from_node add text a r h =
     bindR (ok_or (EnvImplementation CENoSource) (node_lookup r ''source'' h)) (\<lambda>n.
     case as_list (cell h n) of
       Some (s # _) \<Rightarrow>
         bindR (map_err (\<lambda>e. EnvContext (text e)) (add s)) (\<lambda>source.
         Ok \<lparr>cf_config = config_default, cf_addr = a,
             cf_user = (case maybe_string r ''user'' h of Some u \<Rightarrow> u | None \<Rightarrow> ''root''), cf_source = source\<rparr>)
     | _ \<Rightarrow> Inl Panic)"

definition find_runtime :: "'g processes \<Rightarrow> string option \<Rightarrow> string option" where
  "find_runtime P runtime =
     (case runtime of
        Some r \<Rightarrow> which P r
      | None \<Rightarrow>
          (case which P ''podman'' of Some p \<Rightarrow> Some p
           | None \<Rightarrow> (case which P ''finch'' of Some p \<Rightarrow> Some p | None \<Rightarrow> which P ''docker'')))"

definition container_set_config :: "'g processes \<Rightarrow> container_config \<Rightarrow> 'c container_farm
    \<Rightarrow> ('x container_error env_error, 'c container_farm) res" where
  "container_set_config P config F =
     bindR (ok_or (EnvImplementation CENoRuntime) (find_runtime P (cc_runtime config))) (\<lambda>cli.
     Ok (F\<lparr>cf_config := config\<lparr>cc_cli := cli\<rparr>\<rparr>))"

definition image_tag :: "addr \<Rightarrow> string" where
  "image_tag a =
     ''edo-'' @ replace_char (CHR ''/'') (CHR ''-'')
       (case strip_prefix ''//'' (addr_to_string a) of Some s \<Rightarrow> s | None \<Rightarrow> addr_to_string a)"

text \<open>\<open>str::trim\<close>, of ASCII text.\<close>

definition is_space :: "char \<Rightarrow> bool" where
  "is_space c \<longleftrightarrow> of_char c = (32 :: nat) \<or> (9 \<le> (of_char c :: nat) \<and> (of_char c :: nat) \<le> 13)"

definition trim_text :: "string \<Rightarrow> string" where
  "trim_text s = rev (dropWhile is_space (rev (dropWhile is_space s)))"

definition loaded_image :: "string \<Rightarrow> string" where
  "loaded_image out = trim_text (case strip_prefix ''Loaded image: sha256:'' out of Some s \<Rightarrow> s | None \<Rightarrow> out)"

text \<open>Creating and removing a file of the host.\<close>

definition create_file :: "string list \<Rightarrow> string \<Rightarrow> fs \<Rightarrow> fs option" where
  "create_file p bytes F =
     (if p = [] \<or> F p = Some Dir \<or> F (butlast p) \<noteq> Some Dir then None else Some (F(p \<mapsto> File bytes)))"

definition delete_file :: "string list \<Rightarrow> fs \<Rightarrow> fs option" where
  "delete_file p F = (case F p of Some (File _) \<Rightarrow> Some (F(p := None)) | _ \<Rightarrow> None)"

type_synonym ('g, 's, 'x, 'a) farm_action = "(('g \<times> fs) \<times> (nat \<Rightarrow> 's), 'x container_error env_error, 'a) action"

definition engine_call :: "('g, 'a) process \<Rightarrow> ('g, 's, 'x, 'a) farm_action" where
  "engine_call p s = (let (r, m) = p (fst s) in (map_err (\<lambda>_. EnvImplementation CERuntime) r, (m, snd s)))"

definition host_files :: "(fs \<Rightarrow> fs option) \<Rightarrow> ('g, 's, 'x, unit) farm_action" where
  "host_files f s =
     (case f (snd (fst s)) of
        None \<Rightarrow> (Fail (EnvImplementation CEIo), s)
      | Some F \<Rightarrow> (Ok (), ((fst (fst s), F), snd s)))"

text \<open>\<open>tmp\<close> is the fresh path in the temporary directory; \<open>us\<close> and \<open>u\<close> are the fresh names of \<open>Source::cache\<close>.\<close>

definition container_farm_setup :: "'g processes \<Rightarrow> host \<Rightarrow> (nat \<Rightarrow> ('s, 'w, 'i, 'v) backend) \<Rightarrow> storage \<Rightarrow> ('i storage_error \<Rightarrow> string)
    \<Rightarrow> string list \<Rightarrow> string \<Rightarrow> string \<Rightarrow> ('s, 'e, 'i, 'n, 'c, 'v) source container_farm
    \<Rightarrow> ('g, 's, ('i, 'n, 'c) fetch_error, unit) farm_action" where
  "container_farm_setup P H V st text us u tmp F =
     bindS (\<lambda>s. let (r, h) = source_cache V st us u (cf_source F) (snd s) in (map_err (\<lambda>e. EnvImplementation (CESource e)) r, (fst s, h))) (\<lambda>a.
     bindS (engine_call (cmd_nulled P ''.'' (cc_cli (cf_config F)) [''image'', ''inspect'', image_tag (cf_addr F)] Map.empty)) (\<lambda>loaded.
     if loaded then returnS ()
     else case art_layers a of
       [] \<Rightarrow> liftS (Inl Panic)
     | l # _ \<Rightarrow>
         bindS (\<lambda>s. (map_err (\<lambda>e. EnvStorage (text e)) (safe_read V st l (snd s)), s)) (\<lambda>x.
         bindS (host_files (create_file (resolve_path H tmp) x)) (\<lambda>_.
         bindS (engine_call (cmd_collect_out P ''.'' (cc_cli (cf_config F)) [''load'', ''-i'', tmp] Map.empty)) (\<lambda>out.
         bindS (engine_call (cmd_noinput P ''.'' (cc_cli (cf_config F)) [''tag'', loaded_image out, image_tag (cf_addr F)] Map.empty)) (\<lambda>_.
         host_files (delete_file (resolve_path H tmp))))))))"

section \<open>The environment\<close>

record 'g container =
  ct_config :: container_config
  ct_name :: string
  ct_user :: string
  ct_path :: string
  ct_tag :: string
  ct_running :: bool
  ct_env :: "string \<rightharpoonup> string"
  ct_engine :: 'g
  ct_fs :: fs

definition container_farm_create :: "'c container_farm \<Rightarrow> string \<Rightarrow> string \<Rightarrow> 'g \<times> fs \<Rightarrow> 'g container" where
  "container_farm_create F name path m =
     \<lparr>ct_config = cf_config F, ct_name = name, ct_user = cf_user F, ct_path = path, ct_tag = image_tag (cf_addr F),
      ct_running = False, ct_env = Map.empty, ct_engine = fst m, ct_fs = snd m\<rparr>"

type_synonym ('g, 'x, 'a) container_action = "('g container, 'x container_error, 'a) env_action"

definition ct_join :: "'g container \<Rightarrow> string \<Rightarrow> string" where
  "ct_join c path = path_join (ct_path c) path"

definition ct_call :: "('g, 'a) process \<Rightarrow> ('g, 'x, 'a) container_action" where
  "ct_call p c =
     (let (r, m) = p (ct_engine c, ct_fs c)
      in (map_err (\<lambda>_. EnvImplementation CERuntime) r, c\<lparr>ct_engine := fst m, ct_fs := snd m\<rparr>))"

definition ct_dirs :: "'x container_error \<Rightarrow> string list \<Rightarrow> ('g, 'x, unit) container_action" where
  "ct_dirs e p c =
     (case make_dirs p (ct_fs c) of
        None \<Rightarrow> (Fail (EnvImplementation e), c)
      | Some F \<Rightarrow> (Ok (), c\<lparr>ct_fs := F\<rparr>))"

definition home_path :: "string \<Rightarrow> string" where
  "home_path user = (if user = ''root'' then ''/root'' else ''/home/'' @ user)"

definition ct_expand :: "string \<Rightarrow> 'g container \<Rightarrow> ('x container_error env_error, string) res" where
  "ct_expand path c = Ok (if is_absolute path then path else path_join (home_path (ct_user c)) path)"

definition ct_set_env :: "string \<Rightarrow> string \<Rightarrow> ('g, 'x, unit) container_action" where
  "ct_set_env key value = modifyS (\<lambda>c. c\<lparr>ct_env := (ct_env c)(key \<mapsto> value)\<rparr>)"

definition ct_get_env :: "string \<Rightarrow> 'g container \<Rightarrow> string option" where
  "ct_get_env key c = ct_env c key"

definition ct_setup :: "host \<Rightarrow> ('g, 'x, unit) container_action" where
  "ct_setup H c =
     (let p = path_steps H (ct_path c) in if ct_fs c (resolve_steps p) = None then ct_dirs CEWorkspace p c else (Ok (), c))"

definition env_args :: "'g processes \<Rightarrow> (string \<rightharpoonup> string) \<Rightarrow> string list" where
  "env_args P vars =
     (case entries P vars of
        [] \<Rightarrow> []
      | es \<Rightarrow> [''--env'', join_with '','' (map (\<lambda>(k, v). k @ ''='' @ v) es)])"

text \<open>The arguments of \<open>run\<close>; \<open>root\<close> is the absolute path of the workspace.\<close>

definition launch_args :: "'g processes \<Rightarrow> string \<Rightarrow> 'g container \<Rightarrow> string list" where
  "launch_args P root c =
     [''run'', ''-it'', ''-d'', ''--security-opt'', ''label=disable'', ''--tmpfs'', ''/tmp'']
     @ (if cc_network (ct_config c) then [] else [''--network=none''])
     @ [''--mount'', ''src='' @ root @ '',dst='' @ home_path (ct_user c) @ '',type=bind'']
     @ (if ct_user c = ''root'' then [''-u'', ''0:0''] else [])
     @ env_args P (ct_env c) @ [''--name'', ct_name c, ct_tag c, ''sh'']"

definition ct_up :: "'g processes \<Rightarrow> host \<Rightarrow> ('g, 'x, unit) container_action" where
  "ct_up P H c =
     (if ct_running c then (Ok (), c)
      else case path_absolute (cwd H) (ct_path c) of
        None \<Rightarrow> (Inl Panic, c)
      | Some root \<Rightarrow>
          bindS (ct_call (cmd_noinput P ''.'' (cc_cli (ct_config c)) (launch_args P root c) (ct_env c))) (\<lambda>_.
          modifyS (\<lambda>c. c\<lparr>ct_running := True\<rparr>)) c)"

definition ct_down :: "'g processes \<Rightarrow> ('g, 'x, unit) container_action" where
  "ct_down P c =
     (if \<not> ct_running c then (Ok (), c)
      else bindS (ct_call (cmd_noinput P ''.'' (cc_cli (ct_config c)) [''kill'', ct_name c] (ct_env c))) (\<lambda>_.
           bindS (ct_call (cmd_noinput P ''.'' (cc_cli (ct_config c)) [''rm'', ct_name c] (ct_env c))) (\<lambda>_.
           modifyS (\<lambda>c. c\<lparr>ct_running := False\<rparr>))) c)"

definition ct_clean :: "('g, 'x, unit) container_action" where
  "ct_clean = returnS ()"

definition ct_create_dir :: "host \<Rightarrow> string \<Rightarrow> ('g, 'x, unit) container_action" where
  "ct_create_dir H path c = ct_dirs CECreateDirectory (path_steps H (ct_join c path)) c"

definition ct_write :: "host \<Rightarrow> string \<Rightarrow> string \<Rightarrow> ('g, 'x, unit) container_action" where
  "ct_write H path bytes c =
     (let p = resolve_path H (ct_join c path);
          parent = butlast (path_steps H (ct_join c path))
      in case (if ct_fs c (resolve_steps parent) = None then ct_dirs CECreateDirectory parent c else (Ok (), c)) of
           (Inl e, c1) \<Rightarrow> (Inl e, c1)
         | (Inr _, c1) \<Rightarrow>
             if p = [] \<or> ct_fs c1 p = Some Dir \<or> ct_fs c1 (resolve_steps parent) \<noteq> Some Dir
             then (Fail (EnvImplementation CECreateFile), c1)
             else (Ok (), c1\<lparr>ct_fs := (ct_fs c1)(p \<mapsto> File bytes)\<rparr>))"

definition ct_unpack :: "host \<Rightarrow> string \<Rightarrow> string \<Rightarrow> ('g, 'x, unit) container_action" where
  "ct_unpack H path bytes c =
     (let p = resolve_path H (ct_join c path)
      in case (if ct_fs c p = None then ct_dirs CECreateDirectory (path_steps H (ct_join c path)) c else (Ok (), c)) of
           (Inl e, c1) \<Rightarrow> (Inl e, c1)
         | (Inr _, c1) \<Rightarrow>
             (case untar H bytes p (ct_fs c1) of
                (False, F) \<Rightarrow> (Fail (EnvImplementation CEExtract), c1\<lparr>ct_fs := F\<rparr>)
              | (True, F) \<Rightarrow> (Ok (), c1\<lparr>ct_fs := F\<rparr>)))"

definition ct_read :: "host \<Rightarrow> string \<Rightarrow> 'g container \<Rightarrow> ('x container_error env_error, string) res" where
  "ct_read H path c =
     (let p = resolve_path H (ct_join c path)
      in case ct_fs c p of
           None \<Rightarrow> Fail (EnvImplementation (CENotFound path))
         | Some (File x) \<Rightarrow> Ok x
         | Some Dir \<Rightarrow> ok_or (EnvImplementation CEArchive) (tar H p (ct_fs c)))"

text \<open>The directory in which \<open>cmd\<close> and \<open>run\<close> work.\<close>

definition work_dir :: "string \<Rightarrow> string" where
  "work_dir path = path_join ''/root'' path"

definition exec_args :: "'g processes \<Rightarrow> string \<Rightarrow> 'g container \<Rightarrow> string list" where
  "exec_args P path c =
     [''exec'', ''-i'', ''--workdir'', work_dir path]
     @ (if ct_user c = ''root'' then [''-u'', ''0:0''] else [])
     @ env_args P (ct_env c) @ [ct_name c]"

definition ct_cmd :: "'g processes \<Rightarrow> string \<Rightarrow> string \<Rightarrow> ('g, 'x, bool) container_action" where
  "ct_cmd P path line c =
     ct_call (cmd_noinput P ''.'' (cc_cli (ct_config c)) (exec_args P path c @ [''sh'', ''-c'', line]) (ct_env c)) c"

definition ct_run :: "'g processes \<Rightarrow> string \<Rightarrow> string \<Rightarrow> ('g, 'x, bool) container_action" where
  "ct_run P path script c =
     ct_call (cmd_input P ''.'' (cc_cli (ct_config c)) (exec_args P path c @ [''sh'']) script (ct_env c)) c"

text \<open>The interactive shell, on what is typed into it; its exit status is not looked at.\<close>

definition ct_shell :: "'g processes \<Rightarrow> string \<Rightarrow> string \<Rightarrow> ('g, 'x, unit) container_action" where
  "ct_shell P terminal path c =
     bindS (ct_call (cmd_noredirect P ''.'' (cc_cli (ct_config c))
       ([''exec'', ''-it'', ''--workdir'', work_dir path] @ (if ct_user c = ''root'' then [''-u'', ''0:0''] else [])
        @ env_args P (ct_env c) @ [ct_name c] @ [''sh'']) terminal (ct_env c))) (\<lambda>_. returnS ()) c"

definition container_ops :: "'g processes \<Rightarrow> host \<Rightarrow> ('g container, 'x container_error) environment" where
  "container_ops P H = \<lparr>
     e_expand = ct_expand, e_create_dir = ct_create_dir H, e_set_env = ct_set_env, e_get_env = ct_get_env,
     e_setup = ct_setup H, e_up = ct_up P H, e_down = ct_down P, e_clean = ct_clean,
     e_write = ct_write H, e_unpack = ct_unpack H, e_read = ct_read H,
     e_cmd = ct_cmd P, e_run = ct_run P\<rparr>"

section \<open>The workspace\<close>

text \<open>The files of a container environment are those of a local environment in the same directory.\<close>

definition as_local :: "'g container \<Rightarrow> local_env" where
  "as_local c = \<lparr>le_path = ct_path c, le_env = ct_env c, le_fs = ct_fs c\<rparr>"

fun file_error :: "local_env_error env_error \<Rightarrow> 'x container_error env_error" where
  "file_error (EnvImplementation LEArchive) = EnvImplementation CEArchive"
| "file_error (EnvImplementation LECreateFile) = EnvImplementation CECreateFile"
| "file_error (EnvImplementation LECreateDirectory) = EnvImplementation CECreateDirectory"
| "file_error (EnvImplementation LEExtract) = EnvImplementation CEExtract"
| "file_error (EnvImplementation (LENotFound p)) = EnvImplementation (CENotFound p)"
| "file_error (EnvImplementation LEReadFile) = EnvImplementation CEReadFile"
| "file_error (EnvImplementation LEWriteFile) = EnvImplementation CEWriteFile"
| "file_error _ = EnvIo"

definition in_workspace :: "(local_env, local_env_error env_error, 'a) action \<Rightarrow> ('g, 'x, 'a) container_action" where
  "in_workspace m c = (let (r, n) = m (as_local c) in (map_err file_error r, c\<lparr>ct_fs := le_fs n\<rparr>))"

lemma as_local_simps [simp]:
  "le_path (as_local c) = ct_path c" "le_env (as_local c) = ct_env c" "le_fs (as_local c) = ct_fs c" "le_join (as_local c) p = ct_join c p"
  by (simp_all add: as_local_def le_join_def ct_join_def)

lemma ct_dirs_local: "ct_dirs CECreateDirectory p c = in_workspace (le_dirs p) c"
  by (simp add: ct_dirs_def in_workspace_def le_dirs_def split: option.split)

lemma ct_write_local: "ct_write H path bytes c = in_workspace (le_write H path bytes) c"
  by (cases "make_dirs (butlast (path_steps H (ct_join c path))) (ct_fs c)")
    (auto simp: ct_write_def le_write_def ct_dirs_local in_workspace_def le_dirs_def Let_def)

lemma ct_unpack_local: "ct_unpack H path bytes c = in_workspace (le_unpack H path bytes) c"
  by (cases "make_dirs (path_steps H (ct_join c path)) (ct_fs c)")
    (auto simp: ct_unpack_def le_unpack_def ct_dirs_local in_workspace_def le_dirs_def Let_def split: prod.split bool.split)

lemma ct_read_local: "ct_read H path c = map_err file_error (le_read H path (as_local c))"
  by (auto simp: ct_read_def le_read_def Let_def ok_or_def split: option.split fs_node.split)

lemma ct_write_then_read:
  assumes "ct_write H path bytes c = (Ok (), c')"
  shows "ct_read H path c' = Ok bytes"
proof -
  obtain r n where w: "le_write H path bytes (as_local c) = (r, n)" by (cases "le_write H path bytes (as_local c)")
  with assms have r: "r = Ok ()" and c': "c' = c\<lparr>ct_fs := le_fs n\<rparr>"
    by (auto simp: ct_write_local in_workspace_def map_err_eq_Ok)
  from le_write_then_read [OF w [unfolded r]] have n: "le_read H path n = Ok bytes" "le_path n = ct_path c" "le_env n = ct_env c" by simp_all
  have "as_local c' = n" using n(2,3) by (simp add: as_local_def c')
  then show ?thesis using n(1) by (simp add: ct_read_local)
qed

interpretation container_files: file_environment "container_ops P H"
  by unfold_locales (use ct_write_then_read in \<open>simp add: container_ops_def\<close>)

text \<open>So a remote file arrives in a container as it does in a local environment.\<close>

lemma remote_file_in_container:
  assumes "sound hash vshow vparse (h (st_local st))" and "plain_id vshow (remote_id T R)" and "\<not> rem_archive R"
    and "remote_fetch T (\<lambda>_. local_ops hash vshow vparse) st R u h
      = (Ok a :: (('v::linorder local_error, 'x container_error, 'c) fetch_error, 'v artifact) res, h')"
    and "remote_stage T (\<lambda>_. local_ops hash vshow vparse) st (container_ops P H) R h' path env
      = (Ok () :: (('v local_error, 'x container_error, 'c) fetch_error, unit) res, env')"
  shows "\<exists>x. http_get T (rem_url R) = Some (True, x, True) \<and> hash x = rem_digest R \<and> ct_read H (path_join path (rem_out R)) env' = (Ok x :: ('x container_error env_error, string) res)"
  using container_files.remote_arrives [where h = h and st = st and P = P and H = H, OF assms] by (simp add: container_ops_def)

section \<open>Properties\<close>

text \<open>C37: the file operations of a container environment are those of a local environment whose root is the workspace
  directory: same effect on the files, same results, the errors under the names of the container.\<close>

theorem container_files_as_local:
  "ct_create_dir H path c = in_workspace (le_create_dir H path) c
   \<and> ct_write H path bytes c = in_workspace (le_write H path bytes) c
   \<and> ct_unpack H path bytes c = in_workspace (le_unpack H path bytes) c
   \<and> ct_read H path c = map_err file_error (le_read H path (as_local c))"
  by (intro conjI ct_write_local ct_unpack_local ct_read_local)
    (simp add: ct_create_dir_def ct_dirs_local le_create_dir_def in_workspace_def)

lemma work_dir_mounted:
  assumes "\<not> is_absolute path"
  shows "path_starts_with (home_path u) (work_dir path) \<longleftrightarrow> u = ''root''"
proof -
  have w: "path_components (work_dir path) = ''/'' # ''root'' # path_segments path"
    using assms by (simp add: work_dir_def path_join_def path_components_def is_absolute_def path_segments_def)
  have h: "path_components (home_path u) = ''/'' # (if u = ''root'' then [''root''] else ''home'' # path_segments u)"
    by (simp add: home_path_def path_components_def is_absolute_def path_segments_def)
  show ?thesis by (simp add: path_starts_with_def w h)
qed

text \<open>the workspace is mounted where \<open>expand\<close> leads, but \<open>cmd\<close> and \<open>run\<close> work below \<open>/root\<close>: for every user but root a
  relative path, such as those of a \<open>Vfs\<close>, runs outside of the mounted workspace.\<close>

lemma runs_outside_workspace:
  "(\<exists>pre post. launch_args P root c = pre @ [''--mount'', ''src='' @ root @ '',dst='' @ home_path (ct_user c) @ '',type=bind''] @ post)
   \<and> (ct_expand path c = (Ok (if is_absolute path then path else path_join (home_path (ct_user c)) path) :: ('x container_error env_error, string) res))
   \<and> (is_absolute path \<or> (path_starts_with (home_path (ct_user c)) (work_dir path) \<longleftrightarrow> ct_user c = ''root''))"
proof (intro conjI)
  show "\<exists>pre post. launch_args P root c = pre @ [''--mount'', ''src='' @ root @ '',dst='' @ home_path (ct_user c) @ '',type=bind''] @ post"
    unfolding launch_args_def by (metis append_assoc)
qed (auto simp: ct_expand_def work_dir_mounted)

text \<open>C38: a container that could not be launched counts as running: when the engine exits with a failure, \<open>up\<close> still
  succeeds, a further \<open>up\<close> does nothing, and the environment goes on to its commands.\<close>

theorem failed_launch_is_up:
  assumes "\<not> ct_running c" and "path_absolute (cwd H) (ct_path c) = Some root"
    and "spawn P ''.'' (cc_cli (ct_config c)) (launch_args P root c) [] (ct_env c) (ct_engine c, ct_fs c) = (Some (False, out), m)"
  shows "\<exists>c'. ct_up P H c = (Ok () :: ('x container_error env_error, unit) res, c') \<and> ct_running c' \<and> ct_engine c' = fst m
    \<and> ct_up P H c' = (Ok () :: ('x container_error env_error, unit) res, c')"
  using assms by (simp add: ct_up_def bindS_def ct_call_def cmd_noinput_def)

definition test_processes :: "nat processes" where
  "test_processes = \<lparr>spawn = (\<lambda>dir program args input vars m. (Some (hd args = ''image'', []), (Suc (fst m), snd m))),
     which = (\<lambda>p. Some p), entries = (\<lambda>vars. [])\<rparr>"

definition test_container :: "nat container" where
  "test_container = container_farm_create \<lparr>cf_config = config_default, cf_addr = Addr [''e''], cf_user = ''root'', cf_source = ()\<rparr>
     ''box'' ''/r'' (0, [[] \<mapsto> Dir])"

theorem failed_launch_is_up_witness:
  "\<exists>c'. ct_up test_processes test_host test_container = (Ok () :: (unit container_error env_error, unit) res, c') \<and> ct_running c'"
proof -
  have "path_absolute (cwd test_host) (ct_path test_container) = Some ''/r''"
    by (simp add: test_container_def container_farm_create_def path_absolute_def is_absolute_def path_segments_def path_join_def starts_with_def)
  from failed_launch_is_up [OF _ this, where P = test_processes and out = "[]"] show ?thesis
    by (auto simp: test_processes_def test_container_def container_farm_create_def launch_args_def)
qed

text \<open>An image that the engine already has under the name of the farm is used whatever the source has become.\<close>

lemma image_reused:
  assumes "source_cache V st us u (cf_source F) h = (Ok a, h')"
    and "spawn P ''.'' (cc_cli (cf_config F)) [''image'', ''inspect'', image_tag (cf_addr F)] [] Map.empty m = (Some (True, out), m')"
  shows "container_farm_setup P H V st text us u tmp F (m, h) = (Ok (), (m', h'))"
  using assms by (simp add: container_farm_setup_def bindS_def engine_call_def cmd_nulled_def)

text \<open>The name does not identify the farm: the separator of addresses becomes \<open>-\<close>.\<close>

lemma image_tags_collide: "image_tag (Addr [x, y]) = image_tag (Addr [x @ ''-'' @ y])"
  by (simp add: image_tag_def addr_to_string_def replace_char_def)

end
