(* ===== verification/Image_Vendor.thy ===== *)
theory Image_Vendor
  imports Resolver Sources
begin

text \<open>
  The vendor of container images (\<open>crates/core/src/vendor/oci.rs\<close>): the versions of an image are the tags of
  its repository, with or without a leading \<open>v\<close>; resolving a version makes a definition of an image source;
  the dependencies are those of the artifact in the configuration of the image.

  The registry is a parameter: the tags of a repository, the reference for a tag of a repository
  (whose index is a field of the record \<open>tools\<close>), and the configuration bytes of an image.
\<close>

section \<open>The vendor\<close>

text \<open>\<open>image_config\<close> is \<open>None\<close> when the registry could not be asked, and \<open>Some None\<close> when the index has no image;
  \<open>config_requires\<close> reads the requirements of an artifact from its JSON, and \<open>req_extend\<close> appends comparators.\<close>

record ('r, 'q) image_registry =
  repo_tags :: "string \<Rightarrow> string list option"
  tag_uri :: "string \<Rightarrow> string \<Rightarrow> 'r"
  image_config :: "'r \<Rightarrow> string option option"
  config_requires :: "string \<Rightarrow> (string \<times> (string \<times> 'q) list) list option"
  req_extend :: "'q \<Rightarrow> 'q \<Rightarrow> 'q"

datatype ('v, 'q) image_vendor_error = OVContext "('v, 'q) context_error" | OVField string string | OVIo | OVOci | OVVended string 'v

definition strip_v :: "string \<Rightarrow> string" where
  "strip_v tag = (case strip_prefix ''v'' tag of Some s \<Rightarrow> s | None \<Rightarrow> tag)"

definition tag_versions :: "('v, 'q, 'f) crates \<Rightarrow> string list \<Rightarrow> 'v list" where
  "tag_versions L tags = remdups (List.map_filter (\<lambda>tag. version_parse L (strip_v tag)) tags)"

definition image_options :: "('v, 'q, 'f) crates \<Rightarrow> ('r, 'q) image_registry \<Rightarrow> string \<Rightarrow> (('v, 'q) image_vendor_error, 'v list) res" where
  "image_options L G name = bindR (ok_or OVOci (repo_tags G name)) (\<lambda>tags. Ok (tag_versions L tags))"

text \<open>The reference of a version and the digests of its index: the tag as the version is printed, else with \<open>v\<close>.\<close>

definition find_index :: "('v, 'q, 'f) crates \<Rightarrow> ('u, 'r) tools \<Rightarrow> ('r, 'q) image_registry \<Rightarrow> string \<Rightarrow> 'v \<Rightarrow> ('r \<times> string list) option" where
  "find_index L T G name v =
     (case index_manifests T (tag_uri G name (version_show L v)) of
        Some ms \<Rightarrow> Some (tag_uri G name (version_show L v), ms)
      | None \<Rightarrow> map_option (Pair (tag_uri G name (''v'' @ version_show L v))) (index_manifests T (tag_uri G name (''v'' @ version_show L v))))"

definition image_resolve :: "('v, 'q, 'f) crates \<Rightarrow> ('u, 'r) tools \<Rightarrow> ('r, 'q) image_registry \<Rightarrow> string \<Rightarrow> 'v
    \<Rightarrow> (('v, 'q, 'f) nheap, ('v, 'q) image_vendor_error, nat) action" where
  "image_resolve L T G name v =
     (case find_index L T G name v of
        None \<Rightarrow> liftS (Fail (OVVended name v))
      | Some (uri, ms) \<Rightarrow>
          bindS (new_node (DString (uri_text T uri))) (\<lambda>url.
          bindS (new_node (DString (index_digest T ms))) (\<lambda>ref.
          new_definition ''source'' ''image'' name [(''ref'', ref), (''url'', url)])))"

definition get_artifact_config :: "('v, 'q, 'f) crates \<Rightarrow> ('u, 'r) tools \<Rightarrow> ('r, 'q) image_registry \<Rightarrow> string \<Rightarrow> 'v
    \<Rightarrow> (('v, 'q) image_vendor_error, (string \<times> (string \<times> 'q) list) list option) res" where
  "get_artifact_config L T G name v =
     (case find_index L T G name v of
        None \<Rightarrow> Ok None
      | Some (uri, _) \<Rightarrow>
          bindR (ok_or OVOci (image_config G uri)) (\<lambda>image.
          Ok (Option.bind image (config_requires G))))"

fun merge_requires :: "('r, 'q) image_registry \<Rightarrow> (string \<times> 'q) list \<Rightarrow> (string \<times> 'q) list \<Rightarrow> (string \<times> 'q) list" where
  "merge_requires G [] found = found"
| "merge_requires G ((name, req) # rs) found =
     merge_requires G rs
       (case map_of found name of
          Some require \<Rightarrow> map (\<lambda>(n, q). if n = name then (n, req_extend G require req) else (n, q)) found
        | None \<Rightarrow> found @ [(name, req)])"

definition image_dependencies :: "('v, 'q, 'f) crates \<Rightarrow> ('u, 'r) tools \<Rightarrow> ('r, 'q) image_registry \<Rightarrow> string \<Rightarrow> 'v
    \<Rightarrow> (('v, 'q) image_vendor_error, (string \<times> 'q) list option) res" where
  "image_dependencies L T G name v =
     bindR (get_artifact_config L T G name v) (\<lambda>artifact.
     Ok (map_option (\<lambda>requires. merge_requires G (case map_of requires ''depends'' of Some d \<Rightarrow> d | None \<Rightarrow> []) []) artifact))"

text \<open>\<open>connect\<close> parses the address of the registry and opens it.\<close>

definition image_vendor_from_node :: "(string \<Rightarrow> ('r, 'q) image_registry option) \<Rightarrow> nat \<Rightarrow> ('v, 'q, 'f) nheap
    \<Rightarrow> (('v, 'q) image_vendor_error, ('r, 'q) image_registry) res" where
  "image_vendor_from_node connect r h =
     bindR (map_err OVContext (validate_keys [''uri''] (cell h r))) (\<lambda>_.
     bindR (ok_or (OVField ''uri'' ''string'') (maybe_string r ''uri'' h)) (\<lambda>uri.
     ok_or OVOci (connect uri)))"

text \<open>As the resolver sees it, with the errors rendered.\<close>

definition image_vendor :: "(('v, 'q) image_vendor_error \<Rightarrow> string) \<Rightarrow> ('v, 'q, 'f) crates \<Rightarrow> ('u, 'r) tools \<Rightarrow> ('r, 'q) image_registry
    \<Rightarrow> ('v, 'q, 'f) vendor" where
  "image_vendor text L T G =
     \<lparr>vd_options = (\<lambda>name. map_err (\<lambda>e. RImplementation (text e)) (image_options L G name)),
      vd_resolve = (\<lambda>name v h. let (r, h') = image_resolve L T G name v h in (map_err (\<lambda>e. RImplementation (text e)) r, h')),
      vd_deps = (\<lambda>name v. map_err (\<lambda>e. RImplementation (text e)) (image_dependencies L T G name v))\<rparr>"

section \<open>What it resolves to\<close>

lemma find_index_index: "find_index L T G name v = Some (uri, ms) \<Longrightarrow> index_manifests T uri = Some ms"
  by (auto simp: find_index_def split: option.splits)

lemma merge_requires_distinct:
  assumes "distinct (map fst rs)" and "fst ` set rs \<inter> fst ` set found = {}"
  shows "merge_requires G rs found = found @ rs"
  using assms
proof (induction G rs found rule: merge_requires.induct)
  case (2 G name req rs found)
  then have "map_of found name = None" by (auto simp: map_of_eq_None_iff)
  with 2 show ?case by auto
qed simp





section \<open>Properties\<close>






text \<open>The merge of repeated requirements is never used: a sorted map has each name once.\<close>

lemma image_dependencies_read:
  assumes "get_artifact_config L T G name v = Ok (Some rq)" and "map_of rq ''depends'' = Some d" and "distinct (map fst d)"
  shows "image_dependencies L T G name v = Ok (Some d)"
  using assms merge_requires_distinct [of d "[]"] by (simp add: image_dependencies_def)

end
