(* ===== verification/Core.thy ===== *)
theory Core
  imports Transforms Container Image_Vendor Project
begin

text \<open>
  The built-in components as a context sees them: \<open>register_core\<close> (\<open>crates/core/src/lib.rs\<close>) enters their
  constructors into the registry, under the kinds that definitions name. The S3 backend is entered
  with the constructor given as a parameter, as the local one is in theory \<open>Build_Context\<close>; the texts of
  errors are parameters.
\<close>

section \<open>Components\<close>

datatype ('u, 'r, 'q) core_component = LocalFarm | ContainerFarm "('u, 'r) core_source container_farm" | SourceC "('u, 'r) core_source"
  | TransformC "('u, 'r) core_source core_transform" | VendorC "('r, 'q) image_registry"

record ('v, 'q) texts =
  tx_source :: "('v, 'q) context_error source_impl_error \<Rightarrow> string"
  tx_transform :: "('v, 'q) context_error transform_impl_error \<Rightarrow> string"
  tx_env :: "unit container_error env_error \<Rightarrow> string"
  tx_context :: "('v, 'q) context_error \<Rightarrow> string"
  tx_vendor :: "('v, 'q) image_vendor_error \<Rightarrow> string"

text \<open>\<open>non_configurable!\<close>: \<open>Definable::new\<close> with a configuration that is never read.\<close>

definition plain_new :: "(nat \<Rightarrow> ('e, 'm) res) \<Rightarrow> config_map \<Rightarrow> nat \<Rightarrow> ('v, 'q, 'f) nheap \<Rightarrow> ('e, 'm) res" where
  "plain_new from_node c r h = definable_new ''noop'' (\<lambda>_. Ok ()) from_node (\<lambda>_ m. Ok m) () c r h"

lemma plain_new [simp]: "plain_new f c r h = f r"
  by (cases "f r") (simp_all add: plain_new_def definable_new_def split: option.split)

definition new_source :: "('v, 'q) texts \<Rightarrow> ('e \<Rightarrow> ('v, 'q) context_error source_impl_error) \<Rightarrow> ('m \<Rightarrow> ('u, 'r) core_source)
    \<Rightarrow> (nat \<Rightarrow> ('v, 'q, 'f) nheap \<Rightarrow> ('e, 'm) res) \<Rightarrow> (('u, 'r, 'q) core_component, 'v, 'q, 'f) handler" where
  "new_source X err con from_node a r h c =
     map_err (\<lambda>e. CComponent (tx_source X (err e))) (bindR (plain_new (\<lambda>r. from_node r h) c r h) (\<lambda>m. Ok (SourceC (con m))))"

text \<open>\<open>Context::add_source\<close>; the registry has sources under its source kinds only, so the last case does not arise.\<close>

definition source_of :: "('u, 'r, 'q) core_component \<Rightarrow> ('e, ('u, 'r) core_source) res" where
  "source_of k = (case k of SourceC s \<Rightarrow> Ok s | _ \<Rightarrow> Inl Panic)"

definition ask_source :: "(('u, 'r, 'q) core_component, 'v, 'q, 'f) handler \<Rightarrow> addr \<Rightarrow> ('v, 'q, 'f) nheap \<Rightarrow> config_map \<Rightarrow> nat
    \<Rightarrow> (('v, 'q) context_error, ('u, 'r) core_source) res" where
  "ask_source ask a h c n = bindR (ask a n h c) source_of"

definition new_transform :: "('v, 'q) texts \<Rightarrow> (('u, 'r, 'q) core_component, 'v, 'q, 'f) handler \<Rightarrow> ('m \<Rightarrow> ('u, 'r) core_source core_transform)
    \<Rightarrow> ((nat \<Rightarrow> (('v, 'q) context_error, ('u, 'r) core_source) res) \<Rightarrow> addr \<Rightarrow> nat \<Rightarrow> ('v, 'q, 'f) nheap
      \<Rightarrow> (('v, 'q) context_error transform_impl_error, 'm) res) \<Rightarrow> (('u, 'r, 'q) core_component, 'v, 'q, 'f) handler" where
  "new_transform X ask con from_node a r h c =
     map_err (\<lambda>e. CComponent (tx_transform X e))
       (bindR (plain_new (\<lambda>r. from_node (ask_source ask a h c) a r h) c r h) (\<lambda>m. Ok (TransformC (con m))))"

definition new_local_farm :: "(('u, 'r, 'q) core_component, 'v, 'q, 'f) handler" where
  "new_local_farm a r h c = plain_new (\<lambda>_. Ok LocalFarm) c r h"

definition new_container_farm :: "'g processes \<Rightarrow> ('v, 'q) texts \<Rightarrow> (('u, 'r, 'q) core_component, 'v, 'q, 'f) handler
    \<Rightarrow> (('u, 'r, 'q) core_component, 'v, 'q, 'f) handler" where
  "new_container_farm P X ask a r h c =
     map_err (\<lambda>e. CEnvironment (tx_env X e))
       (bindR (definable_new ''container'' (\<lambda>n. container_config_from_node n h)
                 (\<lambda>r. container_farm_from_node (ask_source ask a h c) (tx_context X) a r h)
                 (container_set_config P) config_default c r h) (\<lambda>F. Ok (ContainerFarm F)))"

definition new_image_vendor :: "('v, 'q) texts \<Rightarrow> (string \<Rightarrow> ('r, 'q) image_registry option) \<Rightarrow> (('u, 'r, 'q) core_component, 'v, 'q, 'f) handler" where
  "new_image_vendor X connect a r h c =
     map_err (\<lambda>e. CComponent (tx_vendor X e)) (bindR (plain_new (\<lambda>r. image_vendor_from_node connect r h) c r h) (\<lambda>G. Ok (VendorC G)))"

section \<open>Registration\<close>

definition register_sources :: "('u, 'r) tools \<Rightarrow> ('v, 'q) texts \<Rightarrow> (('u, 'r, 'q) core_component, 'v, 'q, 'f) registry
    \<Rightarrow> (('u, 'r, 'q) core_component, 'v, 'q, 'f) registry" where
  "register_sources T X R =
     register_source ''vendor'' (new_source X IVendor VendorSource vendor_from_node)
    (register_source ''remote'' (new_source X IRemote RemoteSource (remote_from_node T))
    (register_source ''image'' (new_source X IImage ImageSource (image_from_node T))
    (register_source ''local'' (new_source X ILocal LocalSource local_source_from_node)
    (register_source ''git'' (new_source X IGit GitSource git_from_node) R))))"

definition register_core :: "('u, 'r) tools \<Rightarrow> 'g processes \<Rightarrow> ('v, 'q) texts \<Rightarrow> (string \<Rightarrow> ('r, 'q) image_registry option)
    \<Rightarrow> (nat, 'v, 'q, 'f) handler \<Rightarrow> (string \<times> string) list \<Rightarrow> (('u, 'r, 'q) core_component, 'v, 'q, 'f) registry
    \<Rightarrow> (('u, 'r, 'q) core_component, 'v, 'q, 'f) registry" where
  "register_core T P X connect new_s3 args R =
     (let ask = registry_source (register_sources T X R)
      in register_vendor ''image'' (new_image_vendor X connect)
        (register_transform ''go-vendor'' (new_transform X ask GoVendorTransform go_from_node)
        (register_transform ''cargo-vendor'' (new_transform X ask CargoVendorTransform cargo_from_node)
        (register_transform ''script'' (new_transform X ask ScriptTransform (script_from_node args))
        (register_transform ''import'' (new_transform X ask ImportTransform import_from_node)
        (register_transform ''compose'' (new_transform X ask ComposeTransform (\<lambda>_. compose_from_node args))
        (register_sources T X
        (register_farm ''container'' (new_container_farm P X ask)
        (register_farm ''local'' new_local_farm
        (register_backend ''s3'' new_s3 R))))))))))"

section \<open>What the registry provides\<close>

lemma register_sources_tables:
  "rg_sources (register_sources T X R) = bt_insert ''vendor'' (new_source X IVendor VendorSource vendor_from_node)
    (bt_insert ''remote'' (new_source X IRemote RemoteSource (remote_from_node T))
    (bt_insert ''image'' (new_source X IImage ImageSource (image_from_node T))
    (bt_insert ''local'' (new_source X ILocal LocalSource local_source_from_node)
    (bt_insert ''git'' (new_source X IGit GitSource git_from_node) (rg_sources R)))))"
  "rg_backends (register_sources T X R) = rg_backends R" "rg_farms (register_sources T X R) = rg_farms R"
  "rg_transforms (register_sources T X R) = rg_transforms R" "rg_vendors (register_sources T X R) = rg_vendors R"
  by (simp_all add: register_sources_def register_source_def)

lemmas register_defs = register_core_def Let_def register_vendor_def register_transform_def register_farm_def register_backend_def
  register_sources_tables registry_default_def

abbreviation core_ask :: "('u, 'r) tools \<Rightarrow> ('v, 'q) texts \<Rightarrow> (('u, 'r, 'q) core_component, 'v, 'q, 'f) handler" where
  "core_ask T X \<equiv> registry_source (register_sources T X registry_default)"

lemma core_source_kinds:
  assumes "get_kind (cell h r) = Some k"
  shows "core_ask T X a r h c =
    (if k = ''git'' then new_source X IGit GitSource git_from_node a r h c
     else if k = ''local'' then new_source X ILocal LocalSource local_source_from_node a r h c
     else if k = ''image'' then new_source X IImage ImageSource (image_from_node T) a r h c
     else if k = ''remote'' then new_source X IRemote RemoteSource (remote_from_node T) a r h c
     else if k = ''vendor'' then new_source X IVendor VendorSource vendor_from_node a r h c
     else Fail (CNoProvider ''source'' k))"
  by (simp add: registry_source_def provide_run [OF assms] register_sources_tables registry_default_def)

lemma core_transform_kinds:
  assumes "get_kind (cell h r) = Some k"
  shows "registry_transform (register_core T P X connect new_s3 args registry_default) a r h c =
    (if k = ''compose'' then new_transform X (core_ask T X) ComposeTransform (\<lambda>_. compose_from_node args) a r h c
     else if k = ''import'' then new_transform X (core_ask T X) ImportTransform import_from_node a r h c
     else if k = ''script'' then new_transform X (core_ask T X) ScriptTransform (script_from_node args) a r h c
     else if k = ''cargo-vendor'' then new_transform X (core_ask T X) CargoVendorTransform cargo_from_node a r h c
     else if k = ''go-vendor'' then new_transform X (core_ask T X) GoVendorTransform go_from_node a r h c
     else Fail (CNoProvider ''transform'' k))"
  by (simp add: registry_transform_def provide_run [OF assms] register_defs)

lemma core_farm_kinds:
  assumes "get_kind (cell h r) = Some k"
  shows "registry_farm (register_core T P X connect new_s3 args registry_default) a r h c =
    (if k = ''local'' then new_local_farm a r h c
     else if k = ''container'' then new_container_farm P X (core_ask T X) a r h c
     else Fail (CNoProvider ''environment'' k))"
  by (simp add: registry_farm_def provide_run [OF assms] register_defs)

text \<open>Sources are asked for under source kinds, so they are sources.\<close>

lemma new_source_typed: "new_source X err con from_node a r h c = Ok k \<Longrightarrow> \<exists>s. k = SourceC s"
  by (auto simp: new_source_def map_err_eq_Ok bindR_eq_Ok)

lemma ask_source_typed: "core_ask T X a r h c = Ok k \<Longrightarrow> \<exists>s. k = SourceC s"
proof -
  assume ok: "core_ask T X a r h c = Ok k"
  show ?thesis
  proof (cases "get_kind (cell h r)")
    case None
    then show ?thesis using ok by (simp add: registry_source_def provide_def)
  next
    case (Some kind)
    then show ?thesis using ok by (auto simp: core_source_kinds dest: new_source_typed split: if_splits)
  qed
qed

text \<open>The registry of a session right after \<open>register_core\<close>.\<close>

definition core_registry :: "('u, 'r) tools \<Rightarrow> 'g processes \<Rightarrow> ('v, 'q) texts \<Rightarrow> (string \<Rightarrow> ('r, 'q) image_registry option)
    \<Rightarrow> (nat, 'v, 'q, 'f) handler \<Rightarrow> (string \<times> string) list \<Rightarrow> (('u, 'r, 'q) core_component, 'v, 'q, 'f) registry" where
  "core_registry T P X connect new_s3 args = register_core T P X connect new_s3 args registry_default"

lemma core_registry_source: "registry_source (core_registry T P X connect new_s3 args) = core_ask T X"
  by (simp add: core_registry_def registry_source_def register_defs)

section \<open>Properties\<close>

text \<open>C35: what the kind of a definition selects once the built-in components are registered: each kind of source, transform,
  environment, vendor and backend is built by its own constructor, whatever the same name means for
  another sort of component, and every other kind is refused for want of a provider. Transforms and
  container environments build the sources they name with the source constructors.\<close>

theorem core_kinds_complete:
  assumes "get_kind (cell h r) = Some k"
  shows "registry_source (core_registry T P X connect new_s3 args) a r h c =
      (if k = ''git'' then new_source X IGit GitSource git_from_node a r h c
       else if k = ''local'' then new_source X ILocal LocalSource local_source_from_node a r h c
       else if k = ''image'' then new_source X IImage ImageSource (image_from_node T) a r h c
       else if k = ''remote'' then new_source X IRemote RemoteSource (remote_from_node T) a r h c
       else if k = ''vendor'' then new_source X IVendor VendorSource vendor_from_node a r h c
       else Fail (CNoProvider ''source'' k))
    \<and> registry_transform (core_registry T P X connect new_s3 args) a r h c =
      (let ask = registry_source (core_registry T P X connect new_s3 args)
       in if k = ''compose'' then new_transform X ask ComposeTransform (\<lambda>_. compose_from_node args) a r h c
          else if k = ''import'' then new_transform X ask ImportTransform import_from_node a r h c
          else if k = ''script'' then new_transform X ask ScriptTransform (script_from_node args) a r h c
          else if k = ''cargo-vendor'' then new_transform X ask CargoVendorTransform cargo_from_node a r h c
          else if k = ''go-vendor'' then new_transform X ask GoVendorTransform go_from_node a r h c
          else Fail (CNoProvider ''transform'' k))
    \<and> registry_farm (core_registry T P X connect new_s3 args) a r h c =
      (if k = ''local'' then new_local_farm a r h c
       else if k = ''container''
       then new_container_farm P X (registry_source (core_registry T P X connect new_s3 args)) a r h c
       else Fail (CNoProvider ''environment'' k))
    \<and> registry_vendor (core_registry T P X connect new_s3 args) a r h c =
      (if k = ''image'' then new_image_vendor X connect a r h c else Fail (CNoProvider ''vendor'' k))
    \<and> registry_backend (core_registry T P X connect new_s3 args) a r h c =
      (if k = ''s3'' then new_s3 a r h c else Fail (CNoProvider ''backend'' k))"
proof (intro conjI)
  let ?R = "core_registry T P X connect new_s3 args"
  show "registry_vendor ?R a r h c = (if k = ''image'' then new_image_vendor X connect a r h c else Fail (CNoProvider ''vendor'' k))"
    "registry_backend ?R a r h c = (if k = ''s3'' then new_s3 a r h c else Fail (CNoProvider ''backend'' k))"
    by (simp_all add: core_registry_def registry_vendor_def registry_backend_def provide_run [OF assms] register_defs)
qed (simp_all only: core_registry_source core_source_kinds [OF assms] Let_def core_registry_def [symmetric]
    core_transform_kinds [OF assms, folded core_registry_def] core_farm_kinds [OF assms, folded core_registry_def])

definition test_texts :: "(nat, unit) texts" where
  "test_texts = \<lparr>tx_source = (\<lambda>_. ''source''), tx_transform = (\<lambda>_. ''transform''), tx_env = (\<lambda>_. ''env''), tx_context = (\<lambda>_. ''context''),
     tx_vendor = (\<lambda>_. ''vendor'')\<rparr>"

abbreviation test_core :: "((string, string, unit) core_component, nat, unit, unit) registry" where
  "test_core \<equiv> core_registry test_tools test_processes test_texts (\<lambda>_. None) (\<lambda>a r h c. Ok 0) []"

definition test_nodes :: "(nat, unit, unit) nheap" where
  "test_nodes = \<lparr>cell = (\<lambda>n. if n = 0 then DDefinition ''environment'' ''container'' ''box'' [(''source'', 1)]
     else DDefinition ''source'' ''image'' ''base'' []), next_ref = 2\<rparr>"

theorem core_kinds_complete_witness:
  "registry_source test_core (Addr []) 0 test_nodes [] = Fail (CNoProvider ''source'' ''container'')
   \<and> registry_farm test_core (Addr []) 0 test_nodes [] = new_container_farm test_processes test_texts (registry_source test_core) (Addr []) 0 test_nodes []
   \<and> registry_source test_core (Addr []) 1 test_nodes [] = new_source test_texts IImage ImageSource (image_from_node test_tools) (Addr []) 1 test_nodes []"
  using core_kinds_complete [of test_nodes 0 "''container''" test_tools test_processes test_texts "\<lambda>_. None" "\<lambda>a r h c. Ok 0" "[]" "Addr []" "[]"]
    core_kinds_complete [of test_nodes 1 "''image''" test_tools test_processes test_texts "\<lambda>_. None" "\<lambda>a r h c. Ok 0" "[]" "Addr []" "[]"]
  by (simp add: test_nodes_def get_kind_def)

text \<open>an environment of kind \<open>container\<close> must list its source: when the project names a single source as a string, which
  the loader accepts and links, adding the environment crashes. The transforms that list sources report
  an error there, and \<open>go-vendor\<close>, which takes a single one, reports an error for a list.\<close>

lemma single_source_crashes:
  assumes "cx_registry (se_ctx s) = core_registry T P X connect new_s3 args"
    and "node_lookup r ''source'' (se_heap s) = Some n" and "as_list (cell (se_heap s) n) = None"
  shows "(get_kind (cell (se_heap s) r) = Some ''container'' \<longrightarrow> add_farm a r s = (Inl Panic, s))
    \<and> (get_kind (cell (se_heap s) r) = Some ''import'' \<longrightarrow>
        add_transform a r s = (Fail (CComponent (tx_transform X (TIField ''source'' ''source definition''))), s))"
proof (intro conjI impI)
  assume k: "get_kind (cell (se_heap s) r) = Some ''container''"
  have "registry_farm (core_registry T P X connect new_s3 args) a r (se_heap s) c = Inl Panic" for c
    unfolding core_registry_def core_farm_kinds [OF k] using assms(2,3)
    by (simp add: new_container_farm_def definable_new_def container_config_from_node_def container_farm_from_node_def split: option.split)
  then show "add_farm a r s = (Inl Panic, s)" by (simp add: add_farm_def construct_def assms(1) bindS_def)
next
  assume k: "get_kind (cell (se_heap s) r) = Some ''import''"
  have "registry_transform (core_registry T P X connect new_s3 args) a r (se_heap s) c
      = Fail (CComponent (tx_transform X (TIField ''source'' ''source definition'')))" for c
    unfolding core_registry_def core_transform_kinds [OF k] using assms(2,3)
    by (simp add: new_transform_def import_from_node_def parse_sources_def parse_sources_with_name_def ok_or_def)
  then show "add_transform a r s = (Fail (CComponent (tx_transform X (TIField ''source'' ''source definition''))), s)"
    by (simp add: add_transform_def construct_def assms(1) bindS_def)
qed

definition test_session :: "((string, string, unit) core_component, nat, unit, unit) session" where
  "test_session = \<lparr>se_heap = test_nodes, se_ctx = \<lparr>cx_config = [], cx_storage = test_cache, cx_registry = test_core, cx_transforms = [],
     cx_farms = [], cx_args = []\<rparr>\<rparr>"

lemma single_source_crashes_witness: "add_farm (Addr [''e'']) 0 test_session = (Inl Panic, test_session)"
  using single_source_crashes [of test_session test_tools test_processes test_texts "\<lambda>_. None" "\<lambda>a r h c. Ok 0" "[]" 0 1 "Addr [''e'']"]
  by (simp add: test_session_def test_nodes_def node_lookup_def accessor_defs)

end
