(* ===== verification/Readers.thy ===== *)
theory Readers
  imports Effects
begin

text \<open>
  Reading streams: the reader that hashes what passes through it (\<open>crates/edo/src/util/reader.rs\<close>) and the adapters that
  poll an asynchronous computation in a loop until it is ready (\<open>crates/edo/src/util/sync.rs\<close>).

  A stream is a parameter: polled with room for some bytes, it is pending, fails, or gives bytes. The loops may run forever, so they are partial functions.
\<close>

section \<open>Polling\<close>

datatype 'a poll = PPending | PReady 'a

type_synonym ('s, 'e) stream = "nat \<Rightarrow> 's \<Rightarrow> ('e, string) res poll \<times> 's"

text \<open>\<open>sync\<close> and \<open>sync_fn\<close>: with a waker that does nothing, the computation is polled again at once.\<close>

partial_function (option) spin :: "('s \<Rightarrow> 'a poll \<times> 's) \<Rightarrow> 's \<Rightarrow> ('a \<times> 's) option" where
  "spin poll s =
     (let p = poll s
      in case fst p of
           PReady x \<Rightarrow> Some (x, snd p)
         | PPending \<Rightarrow> spin poll (snd p))"

definition read_sync :: "('s, 'e) stream \<Rightarrow> nat \<Rightarrow> 's \<Rightarrow> (('e, string) res \<times> 's) option" where
  "read_sync src n s = spin (src n) s"

section \<open>The hashing reader\<close>

record 's reader =
  rd_inner :: 's
  rd_hashed :: string
  rd_pos :: nat

definition hashing :: "'s \<Rightarrow> 's reader" where
  "hashing s = \<lparr>rd_inner = s, rd_hashed = [], rd_pos = 0\<rparr>"

definition reader_finish :: "(string \<Rightarrow> string) \<Rightarrow> 's reader \<Rightarrow> string" where
  "reader_finish hash r = hash (rd_hashed r)"

text \<open>\<open>Read::read\<close>, which blocks.\<close>

definition reader_read :: "('s, 'e) stream \<Rightarrow> nat \<Rightarrow> 's reader \<Rightarrow> (('e, string) res \<times> 's reader) option" where
  "reader_read src n r = map_option (\<lambda>(x, s). (x, r\<lparr>rd_inner := s\<rparr>)) (spin (src n) (rd_inner r))"

text \<open>\<open>AsyncRead::poll_read\<close> into a buffer of \<open>room\<close> bytes of which \<open>filled\<close> are taken; the result has the filled part.\<close>

definition reader_poll :: "('s, 'e) stream \<Rightarrow> nat \<Rightarrow> string \<Rightarrow> 's reader \<Rightarrow> ('e, string) res poll \<times> 's reader" where
  "reader_poll src room filled r =
     (case src (room - length filled) (rd_inner r) of
        (PReady (Inr x), s) \<Rightarrow>
          (let segment = filled @ x; r1 = r\<lparr>rd_inner := s\<rparr>
           in (PReady (Ok segment),
               if segment = [] then r1 else r1\<lparr>rd_pos := rd_pos r + length segment, rd_hashed := rd_hashed r @ segment\<rparr>))
      | (p, s) \<Rightarrow> (p, r\<lparr>rd_inner := s\<rparr>))"

section \<open>How long a loop runs\<close>

text \<open>The state after \<open>n\<close> polls that were all pending.\<close>

fun pends :: "('s \<Rightarrow> 'a poll \<times> 's) \<Rightarrow> nat \<Rightarrow> 's \<Rightarrow> 's option" where
  "pends poll 0 s = Some s"
| "pends poll (Suc n) s = (case poll s of (PPending, t) \<Rightarrow> pends poll n t | (PReady _, _) \<Rightarrow> None)"

lemma spin_step:
  "poll s = (PReady x, t) \<Longrightarrow> spin poll s = Some (x, t)"
  "poll s = (PPending, t) \<Longrightarrow> spin poll s = spin poll t"
  by (subst spin.simps, simp add: Let_def)+

lemma spin_ready: "pends poll n s = Some t \<Longrightarrow> poll t = (PReady x, u) \<Longrightarrow> spin poll s = Some (x, u)"
proof (induction n arbitrary: s)
  case (Suc n)
  then obtain s1 where "poll s = (PPending, s1)" "pends poll n s1 = Some t" by (auto split: prod.splits poll.splits)
  with Suc show ?case by (simp add: spin_step)
qed (simp add: spin_step)

lemma spin_ended:
  fixes poll :: "'s \<Rightarrow> 'a poll \<times> 's"
  assumes "spin poll s = Some y"
  shows "\<exists>n t. pends poll n s = Some t \<and> poll t = (PReady (fst y), snd y)"
proof (rule spin.raw_induct [where P = "\<lambda>poll s y. \<exists>n t. pends poll n s = Some t \<and> poll t = (PReady (fst y), snd y)", OF _ assms])
  fix loop and poll :: "'s \<Rightarrow> 'a poll \<times> 's" and s y
  assume IH: "\<And>poll s y. loop poll s = Some y \<Longrightarrow> \<exists>n t. pends poll n s = Some t \<and> poll t = (PReady (fst y), snd y)"
    and step: "(let p = poll s in case fst p of PPending \<Rightarrow> loop poll (snd p) | PReady x \<Rightarrow> Some (x, snd p)) = Some y"
  obtain p t where pt: "poll s = (p, t)" by (cases "poll s")
  show "\<exists>n t. pends poll n s = Some t \<and> poll t = (PReady (fst y), snd y)"
  proof (cases p)
    case PPending
    then have "loop poll t = Some y" using step pt by (simp add: Let_def)
    from IH [OF this] obtain n u where "pends poll n t = Some u" "poll u = (PReady (fst y), snd y)" by blast
    then show ?thesis using pt PPending by (intro exI [of _ "Suc n"] exI [of _ u]) simp
  next
    case (PReady x)
    then show ?thesis using step pt by (intro exI [of _ 0] exI [of _ s]) (auto simp: Let_def)
  qed
qed

section \<open>What a reader hashes\<close>

text \<open>Any sequence of polls, each with a buffer of some size that has some bytes in it already; of each poll that is ready,
  what the buffer held before and the bytes that the poll added to it.\<close>

fun reader_polls :: "('s, 'e) stream \<Rightarrow> (nat \<times> string) list \<Rightarrow> 's reader \<Rightarrow> (string \<times> string) list \<times> 's reader" where
  "reader_polls src [] r = ([], r)"
| "reader_polls src ((room, filled) # bufs) r =
     (case reader_poll src room filled r of
        (PReady (Inr segment), r1) \<Rightarrow> (let (ds, r2) = reader_polls src bufs r1 in ((filled, drop (length filled) segment) # ds, r2))
      | (_, r1) \<Rightarrow> reader_polls src bufs r1)"

text \<open>A poll that is pending or fails is not hashed; one that is ready is hashed with all that its buffer holds.\<close>

lemma reader_poll_cases:
  assumes "reader_poll src room filled r = (p, r1)"
  obtains x where "p = PReady (Ok (filled @ x))" and "rd_hashed r1 = rd_hashed r @ filled @ x" and "rd_pos r1 = rd_pos r + length (filled @ x)"
  | "\<nexists>x. p = PReady (Inr x)" and "rd_hashed r1 = rd_hashed r" and "rd_pos r1 = rd_pos r"
  using assms by (auto simp: reader_poll_def Let_def split: prod.splits poll.splits sum.splits if_splits)

lemma reader_polls_hashed:
  "reader_polls src bufs r = (ds, r') \<Longrightarrow>
   rd_hashed r' = rd_hashed r @ concat (map (\<lambda>(filled, x). filled @ x) ds)
   \<and> rd_pos r' = rd_pos r + length (concat (map (\<lambda>(filled, x). filled @ x) ds))"
proof (induction bufs arbitrary: r ds)
  case (Cons b bufs)
  obtain room filled where b: "b = (room, filled)" by (cases b)
  obtain p r1 where p: "reader_poll src room filled r = (p, r1)" by (cases "reader_poll src room filled r")
  obtain ds1 where ds1: "reader_polls src bufs r1 = (ds1, r')" using Cons.prems
    by (auto simp: b p Let_def split: prod.splits poll.splits sum.splits)
  from p show ?case
  proof (cases rule: reader_poll_cases)
    case (1 x)
    then have "ds = (filled, x) # ds1" using Cons.prems by (simp add: b p ds1)
    then show ?thesis using Cons.IH [OF ds1] 1 by simp
  next
    case 2
    then have "ds = ds1" using Cons.prems ds1 by (auto simp: b p split: poll.splits sum.splits)
    then show ?thesis using Cons.IH [OF ds1] 2 by simp
  qed
qed simp

lemma length_refilled: "length (concat (map (\<lambda>(f, x). f @ x) ds)) = length (concat (map snd ds)) + length (concat (map fst ds))"
  by (induction ds) auto

lemma nothing_refilled: "concat (map fst ds) = [] \<Longrightarrow> concat (map (\<lambda>(f, x). f @ x) ds) = concat (map snd ds)"
  by (induction ds) auto

text \<open>The blocking read passes the bytes by the hash.\<close>

lemma blocking_read_not_hashed: "reader_read src n r = Some (x, r') \<Longrightarrow> rd_hashed r' = rd_hashed r"
  by (auto simp: reader_read_def)

section \<open>Properties\<close>

text \<open>C40: what the digest of a reader covers, over any sequence of polls into buffers of any sizes that may hold bytes already,
  and whatever polls are pending or fail: of each poll that is ready the whole buffer, in order, so the position is too large by the bytes that
  the buffers held before; and the hashed bytes are the bytes that the stream delivered exactly when each of these buffers was
  empty. A caller that tops up a partly filled buffer gets another digest.\<close>

theorem reader_digest:
  fixes src :: "('s, 'e) stream"
  defines "polls \<equiv> \<lambda>bufs s. reader_polls src bufs (hashing s)"
  shows "reader_finish hash (snd (polls bufs s)) = hash (concat (map (\<lambda>(filled, x). filled @ x) (fst (polls bufs s))))
    \<and> rd_pos (snd (polls bufs s)) = length (concat (map snd (fst (polls bufs s)))) + length (concat (map fst (fst (polls bufs s))))
    \<and> (rd_hashed (snd (polls bufs s)) = concat (map snd (fst (polls bufs s))) \<longleftrightarrow> concat (map fst (fst (polls bufs s))) = [])"
proof -
  obtain ds r where d: "reader_polls src bufs (hashing s) = (ds, r)" by (cases "reader_polls src bufs (hashing s)")
  from reader_polls_hashed [OF d] have h: "rd_hashed r = concat (map (\<lambda>(filled, x). filled @ x) ds)" "rd_pos r = length (rd_hashed r)"
    by (simp_all add: hashing_def)
  moreover have "rd_hashed r = concat (map snd ds) \<longleftrightarrow> concat (map fst ds) = []"
    using nothing_refilled [of ds] length_refilled [of ds] h(1) by (metis add_cancel_right_right length_0_conv)
  ultimately show ?thesis by (simp add: polls_def d reader_finish_def length_refilled)
qed

end
