(* ===== verification/Logs.thy ===== *)
theory Logs
  imports File_Copy Config_Node
begin

text \<open>
  The log files of a session: the log manager (\<open>crates/edo/src/context/logmgr.rs\<close>), which owns a directory, and the
  log of one task (\<open>crates/edo/src/context/log.rs\<close>), a file that is only appended to.

  The console output that \<open>logmgr.rs\<close> formats with the \<open>tracing\<close> crates is left out: whether the subscriber could
  be installed is a parameter.
\<close>

section \<open>Directories\<close>

type_synonym ('v, 'q, 'a) file_action = "(fs, ('v, 'q) context_error, 'a) action"

definition dirs_or_io :: "string list \<Rightarrow> ('v, 'q, unit) file_action" where
  "dirs_or_io p F = (case make_dirs p F of None \<Rightarrow> (Fail CIo, F) | Some F1 \<Rightarrow> (Ok (), F1))"

definition ensure_dir :: "host \<Rightarrow> string \<Rightarrow> ('v, 'q, unit) file_action" where
  "ensure_dir H path F =
     (let p = path_steps H path in if F (resolve_steps p) = None then dirs_or_io p F else (Ok (), F))"

text \<open>\<open>remove_dir_all\<close>.\<close>

definition remove_dir :: "string list \<Rightarrow> ('v, 'q, unit) file_action" where
  "remove_dir p F = (if F p = Some Dir then (Ok (), remove_tree p F) else (Fail CIo, F))"

section \<open>The manager\<close>

definition log_init :: "host \<Rightarrow> bool \<Rightarrow> string \<Rightarrow> ('v, 'q, string) file_action" where
  "log_init H subscriber path =
     bindS (getS (\<lambda>F. F (resolve_path H path))) (\<lambda>there.
     bindS (if there = None then returnS () else remove_dir (resolve_path H path)) (\<lambda>_.
     bindS (dirs_or_io (path_steps H path)) (\<lambda>_.
     liftS (if subscriber then Ok path else Fail CLog))))"

definition log_clear :: "host \<Rightarrow> string \<Rightarrow> ('v, 'q, unit) file_action" where
  "log_clear H path = bindS (remove_dir (resolve_path H path)) (\<lambda>_. dirs_or_io (path_steps H path))"

section \<open>A log\<close>

text \<open>The open file is known by its path; text written after the file was removed is lost with it.\<close>

record log =
  lg_path :: "string list"
  lg_subject :: string

definition log_new :: "host \<Rightarrow> string \<Rightarrow> ('v, 'q, log) file_action" where
  "log_new H path F =
     (let p = resolve_path H path; l = \<lparr>lg_path = p, lg_subject = ''general''\<rparr>
      in case F p of
           Some Dir \<Rightarrow> (Fail CIo, F)
         | Some (fs_node.File _) \<Rightarrow> (Ok l, F)
         | None \<Rightarrow> if p \<noteq> [] \<and> F (butlast p) = Some Dir then (Ok l, F(p \<mapsto> fs_node.File [])) else (Fail CIo, F))"

definition log_create :: "host \<Rightarrow> string \<Rightarrow> string \<Rightarrow> ('v, 'q, log) file_action" where
  "log_create H path i = log_new H (path_join path (i @ ''.log''))"

definition log_write :: "string \<Rightarrow> log \<Rightarrow> ('v, 'q, nat) file_action" where
  "log_write buf l F =
     (Ok (length buf), case F (lg_path l) of Some (fs_node.File x) \<Rightarrow> F(lg_path l \<mapsto> fs_node.File (x @ buf)) | _ \<Rightarrow> F)"

definition NEWLINE :: string where
  "NEWLINE = [CHR 0x0A]"

definition set_subject :: "string \<Rightarrow> log \<Rightarrow> ('v, 'q, log) file_action" where
  "set_subject subject l =
     bindS (log_write (NEWLINE @ ''=== ['' @ subject @ ''] ==='' @ NEWLINE) l) (\<lambda>_. returnS (l\<lparr>lg_subject := subject\<rparr>))"

definition log_record :: "string \<Rightarrow> string \<Rightarrow> log \<Rightarrow> ('v, 'q, log) file_action" where
  "log_record act message l =
     bindS (log_write (NEWLINE @ ''> ['' @ lg_subject l @ '']('' @ act @ ''): '' @ message @ NEWLINE) l) (\<lambda>_. returnS l)"

section \<open>What a log holds\<close>

text \<open>The transcript of what happened to a log, and its text.\<close>

datatype log_event = Subject string | Recorded string string | Output string

fun log_step :: "log_event \<Rightarrow> log \<Rightarrow> ('v, 'q, log) file_action" where
  "log_step (Subject s) l = set_subject s l"
| "log_step (Recorded a m) l = log_record a m l"
| "log_step (Output t) l = bindS (log_write t l) (\<lambda>_. returnS l)"

fun transcript :: "string \<Rightarrow> log_event list \<Rightarrow> string" where
  "transcript s [] = []"
| "transcript s (Subject t # es) = NEWLINE @ ''=== ['' @ t @ ''] ==='' @ NEWLINE @ transcript t es"
| "transcript s (Recorded a m # es) = NEWLINE @ ''> ['' @ s @ '']('' @ a @ ''): '' @ m @ NEWLINE @ transcript s es"
| "transcript s (Output t # es) = t @ transcript s es"

definition file_text :: "fs \<Rightarrow> string list \<Rightarrow> string" where
  "file_text F p = (case F p of Some (fs_node.File x) \<Rightarrow> x | _ \<Rightarrow> [])"

fun subject_after :: "string \<Rightarrow> log_event \<Rightarrow> string" where
  "subject_after s (Subject t) = t"
| "subject_after s _ = s"

lemma transcript_Cons: "transcript s (e # es) = transcript s [e] @ transcript (subject_after s e) es"
  by (cases e) simp_all

lemma log_step_run:
  assumes "F (lg_path l) = Some (fs_node.File x)"
  shows "log_step e l F = (Ok (l\<lparr>lg_subject := subject_after (lg_subject l) e\<rparr>),
    F(lg_path l \<mapsto> fs_node.File (x @ transcript (lg_subject l) [e])))"
  using assms by (cases e) (simp_all add: set_subject_def log_record_def log_write_def bindS_def)

lemma log_steps:
  assumes "F (lg_path l) = Some (fs_node.File x)"
  shows "\<exists>l'. foldS log_step es l F = (Ok l' :: (('v, 'q) context_error, log) res, F(lg_path l \<mapsto> fs_node.File (x @ transcript (lg_subject l) es)))"
  using assms
proof (induction es arbitrary: l x F)
  case Nil
  then show ?case by (simp add: fun_upd_idem)
next
  case (Cons e es)
  let ?y = "x @ transcript (lg_subject l) [e]" and ?l = "l\<lparr>lg_subject := subject_after (lg_subject l) e\<rparr>"
  have "foldS log_step (e # es) l F = (foldS log_step es ?l (F(lg_path l \<mapsto> fs_node.File ?y)) :: (('v, 'q) context_error, log) res \<times> fs)"
    by (simp add: bindS_def log_step_run [where F = F and x = x, OF Cons.prems])
  moreover have "\<exists>l'. foldS log_step es ?l (F(lg_path l \<mapsto> fs_node.File ?y))
      = (Ok l' :: (('v, 'q) context_error, log) res, F(lg_path l \<mapsto> fs_node.File ?y, lg_path l \<mapsto> fs_node.File (?y @ transcript (lg_subject ?l) es)))"
    using Cons.IH [where l = ?l and F = "F(lg_path l \<mapsto> fs_node.File ?y)" and x = ?y] by (simp add: fun_upd_same del: fun_upd_apply)
  ultimately show ?case
    by (simp add: transcript_Cons [of _ e es] del: fun_upd_apply transcript.simps foldS.simps)
qed

section \<open>The directory of the logs\<close>

lemma resolve_no_parent: "''..'' \<notin> set p \<Longrightarrow> resolve_steps p = p"
  by (simp add: resolve_steps_def resolve_plain)

lemma fresh_dir:
  assumes "make_dirs p F = Some F'" and "''..'' \<notin> set p"
  shows "F' p = Some Dir" and "q \<noteq> [] \<Longrightarrow> F' (p @ q) = F (p @ q)"
proof -
  have r: "resolve_steps (take n p) = take n p" for n using assms(2) by (intro resolve_no_parent) (meson in_set_takeD)
  have d: "map resolve_steps (prefixes_of p) = prefixes_of p" unfolding prefixes_of_def map_map comp_def r ..
  have F': "F' = (\<lambda>q. if q \<in> set (prefixes_of p) then Some Dir else F q)"
    using assms(1) by (simp add: make_dirs_def d Let_def split: if_splits)
  have "take (length p) p \<in> set (prefixes_of p)" by (auto simp: prefixes_of_def)
  then show "F' p = Some Dir" by (simp add: F')
  assume "q \<noteq> []"
  then have "p @ q \<notin> set (prefixes_of p)" by (auto simp: prefixes_of_def dest!: arg_cong [where f = length])
  then show "F' (p @ q) = F (p @ q)" by (simp add: F')
qed

text \<open>A session starts with no logs of an earlier one.\<close>

lemma log_init_empties:
  assumes "tree_ok F" and "''..'' \<notin> set (path_steps H path)" and "log_init H subscriber path F = (Inr l, F')"
  shows "F' (resolve_path H path) = Some Dir \<and> (\<forall>q. q \<noteq> [] \<longrightarrow> F' (resolve_path H path @ q) = None)"
proof -
  let ?p = "path_steps H path"
  have p: "resolve_path H path = ?p" using assms(2) by (simp add: resolve_path_def resolve_no_parent)
  from assms(3) obtain F1 where m: "make_dirs ?p F1 = Some F'" and F1: "F1 = (if F ?p = None then F else remove_tree ?p F)"
    by (auto simp: log_init_def p bindS_Ok remove_dir_def dirs_or_io_def split: if_splits option.splits)
  have "F1 (?p @ q) = None" if "q \<noteq> []" for q
  proof (cases "F ?p = None")
    case True
    then show ?thesis using tree_prefix [OF assms(1) _ that] F1 by (metis option.distinct(1))
  next
    case False
    then show ?thesis unfolding F1 by (auto simp: remove_tree_def)
  qed
  then show ?thesis using fresh_dir [OF m assms(2)] by (simp add: p)
qed

section \<open>Properties\<close>

text \<open>C39: a log is an append-only transcript: after any sequence of subject headers, recorded actions and output of processes on a log that
  was opened, its file holds the text that was there before, then the transcript, in which every action is
  attributed to the subject that was set last (\<open>general\<close> at first); no other file changes.\<close>

theorem log_transcript:
  assumes "log_new H path F = (Ok l, F1)"
  shows "\<exists>l'. foldS log_step es l F1
    = (Ok l', F(resolve_path H path \<mapsto> fs_node.File (file_text F (resolve_path H path) @ transcript ''general'' es)))"
proof -
  let ?p = "resolve_path H path"
  have l: "lg_path l = ?p" "lg_subject l = ''general''" "F1 = F(?p \<mapsto> fs_node.File (file_text F ?p))"
    using assms by (auto simp: log_new_def file_text_def Let_def fun_upd_idem split: option.splits fs_node.splits if_splits)
  from log_steps [where F = F1 and l = l and x = "file_text F ?p" and es = es] l show ?thesis by auto
qed

theorem log_transcript_witness:
  "\<exists>l. foldS log_step [Subject ''s'', Recorded ''a'' ''m''] \<lparr>lg_path = [''l''], lg_subject = ''general''\<rparr> [[] \<mapsto> Dir, [''l''] \<mapsto> fs_node.File []]
    = (Ok l :: ((nat, nat) context_error, log) res,
       [[] \<mapsto> Dir, [''l''] \<mapsto> fs_node.File (NEWLINE @ ''=== [s] ==='' @ NEWLINE @ NEWLINE @ ''> [s](a): m'' @ NEWLINE)])"
proof -
  have p: "resolve_path test_host ''/l'' = [''l'']"
    by (simp add: resolve_path_def resolve_steps_def path_steps_def is_absolute_def path_segments_def)
  have "log_new test_host ''/l'' [[] \<mapsto> Dir] = (Ok \<lparr>lg_path = [''l''], lg_subject = ''general''\<rparr> :: ((nat, nat) context_error, log) res,
      [[] \<mapsto> Dir, [''l''] \<mapsto> fs_node.File []])"
    by (simp add: log_new_def p Let_def)
  moreover have "file_text [[] \<mapsto> Dir] [''l''] = []" by (simp add: file_text_def)
  ultimately show ?thesis using log_transcript [of test_host "''/l''" "[[] \<mapsto> Dir]" _ _ "[Subject ''s'', Recorded ''a'' ''m'']"]
    unfolding p by (auto simp del: foldS.simps fun_upd_apply)
qed

end
