(* ===== verification/Command_Line.thy ===== *)
theory Command_Line
  imports Core Logs Scheduler
begin

text \<open>
  A session from its start: \<open>Context::init\<close>, \<open>load_project\<close>, the set-up of the environments and \<open>run\<close> (\<open>crates/edo/src/context/mod.rs\<close>), and the commands of
  the command line (\<open>crates/cli/src\<close>) that are built from them.

  Parsing the command line and printing are left out. Decompressing an archive is a parameter.
\<close>

section \<open>Starting\<close>

record startup =
  su_cwd :: "string option"
  su_subscriber :: bool
  su_home :: bool
  su_config :: "config_map disk_file"

definition DEFAULT_PATH :: string where
  "DEFAULT_PATH = ''.edo''"

text \<open>\<open>Config::load\<close>, with the search for the home directory when no path is given.\<close>

definition load_config :: "startup \<Rightarrow> string option \<Rightarrow> (('v, 'q) context_error, config_map) res" where
  "load_config su config = (if config = None \<and> \<not> su_home su then Fail CHome else config_load (su_config su))"

text \<open>Files and nodes are what starting acts on.\<close>

type_synonym ('v, 'q, 'f, 'a) start_action = "(fs \<times> ('v, 'q, 'f) nheap, ('v, 'q) context_error, 'a) action"

definition on_files :: "('v, 'q, 'a) file_action \<Rightarrow> ('v, 'q, 'f, 'a) start_action" where
  "on_files m s = (let (r, F) = m (fst s) in (r, (F, snd s)))"

definition on_nodes :: "(('v, 'q, 'f) nheap, ('v, 'q) context_error, 'a) action \<Rightarrow> ('v, 'q, 'f, 'a) start_action" where
  "on_nodes m s = (let (r, h) = m (snd s) in (r, (fst s, h)))"

text \<open>\<open>Scheduler::new\<close>, up to the number of workers (\<open>scheduler_workers\<close>).\<close>

definition scheduler_new :: "host \<Rightarrow> string \<Rightarrow> ('v, 'q, 'f, unit) start_action" where
  "scheduler_new H path s =
     (case on_files (ensure_dir H path) s of
        (Inl (Err _), s1) \<Rightarrow> (Fail (CScheduler ''io''), s1)
      | (Inl Panic, s1) \<Rightarrow> (Inl Panic, s1)
      | (Inr u, s1) \<Rightarrow> (Ok u, s1))"

definition config_workers :: "config_map \<Rightarrow> ('v, 'q, 'f) nheap \<Rightarrow> nat" where
  "config_workers c h =
     scheduler_workers (Option.bind (config_get c ''scheduler'') (\<lambda>n. Option.bind (node_lookup n ''workers'' h) (\<lambda>w. as_int (cell h w))))"

text \<open>The log directory is returned with the context.\<close>

definition context_init :: "host \<Rightarrow> startup \<Rightarrow> (nat, 'v, 'q, 'f) handler \<Rightarrow> string option \<Rightarrow> string option \<Rightarrow> (string \<times> string) list
    \<Rightarrow> ('v, 'q, 'f, ('c, 'v, 'q, 'f) ctx \<times> string) start_action" where
  "context_init H su new_local storage config args =
     bindS (liftS (ok_or CIo (su_cwd su))) (\<lambda>project_dir.
     let path = (case storage of Some p \<Rightarrow> p | None \<Rightarrow> path_join project_dir DEFAULT_PATH)
     in bindS (on_files (ensure_dir H path)) (\<lambda>_.
        bindS (on_files (log_init H (su_subscriber su) (path_join path ''logs''))) (\<lambda>logs.
        bindS (liftS (load_config su config)) (\<lambda>cfg.
        bindS (liftS (addr_parse ''//edo-local-cache'')) (\<lambda>a.
        bindS (on_nodes (new_node (DString (path_join path ''storage'')))) (\<lambda>p.
        bindS (on_nodes (new_definition ''storage'' ''local'' ''edo-local-cache'' [(''path'', p)])) (\<lambda>r.
        bindS (getS snd) (\<lambda>h.
        bindS (liftS (new_local a r h cfg)) (\<lambda>b.
        bindS (scheduler_new H (path_join path ''env'')) (\<lambda>_.
        returnS (\<lparr>cx_config = cfg, cx_storage = storage_init b, cx_registry = registry_default,
          cx_transforms = [], cx_farms = [], cx_args = args\<rparr>, logs)))))))))))"

section \<open>Loading the project\<close>

text \<open>What the built-in components need of the world.\<close>

record ('u, 'r, 'v, 'q, 'f, 'g) outside =
  ou_tools :: "('u, 'r) tools"
  ou_processes :: "'g processes"
  ou_texts :: "('v, 'q) texts"
  ou_connect :: "string \<Rightarrow> ('r, 'q) image_registry option"
  ou_new_s3 :: "(nat, 'v, 'q, 'f) handler"

type_synonym ('u, 'r, 'v, 'q, 'f) core_session = "(('u, 'r, 'q) core_component, 'v, 'q, 'f) project_session"

definition default_farm :: "(('c, 'v, 'q, 'f) project_session, ('v, 'q) context_error, unit) action" where
  "default_farm =
     bindS (liftS (addr_parse ''//default'')) (\<lambda>a.
     bindS (on_heap (new_definition ''environment'' ''local'' ''default'' [])) (\<lambda>r. add_farm a r))"

text \<open>\<open>Context::load_project\<close> is \<open>Project::load\<close> on the project directory, whose entries are given.\<close>

definition load_core :: "('v::linorder, 'q, 'f) crates \<Rightarrow> (('u, 'r, 'q) core_component, 'v, 'q, 'f) world \<Rightarrow> ('u, 'r, 'v, 'q, 'f, 'g) outside
    \<Rightarrow> bool \<Rightarrow> 'f entry list \<Rightarrow> (('u, 'r, 'v, 'q, 'f) core_session, ('v, 'q) context_error, unit) action" where
  "load_core L W U locked dir =
     bindS (modifyS (\<lambda>s. s\<lparr>se_ctx := (se_ctx s)\<lparr>cx_registry := register_core (ou_tools U) (ou_processes U) (ou_texts U) (ou_connect U)
       (ou_new_s3 U) (cx_args (se_ctx s)) (cx_registry (se_ctx s))\<rparr>\<rparr>)) (\<lambda>_.
     bindS default_farm (\<lambda>_.
     project_load L W locked dir))"

text \<open>The files, and the session unless it did not start; with the lock file as the load left it.\<close>

definition create_context :: "host \<Rightarrow> startup \<Rightarrow> ('v::linorder, 'q, 'f) crates \<Rightarrow> (('u, 'r, 'q) core_component, 'v, 'q, 'f) world
    \<Rightarrow> ('u, 'r, 'v, 'q, 'f, 'g) outside \<Rightarrow> string option \<Rightarrow> string option \<Rightarrow> (string \<times> string) list \<Rightarrow> bool
    \<Rightarrow> 'f entry list \<Rightarrow> 'f lock_doc disk_file \<Rightarrow> fs \<times> ('v, 'q, 'f) nheap
    \<Rightarrow> (('v, 'q) context_error, string) res \<times> fs \<times> ('u, 'r, 'v, 'q, 'f) core_session option" where
  "create_context H su L W U storage config vars locked dir lockfile s =
     (case context_init H su (wd_new_local W) storage config vars s of
        (Inl e, s1) \<Rightarrow> (Inl e, fst s1, None)
      | (Inr (x, logs), s1) \<Rightarrow>
          (let (r, se) = load_core L W U locked dir \<lparr>se_heap = snd s1, se_ctx = x, ps_lock = lockfile\<rparr>
           in (bindR r (\<lambda>_. Ok logs), fst s1, Some se)))"

section \<open>Running a transform\<close>

text \<open>\<open>Farm::setup\<close> of the built-in farms, with the fresh names it takes. The other components are not farms.\<close>

definition core_farm_setup :: "('u, 'r, 'v, 'q, 'f, 'g) outside \<Rightarrow> host \<Rightarrow> fs \<Rightarrow> nat \<Rightarrow> (nat \<Rightarrow> ('s, 'w, 'i, 'z) backend) \<Rightarrow> storage
    \<Rightarrow> ('e, 'n) environment \<Rightarrow> ('i storage_error \<Rightarrow> string) \<Rightarrow> (('i, 'n, 'c) fetch_error container_error env_error \<Rightarrow> string)
    \<Rightarrow> (string list \<times> string \<times> string) \<times> ('u, 'r, 'q) core_component
    \<Rightarrow> (('g \<times> fs) \<times> (nat \<Rightarrow> 's), ('v, 'q) context_error, unit) action" where
  "core_farm_setup U H F n V st E stext etext k s =
     (case snd k of
        LocalFarm \<Rightarrow> (Ok (), s)
      | ContainerFarm C \<Rightarrow>
          (let (r, s1) = container_farm_setup (ou_processes U) H V st stext (fst (fst k)) (fst (snd (fst k))) (snd (snd (fst k)))
             \<lparr>cf_config = cf_config C, cf_addr = cf_addr C, cf_user = cf_user C,
              cf_source = source_ops n (ou_tools U) H F V st E (cf_source C)\<rparr> s
           in (map_err (\<lambda>e. CEnvironment (etext e)) r, s1))
      | _ \<Rightarrow> (Inl Panic, s))"

definition on_host_files :: "('v, 'q, 'a) file_action \<Rightarrow> (('g \<times> fs) \<times> 'h, ('v, 'q) context_error, 'a) action" where
  "on_host_files m s = (let (r, F) = m (snd (fst s)) in (r, ((fst (fst s), F), snd s)))"

definition setup_environments :: "host \<Rightarrow> string \<Rightarrow> ('k \<Rightarrow> (('g \<times> fs) \<times> 'h, ('v, 'q) context_error, unit) action)
    \<Rightarrow> ('c, 'v, 'q, 'f) ctx \<Rightarrow> (addr \<times> 'c \<Rightarrow> 'k) \<Rightarrow> (('g \<times> fs) \<times> 'h, ('v, 'q) context_error, unit) action" where
  "setup_environments H logs farm_setup x named =
     bindS (on_host_files (bindS (log_create H logs ''setup'') (set_subject ''environment-setup''))) (\<lambda>_.
     foreachS (\<lambda>e. farm_setup (named e)) (cx_farms x))"

text \<open>What the scheduler asks the context: the dependencies of a registered transform.\<close>

definition core_deps :: "(('u, 'r, 'q) core_component, 'v, 'q, 'f) ctx \<Rightarrow> addr \<Rightarrow> (sched_error, addr list) res option" where
  "core_deps x a = map_option (\<lambda>k. case k of TransformC t \<Rightarrow> Ok (core_depends t) | _ \<Rightarrow> Inl Panic) (get_transform a x)"

text \<open>\<open>Context::run\<close>: its possible results, with the machine and the nodes at the end. What the scheduler meets (\<open>fe\<close>) may depend
  on the state that the set-up left.\<close>

inductive context_run :: "host \<Rightarrow> string \<Rightarrow> ('k \<Rightarrow> (('p \<times> fs) \<times> 'h, ('v, 'q) context_error, unit) action) \<Rightarrow> (addr \<times> ('u, 'r, 'q) core_component \<Rightarrow> 'k)
    \<Rightarrow> (sched_error \<Rightarrow> string) \<Rightarrow> 'g daggy \<Rightarrow> (('p \<times> fs) \<times> 'h \<Rightarrow> 'z fetch_env) \<Rightarrow> (nat \<Rightarrow> bool)
    \<Rightarrow> (('u, 'r, 'q) core_component, 'v, 'q, 'f) ctx \<Rightarrow> nat \<Rightarrow> addr \<Rightarrow> ('p \<times> fs) \<times> 'h
    \<Rightarrow> (('v, 'q) context_error, unit) res \<Rightarrow> ('g, 'z) graph option \<Rightarrow> (nat \<Rightarrow> 'z node) \<Rightarrow> bool"
    for H logs farm_setup named stext D fe panics x workers a s where
  setup_fails: "setup_environments H logs farm_setup x named s = (Inl e, s1) \<Longrightarrow>
    context_run H logs farm_setup named stext D fe panics x workers a s (Inl e) None ns"
| scheduled: "setup_environments H logs farm_setup x named s = (Inr u, s1) \<Longrightarrow>
    scheduler_run D (core_deps x) (fe s1) panics workers a r g ns \<Longrightarrow>
    context_run H logs farm_setup named stext D fe panics x workers a s (map_err (\<lambda>e. CScheduler (stext e)) r) (Some g) ns"

inductive_cases context_run_OkE: "context_run H logs farm_setup named stext D fe panics x k a s (Inr u) g ns"

section \<open>The commands\<close>

datatype ('v, 'q, 'i, 'x) cli_error = CliIo | CliContext "('v, 'q) context_error" | CliStorage "'i storage_error" | CliTransform 'x

text \<open>\<open>parse_key_val\<close>, of the arguments \<open>KEY=value\<close>.\<close>

definition parse_key_val :: "string \<Rightarrow> (string \<times> string) option" where
  "parse_key_val s = split_once (CHR ''='') s"

text \<open>The map that \<open>checkout\<close> and \<open>run\<close> make of them: the last value of a key.\<close>

definition arg_map :: "(string \<times> string) list option \<Rightarrow> (string \<times> string) list" where
  "arg_map kvs = (case kvs of None \<Rightarrow> [] | Some kvs \<Rightarrow> bt_extend kvs [])"

text \<open>\<open>edo list\<close> prints the addresses.\<close>

definition list_transforms :: "('c, 'v, 'q, 'f) ctx \<Rightarrow> string list" where
  "list_transforms x = map (\<lambda>e. addr_to_string (fst e)) (cx_transforms x)"

text \<open>\<open>edo prune\<close> on a loaded context: the local cache, then the logs.\<close>

definition cli_prune :: "host \<Rightarrow> bool \<Rightarrow> bool \<Rightarrow> ('c \<Rightarrow> ('i storage_error, 'w artifact_id) res) \<Rightarrow> (nat \<Rightarrow> ('s, 'u, 'i, 'w) backend)
    \<Rightarrow> ('c, 'v, 'q, 'f) ctx \<Rightarrow> string \<Rightarrow> (fs \<times> (nat \<Rightarrow> 's), ('v, 'q, 'i, 'x) cli_error, unit) action" where
  "cli_prune H everything logs ident V x logdir =
     bindS (\<lambda>s. let (r, h) = (if everything then prune_local_all V (cx_storage x) else ctx_prune ident V x) (snd s)
                in (map_err CliStorage r, (fst s, h))) (\<lambda>_.
     if logs \<or> everything then (\<lambda>s. let (r, F) = log_clear H logdir (fst s) in (map_err CliContext r, (F, snd s))) else returnS ())"





section \<open>Farms are only added\<close>

named_theorems keeps_farms \<open>steps that remove no farm\<close>

definition farms :: "('c, 'v, 'q, 'f) project_session \<Rightarrow> addr set" where
  "farms s = dom (map_of (cx_farms (se_ctx s)))"

definition farms_kept :: "(('c, 'v, 'q, 'f) project_session, 'e, 'a) action \<Rightarrow> bool" where
  "farms_kept m \<longleftrightarrow> (\<forall>s. farms s \<subseteq> farms (snd (m s)))"

lemma farms_kept_basic [keeps_farms]:
  "farms_kept (returnS x)" "farms_kept (liftS r)" "farms_kept (getS f)" "farms_kept (Pair r)" "farms_kept (on_heap k)"
  by (simp_all add: farms_kept_def farms_def on_heap_def split: prod.split)

lemma farms_kept_bind [keeps_farms]:
  assumes "farms_kept m" and "\<And>x. farms_kept (f x)"
  shows "farms_kept (bindS m f)"
  unfolding farms_kept_def
proof
  fix s
  obtain r s1 where m: "m s = (r, s1)" by (cases "m s")
  have 1: "farms s \<subseteq> farms s1" using assms(1) m unfolding farms_kept_def by (metis snd_conv)
  have 2: "farms s1 \<subseteq> farms (snd (f x s1))" for x using assms(2) unfolding farms_kept_def by blast
  show "farms s \<subseteq> farms (snd (bindS m f s))"
  proof (cases r)
    case (Inl e)
    then show ?thesis using 1 m by (simp add: bindS_def)
  next
    case (Inr x)
    then show ?thesis using subset_trans [OF 1 2] m by (simp add: bindS_def)
  qed
qed

lemma farms_kept_loops [keeps_farms]:
  "(\<And>x. farms_kept (g x)) \<Longrightarrow> farms_kept (foreachS g xs)"
  "(\<And>x b. farms_kept (f x b)) \<Longrightarrow> farms_kept (foldS f xs b)"
proof -
  assume g: "\<And>x. farms_kept (g x)"
  show "farms_kept (foreachS g xs)"
  proof (induction xs)
    case (Cons x xs)
    have "foreachS g (x # xs) = bindS (g x) (\<lambda>_. foreachS g xs)"
      by (rule ext) (simp add: bindS_def split: prod.split sum.split)
    then show ?case using farms_kept_bind [OF g] Cons.IH by metis
  qed (simp add: farms_kept_def)
next
  assume "\<And>x b. farms_kept (f x b)"
  then show "farms_kept (foldS f xs b)"
    by (induction xs arbitrary: b) (auto intro: keeps_farms)
qed

lemma farms_kept_updates [keeps_farms]:
  "farms_kept (add_config c)" "farms_kept (construct get a r)" "farms_kept (write_lock L W k)"
  "farms_kept (ctx_update (\<lambda>x. x\<lparr>cx_storage := st x\<rparr>))" "farms_kept (ctx_update (\<lambda>x. x\<lparr>cx_transforms := ts x\<rparr>))"
  "farms_kept (ctx_update (\<lambda>x. x\<lparr>cx_farms := bt_insert a v (cx_farms x)\<rparr>))"
  by (auto simp: farms_kept_def farms_def add_config_def ctx_update_def construct_def write_lock_def bindS_def
      split: prod.split sum.split if_splits)


lemma farms_kept_registration [keeps_farms]:
  "farms_kept (add_farm a r)" "farms_kept (add_transform a r)" "farms_kept (ctx_add_vendor a r)"
  by (auto simp: add_farm_def add_transform_def ctx_add_vendor_def intro: keeps_farms)

lemma farms_kept_cache [keeps_farms]: "farms_kept (add_cache new_local a r)"
proof -
  have "farms_kept (case k of None \<Rightarrow> liftS (Inl Panic)
      | Some k \<Rightarrow> bindS (construct (\<lambda>R. if k = ''local'' \<or> k = ''edo:local'' then new_local else registry_backend R) a r) (\<lambda>b.
          ctx_update (\<lambda>x. x\<lparr>cx_storage := route_cache a b (cx_storage x)\<rparr>)))" for k
    by (cases k) (auto intro: keeps_farms)
  then show ?thesis unfolding add_cache_def by (intro keeps_farms)
qed

lemma farms_kept_steps [keeps_farms]:
  "farms_kept (add_opt_cache new_local name c)" "farms_kept (collect_vendors W vs)" "farms_kept (register_all p)"
  by (auto simp: add_opt_cache_def collect_vendors_def register_all_def split: option.split intro!: keeps_farms)

lemma farms_kept_deps [keeps_farms]: "farms_kept (collect_deps_step e acc)"
  by (auto simp: collect_deps_step_def split: prod.split intro!: keeps_farms)

lemma farms_kept_assign [keeps_farms]: "farms_kept (assign R need e locked)"
  by (auto simp: assign_def split: prod.split option.split intro!: keeps_farms)

lemma farms_kept_fresh [keeps_farms]: "farms_kept (build_fresh L W p digest)"
  unfolding build_fresh_def by (intro keeps_farms)

lemma farms_kept_build [keeps_farms]: "farms_kept (project_build L W b p)"
  by (auto simp: project_build_def split: disk_file.split intro!: keeps_farms)

lemma farms_kept_load [keeps_farms]: "farms_kept (project_load L W b dir)"
  unfolding project_load_def by (intro keeps_farms)

text \<open>So a loaded session has the default environment.\<close>

lemma default_farm_added: "default_farm s = (Inr u, s1) \<Longrightarrow> Addr [''default''] \<in> farms s1"
  by (auto simp: default_farm_def add_farm_def construct_def ctx_update_def farms_def addr_parse_def numeral_2_eq_2
      elim!: bindS_OkE)

lemma loaded_default:
  assumes "load_core L W U locked dir s = (Inr u, s')"
  shows "\<exists>k. get_farm (Addr [''default'']) (se_ctx s') = Some k"
proof -
  from assms obtain s1 s2 where 1: "default_farm s1 = (Inr (), s2)" and 2: "project_load L W locked dir s2 = (Inr u, s')"
    by (auto simp: load_core_def elim!: bindS_OkE)
  have "farms s2 \<subseteq> farms s'" using farms_kept_load [of L W locked dir] 2 unfolding farms_kept_def by (metis snd_conv)
  then show ?thesis using default_farm_added [OF 1] by (auto simp: farms_def get_farm_def)
qed

section \<open>What a run needs\<close>

definition needs :: "(('u, 'r, 'q) core_component, 'v, 'q, 'f) ctx \<Rightarrow> (addr \<times> addr) set" where
  "needs x = {(b, a). \<exists>t. get_transform a x = Some (TransformC t) \<and> b \<in> set (core_depends t)}"

lemma core_deps_Some: "core_deps x a = Some (Inr ds) \<longleftrightarrow> (\<exists>t. get_transform a x = Some (TransformC t) \<and> ds = core_depends t)"
proof (cases "get_transform a x")
  case (Some k)
  then show ?thesis by (cases k) (auto simp: core_deps_def)
qed (simp add: core_deps_def)

lemma dep_rel_needs: "dep_rel (core_deps x) = needs x"
  by (auto simp: dep_rel_def needs_def core_deps_Some)

section \<open>Arguments\<close>

lemma parse_key_val_written: "CHR ''='' \<notin> set k \<Longrightarrow> parse_key_val (k @ ''='' @ v) = Some (k, v)"
  by (simp add: parse_key_val_def split_once_hit)

lemma arg_map_last: "map_of (arg_map (Some kvs)) = map_of (rev kvs)"
  by (simp add: arg_map_def map_of_bt_extend)

section \<open>Built-in transforms in a session\<close>






section \<open>Properties\<close>

text \<open>C3: the environment of compositions and imports is always there: in a session that started, whatever the project defines, asking
  for the environment of a \<open>compose\<close> or \<open>import\<close> transform reaches a farm, the same for all of them.\<close>

theorem default_environment_found:
  assumes "create_context H su L W U storage config vars locked dir lockfile s = (Inr logs, F, Some se)"
  shows "\<exists>k. \<forall>create t u.
      bindR (core_environment (ComposeTransform t)) (create_environment create (get_handle (se_ctx se))) = create k
    \<and> bindR (core_environment (ImportTransform u)) (create_environment create (get_handle (se_ctx se))) = create k"
proof -
  from assms obtain s0 where "load_core L W U locked dir s0 = (Inr (), se)"
    by (auto simp: create_context_def Let_def bindR_eq_Ok split: prod.splits sum.splits)
  then obtain k where "get_farm (Addr [''default'']) (se_ctx se) = Some k" using loaded_default by blast
  then show ?thesis
    by (intro exI [of _ k]) (simp add: addr_parse_def create_environment_def get_handle_def get_farm_def)
qed

definition test_world :: "((string, string, unit) core_component, nat, unit, unit) world" where
  "test_world = \<lparr>wd_hash = (\<lambda>x. x), wd_json_text = (\<lambda>_. ''j''), wd_new_local = (\<lambda>_ _ _ _. Ok 0), wd_vendor = (\<lambda>_. undefined),
     wd_solve = (\<lambda>_ _. Inr []), wd_writable = True\<rparr>"

definition test_outside :: "(string, string, nat, unit, unit, nat) outside" where
  "test_outside = \<lparr>ou_tools = test_tools, ou_processes = test_processes, ou_texts = test_texts, ou_connect = (\<lambda>_. None),
     ou_new_s3 = (\<lambda>_ _ _ _. Ok 0)\<rparr>"

definition test_startup :: startup where
  "test_startup = \<lparr>su_cwd = Some ''/p'', su_subscriber = True, su_home = True, su_config = Missing\<rparr>"

definition unit_crates :: "(nat, unit, unit) crates" where
  "unit_crates = \<lparr>version_parse = (\<lambda>_. None), version_show = (\<lambda>_. []), req_parse = (\<lambda>_. None), req_show = (\<lambda>_. []),
     req_matches = (\<lambda>_ _. False), float_finite = (\<lambda>_. False), float_of_int = (\<lambda>_. ())\<rparr>"

definition start_ctx :: "((string, string, unit) core_component, nat, unit, unit) ctx" where
  "start_ctx = \<lparr>cx_config = [], cx_storage = storage_init 0, cx_registry = registry_default, cx_transforms = [], cx_farms = [], cx_args = []\<rparr>"

definition test_disk :: fs where
  "test_disk = [[] \<mapsto> Dir, [''s''] \<mapsto> Dir, [''s'', ''env''] \<mapsto> Dir]"

lemma test_steps:
  "path_join ''/s'' ''logs'' = ''/s/logs''" "path_join ''/s'' ''env'' = ''/s/env''"
  "path_steps test_host ''/s'' = [''s'']" "path_steps test_host ''/s/logs'' = [''s'', ''logs'']" "path_steps test_host ''/s/env'' = [''s'', ''env'']"
  by (simp_all add: path_join_def path_steps_def path_segments_def is_absolute_def)

lemma test_log_init: "\<exists>F. log_init test_host True ''/s/logs'' test_disk = (Ok ''/s/logs'', F) \<and> F [''s'', ''env''] = Some Dir"
  by (simp add: log_init_def resolve_path_def test_steps resolve_no_parent dirs_or_io_def make_dirs_def prefixes_of_def Let_def bindS_def
      test_disk_def)

lemma test_init:
  "\<exists>F h. context_init test_host test_startup (wd_new_local test_world) (Some ''/s'') None [] (test_disk, test_nodes)
    = (Ok (start_ctx, ''/s/logs''), (F, h))"
proof -
  from test_log_init obtain F where l: "log_init test_host True ''/s/logs'' test_disk = (Ok ''/s/logs'' :: ((nat, unit) context_error, string) res, F)" "F [''s'', ''env''] = Some Dir"
    by blast
  have e: "ensure_dir test_host ''/s'' test_disk = (Ok () :: ((nat, unit) context_error, unit) res, test_disk)" "ensure_dir test_host ''/s/env'' F = (Ok () :: ((nat, unit) context_error, unit) res, F)"
    using l(2) by (simp_all add: ensure_dir_def test_steps resolve_no_parent test_disk_def)
  have o: "on_files (ensure_dir test_host ''/s'') (test_disk, k) = (Ok () :: ((nat, unit) context_error, unit) res, (test_disk, k))"
    "on_files (log_init test_host True ''/s/logs'') (test_disk, k) = (Ok ''/s/logs'' :: ((nat, unit) context_error, string) res, (F, k))"
    "scheduler_new test_host ''/s/env'' (F, k) = (Ok () :: ((nat, unit) context_error, unit) res, (F, k))" for k :: "(nat, unit, unit) nheap"
    by (simp_all add: on_files_def scheduler_new_def e l(1))
  have n: "on_nodes (new_node d) (F, k) = (Ok (next_ref k) :: ((nat, unit) context_error, nat) res, (F, \<lparr>cell = (cell k)(next_ref k := d), next_ref = Suc (next_ref k)\<rparr>))"
    for d and k :: "(nat, unit, unit) nheap"
    by (simp add: on_nodes_def new_node_def)
  show ?thesis
    by (simp add: context_init_def test_startup_def test_steps Let_def addr_parse_def load_config_def config_load_def
        bindS_run(1) o n new_definition_def test_world_def start_ctx_def del: split_on.simps)
qed

lemma test_empty_project: "\<exists>s'. project_load unit_crates test_world True [] s = (Ok (), s')" if "ps_lock s = Missing"
  using that
  by (simp add: project_load_def project_build_def on_heap_def resolve_sources_def calculate_digest_def project_empty_def add_config_def
      ctx_update_def build_fresh_def add_opt_cache_def collect_vendors_def resolve_def test_world_def collect_def register_all_def
      write_lock_def lock_ser_def lock_new_def bindS_def)

lemma test_load:
  "\<exists>s'. load_core unit_crates test_world test_outside True [] \<lparr>se_heap = h, se_ctx = start_ctx, ps_lock = Missing\<rparr> = (Ok (), s')"
proof -
  have "\<exists>s1. default_farm \<lparr>se_heap = h, se_ctx = start_ctx\<lparr>cx_registry := register_core T P X connect new_s3 args registry_default\<rparr>, ps_lock = Missing\<rparr>
      = (Ok (), s1) \<and> ps_lock s1 = Missing"
    for T :: "(string, string) tools" and P :: "nat processes" and X :: "(nat, unit) texts" and connect and new_s3 :: "(nat, nat, unit, unit) handler" and args
    by (simp add: default_farm_def bindS_def addr_parse_def on_heap_def new_definition_def new_node_def add_farm_def construct_def
      core_farm_kinds [of _ _ "''local''"] accessor_defs new_local_farm_def ctx_update_def start_ctx_def)
  from this [of test_tools test_processes test_texts "\<lambda>_. None" "\<lambda>_ _ _ _. Ok 0" "[]"] obtain s1 where
    1: "default_farm \<lparr>se_heap = h, se_ctx = start_ctx\<lparr>cx_registry := register_core test_tools test_processes test_texts (\<lambda>_. None)
      (\<lambda>_ _ _ _. Ok 0) [] registry_default\<rparr>, ps_lock = Missing\<rparr> = (Ok (), s1)" and lock: "ps_lock s1 = Missing" by blast
  from test_empty_project [OF lock] show ?thesis
    using 1 by (simp add: load_core_def test_outside_def start_ctx_def bindS_def)
qed

theorem default_environment_found_witness:
  "\<exists>se k F. create_context test_host test_startup unit_crates test_world test_outside (Some ''/s'') None [] True [] Missing (test_disk, test_nodes)
      = (Inr ''/s/logs'', F, Some se)
    \<and> (\<forall>t. bindR (core_environment (ComposeTransform t)) (create_environment (\<lambda>k. Ok k) (get_handle (se_ctx se))) = Ok k)"
proof -
  obtain F h where i: "context_init test_host test_startup (wd_new_local test_world) (Some ''/s'') None [] (test_disk, test_nodes)
    = (Ok (start_ctx, ''/s/logs''), (F, h))" using test_init by blast
  have "\<exists>se F. create_context test_host test_startup unit_crates test_world test_outside (Some ''/s'') None [] True [] Missing (test_disk, test_nodes)
      = (Inr ''/s/logs'', F, Some se)"
    using test_load [of h] unfolding create_context_def i by auto
  then obtain se F where c: "create_context test_host test_startup unit_crates test_world test_outside (Some ''/s'') None [] True [] Missing
      (test_disk, test_nodes) = (Inr ''/s/logs'', F, Some se)" by blast
  from default_environment_found [OF c] c show ?thesis by blast
qed

text \<open>C1: when \<open>edo run\<close> reports success, the target was found built, or every transform it needs, directly or not, ended
  in success; the needs are read off the transforms of the loaded project.\<close>

theorem run_builds_needs:
  assumes "daggy_ok D" and "0 < w" and "context_run H logs farm_setup named stext D fe panics x w a s (Inr u) (Some g) ns"
  shows "(\<exists>i. g_index g a = Some i \<and> n_cache_hit (g_nodes g i))
    \<or> (\<forall>c. (c, a) \<in> (needs x)\<^sup>* \<longrightarrow> (\<exists>m. g_index g c = Some m \<and> status (ns m) = Success))"
proof -
  from assms(3) obtain s1 where run: "scheduler_run D (core_deps x) (fe s1) panics w a (Inr ()) g ns"
    by (elim context_run_OkE) (metis map_err_eq_Ok option.inject)
  from scheduler_run_success [OF assms(1,2) run] show ?thesis unfolding dep_rel_needs [symmetric] by blast
qed


definition app_ctx :: "((string, string, unit) core_component, nat, unit, unit) ctx" where
  "app_ctx = start_ctx\<lparr>cx_transforms := [(Addr [''app''], TransformC (ComposeTransform \<lparr>co_addr = Addr [''app''], co_arch = None, co_depends = []\<rparr>))]\<rparr>"

lemma app_deps: "core_deps app_ctx = one_deps"
  by (auto simp: core_deps_def app_ctx_def one_deps_def get_transform_def fun_eq_iff)

lemma app_setup: "\<exists>s1. setup_environments test_host ''/'' farm_setup app_ctx named ((g, [[] \<mapsto> Dir]), h) = (Ok (), s1)"
proof -
  have "resolve_path test_host (path_join ''/'' ''setup.log'') = [''setup.log'']"
    by (simp add: resolve_path_def resolve_steps_def path_steps_def path_join_def is_absolute_def path_segments_def)
  then show ?thesis
    by (simp add: setup_environments_def on_host_files_def log_create_def log_new_def set_subject_def log_write_def bindS_def app_ctx_def start_ctx_def Let_def)
qed

theorem run_builds_needs_witness:
  "context_run test_host ''/'' (\<lambda>_ :: unit. returnS ()) (\<lambda>_. ()) (\<lambda>_. []) edge_list_dag (\<lambda>_. one_fetch True) (\<lambda>_. False) app_ctx 1 (Addr [''app''])
      ((0 :: nat, [[] \<mapsto> Dir]), ()) (Inr ()) (Some (one_fetched True 1)) (g_nodes (one_fetched True 1))
   \<and> ((\<exists>i. g_index (one_fetched True 1) (Addr [''app'']) = Some i \<and> n_cache_hit (g_nodes (one_fetched True 1) i))
      \<or> (\<exists>m. g_index (one_fetched True 1) (Addr [''app'']) = Some m \<and> status (g_nodes (one_fetched True 1) m) = Success))"
proof -
  have "graph_run edge_list_dag (one_fetched True 1) (Addr [''app'']) (fe_known (one_fetch True)) (\<lambda>_. False) (Inr ())
      (g_nodes (one_fetched True 1))"
    by (rule graph_run.already_built [of _ _ 0]) (simp_all add: one_fetched_def one_graph_def)
  from scheduler_run.runs [OF one_add one_fetch_ok this]
  have run: "scheduler_run edge_list_dag (core_deps app_ctx) (one_fetch True) (\<lambda>_. False) 1 (Addr [''app'']) (Inr ()) (one_fetched True 1)
      (g_nodes (one_fetched True 1))" by (simp add: app_deps)
  obtain s1 where "setup_environments test_host ''/'' (\<lambda>_ :: unit. returnS ()) app_ctx (\<lambda>_. ()) ((0 :: nat, [[] \<mapsto> Dir]), ()) = (Ok (), s1)"
    by (rule exE [OF app_setup])
  from context_run.scheduled [OF this, where r = "Inr ()" and stext = "\<lambda>_. []" and fe = "\<lambda>_. one_fetch True", OF run]
  have "context_run test_host ''/'' (\<lambda>_ :: unit. returnS ()) (\<lambda>_. ()) (\<lambda>_. []) edge_list_dag (\<lambda>_. one_fetch True) (\<lambda>_. False) app_ctx 1 (Addr [''app''])
      ((0 :: nat, [[] \<mapsto> Dir]), ()) (Inr ()) (Some (one_fetched True 1)) (g_nodes (one_fetched True 1))" by simp
  from run_builds_needs [OF edge_list_ok zero_less_one this] this show ?thesis by blast
qed





end
