(* ===== verification/Spec2Isabelle.thy ===== *)
theory Spec2Isabelle
  imports Address Artifact_Id Artifact Catalog Local_Backend Sched_Node Dispatch Graph_Build Scheduler Storage Config_Node Schema Resolver Build_Context Project
    S3_Backend Environment Sources Transforms Container Image_Vendor Core Readers Logs Command_Line
begin

text \<open>
  A verification development for edo, a build tool. A project is a tree of \<open>edo.toml\<close> files that define sources,
  environments, transforms, vendors and caches. A session loads the project, resolves its requirements
  or takes them from the lock file, and registers what it finds with a context. Running a transform
  builds the graph of its dependencies, asks the caches what is built already, and dispatches the rest to
  workers, each of which brings an environment up, stages sources and dependencies there, runs the
  transform and stores the artifact that results.

  The model is a shallow embedding. A fallible call returns a value, an error or a panic (theory \<open>Prelude\<close>:
  \<open>res\<close>, \<open>bindR\<close> for \<open>?\<close>); code that changes state is an action from a state to a result and a state (\<open>Effects\<close>:
  \<open>bindS\<close>, \<open>foreachS\<close>, \<open>foldS\<close>); a \<open>BTreeMap\<close> is a sorted association list; a \<open>DashMap\<close> whose order does not matter is one
  too. Definitions keep the names of the code where the language allows it. Third-party code is a
  parameter, collected in records (\<open>crates\<close>, \<open>world\<close>, \<open>tools\<close>, \<open>host\<close>, \<open>processes\<close>, \<open>s3_client\<close>, \<open>daggy\<close>, \<open>image_registry\<close>), and what the
  code relies on is a named hypothesis (\<open>daggy_ok\<close>, \<open>solver_ok\<close>, the locale \<open>s3_service\<close>) that a concrete instance is shown
  to meet.

  Data, \<open>crates/edo/src\<close>:
  \<^item> \<open>Address\<close> (\<open>context/address.rs\<close>): addresses and their text.
  \<^item> \<open>Artifact_Id\<close>, \<open>Artifact\<close> (\<open>storage/id.rs\<close>, \<open>storage/artifact.rs\<close>): identifiers, media types, layers and manifests with their
    serialised forms; the printers and parsers are interpretations of the locale \<open>codec\<close>.
  \<^item> \<open>Config_Node\<close>, \<open>Schema\<close> (\<open>context/node.rs\<close>, \<open>error.rs\<close>, \<open>schema.rs\<close>): nodes are shared and mutable, so they live in a heap; \<open>denotes\<close>
    relates a reference to the tree it stands for. Reading TOML and writing and reading JSON are functions on
    these trees; \<open>node_json\<close> takes the fuel \<open>Suc (next_ref h)\<close>, more than the height of any tree in the heap.

  Storage:
  \<^item> \<open>Catalog\<close>, \<open>Local_Backend\<close> (\<open>storage/catalog.rs\<close>, \<open>local.rs\<close>, \<open>util/writer.rs\<close>): every operation of the local backend, with the
    interleaving of a save and a deletion as explicit steps. The writer stands over a file that takes bytes before
    they are on disk: one write is in flight until a flush settles it, and \<open>finish_layer\<close> does not flush. Both are interpretations of \<open>keyed_store\<close>: a map from
    identifiers to manifests.
  \<^item> \<open>Storage\<close> (\<open>storage/mod.rs\<close>, \<open>backend.rs\<close>): local, source, build and output caches over backends that share state; the laws a
    backend owes are the locale \<open>blob_store\<close>.
  \<^item> \<open>S3_Backend\<close> (\<open>crates/core/src/storage/s3\<close>): over an object store that may fail. The locale \<open>s3_service\<close> has the
    service's limits: 5 GB (\<open>PUT_LIMIT\<close>) in one request, also for a catalog, whose size is the parameter \<open>doc_size\<close>, and 10000
    parts in one upload. A streaming reader ends within \<open>3 n + 2\<close> polls of \<open>n\<close> bytes, or panics when a body is lost.
  \<^item> \<open>Readers\<close> (\<open>util/reader.rs\<close>, \<open>util/sync.rs\<close>): the hashing reader and the loops that poll, which may not end and so are
    partial functions.

  Scheduling, \<open>crates/edo/src/scheduler\<close>:
  \<^item> \<open>Sched_Node\<close>, \<open>Graph_Build\<close> (\<open>node.rs\<close>, \<open>graph.rs\<close>): nodes with their status bytes; \<open>Graph::add\<close> with the fuel \<open>Suc (card (dom deps))\<close>,
    one for each transform that can be new, and a breadth-first search with \<open>bfs_fuel\<close>, one more than the number of edges.
  \<^item> \<open>Dispatch\<close> (\<open>Graph::run\<close>): driver, workers, channels and cancellation as the step relation \<open>run_step\<close>, an interpretation of
    \<open>transition_system\<close>. Its invariant gives the order of dispatches, the bounds on channels and counters, the
    result, and with a measure that every run ends. The cascade of cache hits takes as many rounds as the
    subgraph has nodes.
  \<^item> \<open>Scheduler\<close> (\<open>Graph::fetch\<close>, \<open>run_transform_lifecycle\<close>, \<open>execute.rs\<close>, \<open>mod.rs\<close>): the fetch, the life cycle of an environment as a
    trace, the interactive executor, and \<open>Scheduler::run\<close>.

  Project:
  \<^item> \<open>Resolver\<close> (\<open>source/resolver.rs\<close>, \<open>version.rs\<close>, \<open>require.rs\<close>, \<open>vendor.rs\<close>): the versions the solver sees and the answer taken from it.
    A map insertion under a guard on the same key never returns, so \<open>build_db\<close> has a result for that (\<open>RNeverReturns\<close>).
  \<^item> \<open>Build_Context\<close> (\<open>context/config.rs\<close>, \<open>registry.rs\<close>, \<open>handle.rs\<close>, \<open>mod.rs\<close>): configuration, constructors by kind, registration.
  \<^item> \<open>Project\<close> (\<open>context/builder.rs\<close>, \<open>lock.rs\<close>): the walk over the directories, linking of sources, resolution, the lock file.

  Environments, sources and transforms, \<open>crates/core/src\<close>:
  \<^item> \<open>Paths\<close>, \<open>File_Copy\<close>: \<open>std::path\<close>, and \<open>copy_r\<close> (\<open>util/fs.rs\<close>) with a fuel of one round for each directory.
  \<^item> \<open>Environment\<close> (\<open>environment/command.rs\<close>, \<open>vfs.rs\<close> of edo, \<open>environment/local.rs\<close> of core), \<open>Container\<close> (\<open>util/command.rs\<close> of edo,
    \<open>environment/container.rs\<close>): both environments keep the law of the locale \<open>file_environment\<close> that a written file can be
    read, and a container keeps its files as a local environment does.
  \<^item> \<open>Sources\<close> (\<open>source/*.rs\<close>): git, remote, local, image and vendor sources; \<open>artifact_store\<close> extends \<open>blob_store\<close> by what storing an
    artifact gives, and \<open>source_contract\<close> is what every source owes, interpreted on the five sources and the local
    backend.
  \<^item> \<open>Transforms\<close> (\<open>transform/*.rs\<close>): script, compose, import, cargo and go vendoring; identifiers are computed with a fuel that
    suffices when no transform depends on itself.
  \<^item> \<open>Image_Vendor\<close> (\<open>vendor/oci.rs\<close>), \<open>Core\<close> (\<open>lib.rs\<close>): the vendor of images, and the registration of all built-in components.
  \<^item> \<open>Logs\<close> (\<open>context/log.rs\<close>, \<open>logmgr.rs\<close>), \<open>Command_Line\<close> (\<open>context/mod.rs\<close>, \<open>crates/cli/src\<close>): log files, and a session from its start to
    the commands \<open>run\<close>, \<open>update\<close>, \<open>list\<close>, \<open>prune\<close> and \<open>checkout\<close>. \<open>update\<close> is \<open>create_context\<close> without the check of the lock file.

  The properties follow an artifact through the program: a resolved requirement is one its vendor offered,
  a fetched source has the configured hash and is in the cache, nothing starts before what it needs has
  succeeded, a transform that ran has stored what its environment held, a dependent unpacks those bytes,
  and \<open>edo checkout\<close> delivers them. Others show that the stores are maps, that serialised forms can be read
  back, that loops end, and where the code does not do what it means to: a save that races with a
  deletion, a worker that panics, two vendors for one package, a container that was not launched. Neither backend compares
  a blob with its digest, which the design documents ask for; the laws of the stores say so.

  Not modelled. The console: the tracing subscriber, progress bars and colours of \<open>logmgr.rs\<close>. The argument parser and
  the texts of errors, which \<open>clap\<close> and \<open>snafu\<close> derive. The handle types that the macro \<open>arc_handle\<close> generates: they forward
  to the implementations. Symbolic links, permissions and a full disk: a file tree maps resolved paths to
  directories and contents, and a write to an open log succeeds. Archives count as flushed when they are
  written: the git source flushes before the end blocks, and an environment that archives a directory
  not at all. A panic inside of the teardown of an environment. Tests.
\<close>

end
